(* ===== verification/Prelude.thy ===== *)
theory Prelude
  imports Main "HOL-Library.Word"
begin

unbundle bit_operations_syntax

text \<open>
  Shared vocabulary of the development: the machine integers of the sources
  (an LP64 platform, so \<^verbatim>\<open>size_t\<close> has 64 bits), byte strings, big-endian and
  little-endian values of byte strings, and the sequencing of fallible readers
  that keep the advanced cursor when they fail.
\<close>

type_synonym byte = "8 word"
type_synonym uint16 = "16 word"
type_synonym uint32 = "32 word"
type_synonym uint64 = "64 word"

named_theorems byte_simps \<open>values of byte strings and of shift-or loops\<close>
named_theorems reader_simps \<open>how a reader behaves on an input of a known shape\<close>

subsection \<open>Sizes\<close>

text \<open>
  A \<^verbatim>\<open>size_t\<close> is a natural number below \<open>SIZE_LIMIT\<close>; additions that the source
  checks for wrap-around are written with \<open>size_add\<close>.
\<close>

definition SIZE_LIMIT :: nat where
  "SIZE_LIMIT = 2 ^ 64"

definition size_add :: "nat \<Rightarrow> nat \<Rightarrow> nat" where
  "size_add a b = (a + b) mod SIZE_LIMIT"

lemma size_add_exact: "a + b < SIZE_LIMIT \<Longrightarrow> size_add a b = a + b"
  by (simp add: size_add_def)

lemma size_add_wraps_iff:
  assumes "a < SIZE_LIMIT" "b < SIZE_LIMIT"
  shows "size_add a b < a \<longleftrightarrow> SIZE_LIMIT \<le> a + b"
proof (cases "a + b < SIZE_LIMIT")
  case True
  then show ?thesis by (simp add: size_add_def)
next
  case False
  with assms have "size_add a b = a + b - SIZE_LIMIT"
    by (simp add: size_add_def mod_if)
  with False assms show ?thesis by linarith
qed

subsection \<open>Readers\<close>

text \<open>
  A reader returns its result, \<open>None\<close> for the source's return value zero, together
  with the input it leaves. A failing reader may already have advanced the input.
\<close>

definition on_read :: "'a option \<times> 's \<Rightarrow> ('a \<Rightarrow> 's \<Rightarrow> 'b option \<times> 's) \<Rightarrow> 'b option \<times> 's" where
  "on_read r f = (case r of (None, s) \<Rightarrow> (None, s) | (Some a, s) \<Rightarrow> f a s)"

lemma on_read_simps [simp]:
  "on_read (None, s) f = (None, s)"
  "on_read (Some a, s) f = f a s"
  by (simp_all add: on_read_def)

lemma on_read_Some_iff:
  "on_read r f = (Some b, t) \<longleftrightarrow> (\<exists>a s. r = (Some a, s) \<and> f a s = (Some b, t))"
  by (auto simp: on_read_def split: prod.splits option.splits)

subsection \<open>Big-endian values\<close>

definition be_nat :: "byte list \<Rightarrow> nat" where
  "be_nat bs = foldl (\<lambda>a b. a * 256 + unat b) 0 bs"

fun nat_be :: "nat \<Rightarrow> nat \<Rightarrow> byte list" where
  "nat_be 0 v = []"
| "nat_be (Suc n) v = nat_be n (v div 256) @ [of_nat v]"

lemma be_nat_Nil [simp]: "be_nat [] = 0"
  by (simp add: be_nat_def)

lemma be_nat_snoc [simp]: "be_nat (bs @ [b]) = be_nat bs * 256 + unat b"
  by (simp add: be_nat_def)

lemma be_nat_append: "be_nat (as @ bs) = be_nat as * 256 ^ length bs + be_nat bs"
  by (induction bs rule: rev_induct)
     (simp_all flip: append_assoc add: algebra_simps)

lemma be_nat_Cons: "be_nat (b # bs) = unat b * 256 ^ length bs + be_nat bs"
  using be_nat_append [of "[b]" bs] be_nat_snoc [of "[]" b] by simp

lemma be_nat_bound: "be_nat bs < 256 ^ length bs"
proof (induction bs rule: rev_induct)
  case (snoc b bs)
  have "unat b < 256" using unsigned_less [of b] by simp
  with snoc show ?case by simp
qed simp

lemma length_nat_be [simp]: "length (nat_be n v) = n"
  by (induction n arbitrary: v) simp_all

lemma nat_be_eq_Nil_iff [simp]: "nat_be n v = [] \<longleftrightarrow> n = 0"
  by (cases n) simp_all

lemma be_nat_nat_be: "be_nat (nat_be n v) = v mod 256 ^ n"
proof (induction n arbitrary: v)
  case (Suc n)
  have "v mod 256 ^ Suc n = (v div 256) mod 256 ^ n * 256 + v mod 256"
    using mod_mult2_eq [of v 256 "256 ^ n"] by simp
  with Suc show ?case by (simp add: unat_of_nat)
qed simp

lemma nat_be_be_nat: "nat_be (length bs) (be_nat bs) = bs"
proof (induction bs rule: rev_induct)
  case (snoc b bs)
  have "unat b < 256" using unsigned_less [of b] by simp
  then have "(be_nat bs * 256 + unat b) div 256 = be_nat bs" by simp
  moreover have "of_nat (be_nat bs) * (256 :: byte) = 0"
    using word_of_nat_eq_0_iff [where 'a = 8, of "be_nat bs * 256"] by simp
  ultimately show ?case using snoc by simp
qed simp

lemma be_nat_inj: "length as = length bs \<Longrightarrow> be_nat as = be_nat bs \<Longrightarrow> as = bs"
  by (metis nat_be_be_nat)

subsection \<open>Shift-or loops\<close>

text \<open>
  The sources assemble integers with \<^verbatim>\<open>v = (v << 8) | b\<close>; the loop computes the
  big-endian value, reduced to the width of the accumulator.
\<close>

definition shift_in :: "'a::len word \<Rightarrow> byte \<Rightarrow> 'a word" where
  "shift_in r b = push_bit 8 r OR ucast b"

lemma byte_less [simp]: "unat (b :: byte) < 256"
  using unsigned_less [of b] by simp

lemma byte_le [simp]: "unat (b :: byte) \<le> 255"
  using byte_less [of b] by linarith

lemma shift_in_eq: "shift_in r b = r * 256 + ucast b"
proof -
  have "push_bit 8 r AND ucast b = 0"
    by (rule bit_word_eqI) (auto simp: bit_simps dest: bit_imp_le_length)
  then have "push_bit 8 r OR ucast b = push_bit 8 r + ucast b"
    by (simp add: disjunctive_add_eq_or)
  then show ?thesis
    by (simp add: shift_in_def push_bit_eq_mult)
qed

lemma ucast_eq_of_nat: "ucast w = of_nat (unat w)"
  by (simp add: unsigned_of_nat)

lemma uint64_less: "unat (v :: uint64) < 2 ^ 64"
  using unsigned_less [where 'a = nat, of v] by simp

lemma uint32_less: "unat (v :: uint32) < 2 ^ 32"
  using unsigned_less [where 'a = nat, of v] by simp

lemma unat_ucast_up:
  fixes w :: "'a::len word"
  assumes "LENGTH('a) \<le> LENGTH('b::len)"
  shows "unat (ucast w :: 'b word) = unat w"
proof -
  have "unat w < 2 ^ LENGTH('a)" by (rule unsigned_less)
  also have "\<dots> \<le> 2 ^ LENGTH('b)" using assms by (intro power_increasing) simp_all
  finally show ?thesis by (simp add: unsigned_ucast_eq take_bit_nat_eq_self)
qed

lemma of_nat_unat_self: "of_nat (unat w) = w"
  by simp

lemma foldl_shift_in [byte_simps]: "foldl shift_in 0 bs = of_nat (be_nat bs)"
proof (induction bs rule: rev_induct)
  case (snoc b bs)
  then show ?case by (simp add: shift_in_eq)
qed simp

lemma unat_foldl_shift_in:
  assumes "8 * length bs \<le> LENGTH('a::len)"
  shows "unat (foldl shift_in 0 bs :: 'a word) = be_nat bs"
proof -
  have "(256::nat) ^ length bs = 2 ^ (8 * length bs)"
    by (simp add: power_mult)
  also have "\<dots> \<le> 2 ^ LENGTH('a)"
    using assms by (rule power_increasing) simp
  finally have "be_nat bs < 2 ^ LENGTH('a)"
    using be_nat_bound [of bs] by linarith
  then show ?thesis
    by (simp add: foldl_shift_in unat_of_nat take_bit_nat_eq_self)
qed

text \<open>
  The loop \<^verbatim>\<open>buf[i] = v; v >>= 8\<close>, run from the last byte of an \<open>n\<close>-byte field to
  its first: the bytes it writes and what is left of the value.
\<close>

fun shift_out :: "nat \<Rightarrow> uint64 \<Rightarrow> byte list \<times> uint64" where
  "shift_out 0 v = ([], v)"
| "shift_out (Suc n) v = (let (bs, r) = shift_out n (drop_bit 8 v) in (bs @ [ucast v], r))"

lemma unat_drop_bit: "unat (drop_bit n w) = unat w div 2 ^ n"
  by (simp only: unsigned_drop_bit_eq drop_bit_eq_div [where 'a = nat])
     (simp add: take_bit_nat_eq_self unsigned_less)

lemma shift_out_eq:
  "shift_out n v = (nat_be n (unat v), of_nat (unat v div 256 ^ n))"
proof (induction n arbitrary: v)
  case (Suc n)
  have "unat v div 256 div 256 ^ n = unat v div 256 ^ Suc n"
    by (simp add: div_mult2_eq)
  then show ?case using Suc
    by (simp add: unat_drop_bit)
qed simp

end
