(* ===== verification/Endian.thy ===== *)
theory Endian
  imports Prelude
begin

unbundle bit_operations_syntax

text \<open>
  Byte swapping, loads and stores of sized integers and bit rotations, from
  \<^verbatim>\<open>crypto/internal.h\<close>. The machine is little-endian (as the sources assume), so copying
  the object representation of an integer reads or writes its bytes from the least
  significant one. The lemmas relate every load and store to the value of the byte
  string and give the round trips.
\<close>

subsection \<open>Byte swapping\<close>

definition CRYPTO_bswap2 :: "uint16 \<Rightarrow> uint16" where
  "CRYPTO_bswap2 x = drop_bit 8 x OR push_bit 8 x"

definition CRYPTO_bswap4 :: "uint32 \<Rightarrow> uint32" where
  "CRYPTO_bswap4 x =
     (let x = drop_bit 16 x OR push_bit 16 x
      in drop_bit 8 (x AND 0xff00ff00) OR push_bit 8 (x AND 0x00ff00ff))"

definition CRYPTO_bswap8 :: "uint64 \<Rightarrow> uint64" where
  "CRYPTO_bswap8 x =
     ucast (CRYPTO_bswap4 (ucast (drop_bit 32 x))) OR
     push_bit 32 (ucast (CRYPTO_bswap4 (ucast x)))"

subsection \<open>Loads and stores\<close>

text \<open>Copies of an object representation: \<open>le_load\<close> from memory, \<open>le_store n\<close> of \<open>n\<close> bytes to it.\<close>

definition le_load :: "byte list \<Rightarrow> 'a::len word" where
  "le_load bs = of_nat (be_nat (rev bs))"

definition le_store :: "nat \<Rightarrow> 'a::len word \<Rightarrow> byte list" where
  "le_store n v = rev (nat_be n (unat v))"

definition CRYPTO_load_u16_le :: "byte list \<Rightarrow> uint16" where
  "CRYPTO_load_u16_le src = le_load (take 2 src)"

definition CRYPTO_store_u16_le :: "uint16 \<Rightarrow> byte list" where
  "CRYPTO_store_u16_le v = le_store 2 v"

definition CRYPTO_load_u16_be :: "byte list \<Rightarrow> uint16" where
  "CRYPTO_load_u16_be src = CRYPTO_bswap2 (le_load (take 2 src))"

definition CRYPTO_store_u16_be :: "uint16 \<Rightarrow> byte list" where
  "CRYPTO_store_u16_be v = le_store 2 (CRYPTO_bswap2 v)"

definition CRYPTO_load_u32_le :: "byte list \<Rightarrow> uint32" where
  "CRYPTO_load_u32_le src = le_load (take 4 src)"

definition CRYPTO_store_u32_le :: "uint32 \<Rightarrow> byte list" where
  "CRYPTO_store_u32_le v = le_store 4 v"

definition CRYPTO_load_u32_be :: "byte list \<Rightarrow> uint32" where
  "CRYPTO_load_u32_be src = CRYPTO_bswap4 (le_load (take 4 src))"

definition CRYPTO_store_u32_be :: "uint32 \<Rightarrow> byte list" where
  "CRYPTO_store_u32_be v = le_store 4 (CRYPTO_bswap4 v)"

definition CRYPTO_load_u64_le :: "byte list \<Rightarrow> uint64" where
  "CRYPTO_load_u64_le src = le_load (take 8 src)"

definition CRYPTO_store_u64_le :: "uint64 \<Rightarrow> byte list" where
  "CRYPTO_store_u64_le v = le_store 8 v"

definition CRYPTO_load_u64_be :: "byte list \<Rightarrow> uint64" where
  "CRYPTO_load_u64_be src = CRYPTO_bswap8 (le_load (take 8 src))"

definition CRYPTO_store_u64_be :: "uint64 \<Rightarrow> byte list" where
  "CRYPTO_store_u64_be v = le_store 8 (CRYPTO_bswap8 v)"

subsection \<open>Rotations\<close>

text \<open>The shift count is an \<^verbatim>\<open>int\<close>; the sources call these with counts in \<open>0..<32\<close> or \<open>0..<64\<close>.\<close>

definition CRYPTO_rotl_u32 :: "uint32 \<Rightarrow> int \<Rightarrow> uint32" where
  "CRYPTO_rotl_u32 v shift = push_bit (nat shift) v OR drop_bit (nat ((- shift) AND 31)) v"

definition CRYPTO_rotr_u32 :: "uint32 \<Rightarrow> int \<Rightarrow> uint32" where
  "CRYPTO_rotr_u32 v shift = drop_bit (nat shift) v OR push_bit (nat ((- shift) AND 31)) v"

definition CRYPTO_rotl_u64 :: "uint64 \<Rightarrow> int \<Rightarrow> uint64" where
  "CRYPTO_rotl_u64 v shift = push_bit (nat shift) v OR drop_bit (nat ((- shift) AND 63)) v"

definition CRYPTO_rotr_u64 :: "uint64 \<Rightarrow> int \<Rightarrow> uint64" where
  "CRYPTO_rotr_u64 v shift = drop_bit (nat shift) v OR push_bit (nat ((- shift) AND 63)) v"

subsection \<open>Bits of a byte string's value\<close>

lemma bit_shift_in:
  "bit (shift_in r b) n \<longleftrightarrow> n < LENGTH('a) \<and> (if n < 8 then bit b n else bit r (n - 8))"
  for r :: "'a::len word"
  by (auto simp: shift_in_def bit_simps dest: bit_imp_le_length)

lemma le_load_Nil [simp]: "le_load [] = 0"
  by (simp add: le_load_def)

lemma le_load_Cons: "le_load (b # bs) = shift_in (le_load bs) b"
  by (simp add: le_load_def shift_in_eq)

lemma bswap2_load: "CRYPTO_bswap2 (le_load [b0, b1]) = le_load [b1, b0]"
  by (rule bit_word_eqI)
     (auto simp: CRYPTO_bswap2_def le_load_Cons bit_shift_in bit_simps)

lemma bswap4_masks:
  "(0xff00ff00 :: uint32) = push_bit 24 (mask 8) OR push_bit 8 (mask 8)"
  "(0x00ff00ff :: uint32) = push_bit 16 (mask 8) OR mask 8"
  by (simp_all add: mask_eq_exp_minus_1)

lemma bswap4_load: "CRYPTO_bswap4 (le_load [b0, b1, b2, b3]) = le_load [b3, b2, b1, b0]"
  by (rule bit_word_eqI)
     (auto simp: CRYPTO_bswap4_def Let_def le_load_Cons bit_shift_in bit_simps bswap4_masks
       bit_mask_iff)

lemma unat_le_load:
  "8 * length bs \<le> LENGTH('a::len) \<Longrightarrow> unat (le_load bs :: 'a word) = be_nat (rev bs)"
  using unat_foldl_shift_in [where 'a = 'a, of "rev bs"] by (simp add: le_load_def foldl_shift_in)

lemma be_nat_rev_append:
  "be_nat (rev (as @ bs)) = be_nat (rev bs) * 256 ^ length as + be_nat (rev as)"
  by (simp add: be_nat_append)

lemma le_load_halves:
  assumes "length as = 4" "length bs = 4"
  shows "ucast (le_load (as @ bs) :: uint64) = (le_load as :: uint32)"
    and "ucast (drop_bit 32 (le_load (as @ bs) :: uint64)) = (le_load bs :: uint32)"
    and "ucast (le_load as :: uint32) OR push_bit 32 (ucast (le_load bs :: uint32))
      = (le_load (as @ bs) :: uint64)"
proof -
  let ?a = "be_nat (rev as)" and ?b = "be_nat (rev bs)"
  have bounds: "?a < 2 ^ 32" "?b < 2 ^ 32"
    using be_nat_bound [of "rev as"] be_nat_bound [of "rev bs"] assms by simp_all
  have ab: "be_nat (rev (as @ bs)) = ?b * 2 ^ 32 + ?a"
    unfolding be_nat_rev_append using assms by simp
  have u: "unat (le_load (as @ bs) :: uint64) = ?b * 2 ^ 32 + ?a"
    using assms ab by (simp add: unat_le_load del: rev_append)
  have ua: "unat (le_load as :: uint32) = ?a" and ub: "unat (le_load bs :: uint32) = ?b"
    using assms by (simp_all add: unat_le_load)
  show "ucast (le_load (as @ bs) :: uint64) = (le_load as :: uint32)"
    by (rule unsigned_word_eqI [where 'a = nat])
       (use bounds in \<open>simp add: unsigned_ucast_eq u ua take_bit_eq_mod\<close>)
  show "ucast (drop_bit 32 (le_load (as @ bs) :: uint64)) = (le_load bs :: uint32)"
    by (rule unsigned_word_eqI [where 'a = nat])
       (use bounds in \<open>simp add: unsigned_ucast_eq unat_drop_bit u ub take_bit_eq_mod
          del: drop_bit_eq_div\<close>)
  have "ucast (le_load as :: uint32) AND push_bit 32 (ucast (le_load bs :: uint32)) = (0 :: uint64)"
    by (rule bit_word_eqI) (auto simp: bit_simps dest: bit_imp_le_length)
  then have "ucast (le_load as :: uint32) OR push_bit 32 (ucast (le_load bs :: uint32))
      = (ucast (le_load as :: uint32) + push_bit 32 (ucast (le_load bs :: uint32)) :: uint64)"
    by (simp add: disjunctive_add_eq_or)
  also have "\<dots> = of_nat ?a + of_nat ?b * 2 ^ 32"
    using ua ub by (simp add: push_bit_eq_mult ucast_eq_of_nat)
  also have "\<dots> = (le_load (as @ bs) :: uint64)"
    by (simp add: le_load_def ab del: rev_append)
  finally show "ucast (le_load as :: uint32) OR push_bit 32 (ucast (le_load bs :: uint32))
      = (le_load (as @ bs) :: uint64)" .
qed

lemma bswap8_load:
  "CRYPTO_bswap8 (le_load [b0, b1, b2, b3, b4, b5, b6, b7]) = le_load [b7, b6, b5, b4, b3, b2, b1, b0]"
  using le_load_halves [of "[b0, b1, b2, b3]" "[b4, b5, b6, b7]"]
    le_load_halves(3) [of "[b7, b6, b5, b4]" "[b3, b2, b1, b0]"]
  by (simp add: CRYPTO_bswap8_def bswap4_load)

subsection \<open>Loads and stores as values of byte strings\<close>

lemma length_2_conv: "length xs = 2 \<Longrightarrow> \<exists>a b. xs = [a, b]"
  and length_4_conv: "length xs = 4 \<Longrightarrow> \<exists>a b c d. xs = [a, b, c, d]"
  and length_8_conv: "length xs = 8 \<Longrightarrow> \<exists>a b c d e f g h. xs = [a, b, c, d, e, f, g, h]"
  by (auto simp: numeral_eq_Suc length_Suc_conv)

lemma bswap_rev:
  "length bs = 2 \<Longrightarrow> CRYPTO_bswap2 (le_load bs) = le_load (rev bs)"
  "length bs = 4 \<Longrightarrow> CRYPTO_bswap4 (le_load bs) = le_load (rev bs)"
  "length bs = 8 \<Longrightarrow> CRYPTO_bswap8 (le_load bs) = le_load (rev bs)"
    apply (drule length_2_conv, elim exE, simp add: bswap2_load)
   apply (drule length_4_conv, elim exE, simp add: bswap4_load)
  apply (drule length_8_conv, elim exE, simp add: bswap8_load)
  done

lemma bswap_be_nat [byte_simps]:
  "length bs = 2 \<Longrightarrow> CRYPTO_bswap2 (of_nat (be_nat bs)) = of_nat (be_nat (rev bs))"
  "length bs = 4 \<Longrightarrow> CRYPTO_bswap4 (of_nat (be_nat bs)) = of_nat (be_nat (rev bs))"
  "length bs = 8 \<Longrightarrow> CRYPTO_bswap8 (of_nat (be_nat bs)) = of_nat (be_nat (rev bs))"
  using bswap_rev [of "rev bs"] by (simp_all add: le_load_def)

lemma length_le_store [simp]: "length (le_store n v) = n"
  by (simp add: le_store_def)

lemma le_store_load:
  "8 * length bs \<le> LENGTH('a::len) \<Longrightarrow> le_store (length bs) (le_load bs :: 'a word) = bs"
  using nat_be_be_nat [of "rev bs"] by (simp add: le_store_def unat_le_load)

lemma le_load_store:
  assumes "LENGTH('a::len) \<le> 8 * n"
  shows "le_load (le_store n (v :: 'a word)) = v"
proof -
  have "unat v < 2 ^ LENGTH('a)" by simp
  also have "\<dots> \<le> (2::nat) ^ (8 * n)" using assms by (rule power_increasing) simp
  also have "\<dots> = 256 ^ n" by (simp add: power_mult)
  finally show ?thesis by (simp add: le_load_def le_store_def be_nat_nat_be)
qed

lemmas load_defs =
  CRYPTO_load_u16_le_def CRYPTO_load_u16_be_def CRYPTO_load_u32_le_def
  CRYPTO_load_u32_be_def CRYPTO_load_u64_le_def CRYPTO_load_u64_be_def

lemmas store_defs =
  CRYPTO_store_u16_le_def CRYPTO_store_u16_be_def CRYPTO_store_u32_le_def
  CRYPTO_store_u32_be_def CRYPTO_store_u64_le_def CRYPTO_store_u64_be_def

lemma load_be_eq [byte_simps]:
  "2 \<le> length src \<Longrightarrow> CRYPTO_load_u16_be src = of_nat (be_nat (take 2 src))"
  "4 \<le> length src \<Longrightarrow> CRYPTO_load_u32_be src = of_nat (be_nat (take 4 src))"
  "8 \<le> length src \<Longrightarrow> CRYPTO_load_u64_be src = of_nat (be_nat (take 8 src))"
  by (simp_all add: load_defs bswap_rev) (simp_all add: le_load_def)

lemma bswap_store:
  "le_store 2 (CRYPTO_bswap2 v2) = rev (le_store 2 v2)"
  "le_store 4 (CRYPTO_bswap4 v4) = rev (le_store 4 v4)"
  "le_store 8 (CRYPTO_bswap8 v8) = rev (le_store 8 v8)"
  using bswap_rev(1) [of "le_store 2 v2"] le_store_load [of "rev (le_store 2 v2)", where 'a = 16]
    bswap_rev(2) [of "le_store 4 v4"] le_store_load [of "rev (le_store 4 v4)", where 'a = 32]
    bswap_rev(3) [of "le_store 8 v8"] le_store_load [of "rev (le_store 8 v8)", where 'a = 64]
  by (simp_all add: le_load_store)

lemma store_be_eq [byte_simps]:
  "CRYPTO_store_u16_be v2 = nat_be 2 (unat v2)"
  "CRYPTO_store_u32_be v4 = nat_be 4 (unat v4)"
  "CRYPTO_store_u64_be v8 = nat_be 8 (unat v8)"
  by (simp_all add: store_defs bswap_store) (simp_all add: le_store_def)

lemma bswap_bswap [simp]:
  "CRYPTO_bswap2 (CRYPTO_bswap2 v2) = v2"
  "CRYPTO_bswap4 (CRYPTO_bswap4 v4) = v4"
  "CRYPTO_bswap8 (CRYPTO_bswap8 v8) = v8"
  using bswap_rev(1) [of "rev (le_store 2 v2)"] bswap_rev(1) [of "le_store 2 v2"]
    bswap_rev(2) [of "rev (le_store 4 v4)"] bswap_rev(2) [of "le_store 4 v4"]
    bswap_rev(3) [of "rev (le_store 8 v8)"] bswap_rev(3) [of "le_store 8 v8"]
  by (simp_all add: le_load_store)

subsection \<open>Rotations\<close>

lemma neg_and_mask:
  assumes "0 < s" "s < 2 ^ k"
  shows "(- s) AND mask k = (2 ^ k - s :: int)"
proof -
  have "(- s) AND mask k = (- s) mod 2 ^ k"
    by (simp flip: take_bit_eq_mask add: take_bit_eq_mod)
  also have "\<dots> = (2 ^ k - s) mod 2 ^ k"
    using mod_add_self2 [of "- s" "2 ^ k"] by simp
  also have "\<dots> = 2 ^ k - s" using assms by (intro mod_pos_pos_trivial) simp_all
  finally show ?thesis .
qed

lemma shifts_word_rotl:
  fixes v :: "'a::len word"
  assumes "0 < k" "k < LENGTH('a)"
  shows "push_bit k v OR drop_bit (LENGTH('a) - k) v = word_rotl k v"
proof (rule bit_word_eqI)
  fix n assume n: "n < LENGTH('a)"
  show "bit (push_bit k v OR drop_bit (LENGTH('a) - k) v) n = bit (word_rotl k v) n"
  proof (cases "k \<le> n")
    case True
    then have "(n + (LENGTH('a) - k)) mod LENGTH('a) = n - k"
      using assms n by (simp add: mod_if)
    moreover have "\<not> bit v (LENGTH('a) - k + n)"
      using True assms by (auto dest: bit_imp_le_length)
    ultimately show ?thesis using True n assms by (simp add: bit_simps)
  next
    case False
    then have "(n + (LENGTH('a) - k)) mod LENGTH('a) = LENGTH('a) - k + n"
      using assms n by simp
    with False n assms show ?thesis by (simp add: bit_simps)
  qed
qed

lemma word_rotl_0 [simp]: "word_rotl 0 v = v"
  by (rule bit_word_eqI) (simp add: bit_simps)

lemma word_rotl_rotl_back:
  fixes v :: "'a::len word"
  assumes "0 < k" "k < LENGTH('a)"
  shows "word_rotl (LENGTH('a) - k) (word_rotl k v) = v"
proof (rule bit_word_eqI)
  fix n assume n: "n < LENGTH('a)"
  have "((n + k) mod LENGTH('a) + (LENGTH('a) - k)) mod LENGTH('a)
      = (n + k + (LENGTH('a) - k)) mod LENGTH('a)"
    by (simp only: mod_simps)
  also have "\<dots> = n" using assms n by simp
  finally show "bit (word_rotl (LENGTH('a) - k) (word_rotl k v)) n = bit v n"
    using n assms by (simp add: bit_simps)
qed

lemma rotl_u32_eq:
  assumes "0 \<le> s" "s < 32"
  shows "CRYPTO_rotl_u32 v s = word_rotl (nat s) v"
proof (cases "s = 0")
  case False
  with assms have "(- s) AND 31 = 32 - s"
    using neg_and_mask [of s 5] by (simp add: mask_eq_exp_minus_1)
  moreover have "nat (32 - s) = 32 - nat s" using assms by linarith
  ultimately show ?thesis
    using shifts_word_rotl [of "nat s" v] assms False by (simp add: CRYPTO_rotl_u32_def)
qed (simp add: CRYPTO_rotl_u32_def)

lemma rotl_u64_eq:
  assumes "0 \<le> s" "s < 64"
  shows "CRYPTO_rotl_u64 v s = word_rotl (nat s) v"
proof (cases "s = 0")
  case False
  with assms have "(- s) AND 63 = 64 - s"
    using neg_and_mask [of s 6] by (simp add: mask_eq_exp_minus_1)
  moreover have "nat (64 - s) = 64 - nat s" using assms by linarith
  ultimately show ?thesis
    using shifts_word_rotl [of "nat s" v] assms False by (simp add: CRYPTO_rotl_u64_def)
qed (simp add: CRYPTO_rotl_u64_def)

lemma rotr_rotl_u32:
  assumes "0 \<le> s" "s < 32"
  shows "CRYPTO_rotr_u32 (CRYPTO_rotl_u32 v s) s = v"
proof (cases "s = 0")
  case False
  with assms have "(- s) AND 31 = 32 - s"
    using neg_and_mask [of s 5] by (simp add: mask_eq_exp_minus_1)
  moreover have "nat (32 - s) = 32 - nat s" using assms by linarith
  ultimately show ?thesis
    using shifts_word_rotl [of "32 - nat s" "word_rotl (nat s) v"]
      word_rotl_rotl_back [of "nat s" v] assms False
    by (simp add: CRYPTO_rotr_u32_def rotl_u32_eq or.commute)
qed (simp add: CRYPTO_rotl_u32_def CRYPTO_rotr_u32_def)

lemma rotr_rotl_u64:
  assumes "0 \<le> s" "s < 64"
  shows "CRYPTO_rotr_u64 (CRYPTO_rotl_u64 v s) s = v"
proof (cases "s = 0")
  case False
  with assms have "(- s) AND 63 = 64 - s"
    using neg_and_mask [of s 6] by (simp add: mask_eq_exp_minus_1)
  moreover have "nat (64 - s) = 64 - nat s" using assms by linarith
  ultimately show ?thesis
    using shifts_word_rotl [of "64 - nat s" "word_rotl (nat s) v"]
      word_rotl_rotl_back [of "nat s" v] assms False
    by (simp add: CRYPTO_rotr_u64_def rotl_u64_eq or.commute)
qed (simp add: CRYPTO_rotl_u64_def CRYPTO_rotr_u64_def)

end
