(* ===== verification/Mem.thy ===== *)
theory Mem
  imports Prelude
begin

unbundle bit_operations_syntax

text \<open>
  The memory and C-string helpers of \<^verbatim>\<open>crypto/mem.cc\<close>. The system allocator is the
  argument \<open>heap\<close>: \<open>heap n\<close> says whether \<^verbatim>\<open>malloc(n)\<close> succeeds. A C string is the list of
  its characters before the terminating NUL; \<^verbatim>\<open>char\<close> is signed, so a character is read
  with \<open>sint\<close>. The lemmas give the exact result of every helper the parsers rely on.
\<close>

type_synonym heap = "nat \<Rightarrow> bool"

subsection \<open>Allocation\<close>

definition OPENSSL_MALLOC_PREFIX :: nat where
  "OPENSSL_MALLOC_PREFIX = 8"

definition OPENSSL_malloc :: "heap \<Rightarrow> nat \<Rightarrow> bool" where
  "OPENSSL_malloc heap sz =
     (if size_add sz OPENSSL_MALLOC_PREFIX < sz then False
      else heap (size_add sz OPENSSL_MALLOC_PREFIX))"

definition OPENSSL_zalloc :: "heap \<Rightarrow> nat \<Rightarrow> byte list option" where
  "OPENSSL_zalloc heap sz = (if OPENSSL_malloc heap sz then Some (replicate sz 0) else None)"

definition OPENSSL_calloc :: "heap \<Rightarrow> nat \<Rightarrow> nat \<Rightarrow> byte list option" where
  "OPENSSL_calloc heap num sz =
     (if sz \<noteq> 0 \<and> (SIZE_LIMIT - 1) div sz < num then None
      else OPENSSL_zalloc heap ((num * sz) mod SIZE_LIMIT))"

text \<open>A new block holds the old contents up to the smaller size; \<open>fresh\<close> is what follows.\<close>

definition OPENSSL_realloc :: "heap \<Rightarrow> byte list option \<Rightarrow> nat \<Rightarrow> byte list \<Rightarrow> byte list option" where
  "OPENSSL_realloc heap orig new_size fresh =
     (if \<not> OPENSSL_malloc heap new_size then None
      else (case orig of
          None \<Rightarrow> Some (take new_size fresh)
        | Some old \<Rightarrow>
            (let to_copy = (if length old < new_size then length old else new_size)
             in Some (take to_copy old @ take (new_size - to_copy) fresh))))"

definition OPENSSL_memdup :: "heap \<Rightarrow> byte list \<Rightarrow> byte list option" where
  "OPENSSL_memdup heap data =
     (if length data = 0 then None
      else if \<not> OPENSSL_malloc heap (length data) then None
      else Some data)"

subsection \<open>Comparison and hashing\<close>

text \<open>Both arguments are the \<^verbatim>\<open>len\<close>-byte blocks compared.\<close>

definition CRYPTO_memcmp :: "byte list \<Rightarrow> byte list \<Rightarrow> byte" where
  "CRYPTO_memcmp a b = foldl (\<lambda>x (p, q). x OR (p XOR q)) 0 (zip a b)"

definition OPENSSL_hash32 :: "byte list \<Rightarrow> uint32" where
  "OPENSSL_hash32 bs = foldl (\<lambda>h b. (h XOR ucast b) * 16777619) 2166136261 bs"

definition OPENSSL_strhash :: "byte list \<Rightarrow> uint32" where
  "OPENSSL_strhash s = OPENSSL_hash32 s"

subsection \<open>Characters and strings\<close>

text \<open>The argument of \<open>OPENSSL_strnlen\<close> is the \<^verbatim>\<open>len\<close>-byte block searched.\<close>

fun OPENSSL_strnlen :: "byte list \<Rightarrow> nat" where
  "OPENSSL_strnlen [] = 0"
| "OPENSSL_strnlen (c # cs) = (if c = 0 then 0 else Suc (OPENSSL_strnlen cs))"

definition OPENSSL_isalpha :: "int \<Rightarrow> bool" where
  "OPENSSL_isalpha c \<longleftrightarrow> (c \<ge> 97 \<and> c \<le> 122) \<or> (c \<ge> 65 \<and> c \<le> 90)"

definition OPENSSL_isdigit :: "int \<Rightarrow> bool" where
  "OPENSSL_isdigit c \<longleftrightarrow> c \<ge> 48 \<and> c \<le> 57"

definition OPENSSL_isxdigit :: "int \<Rightarrow> bool" where
  "OPENSSL_isxdigit c \<longleftrightarrow>
     OPENSSL_isdigit c \<or> (c \<ge> 97 \<and> c \<le> 102) \<or> (c \<ge> 65 \<and> c \<le> 70)"

definition OPENSSL_fromxdigit :: "int \<Rightarrow> byte option" where
  "OPENSSL_fromxdigit c =
     (if OPENSSL_isdigit c then Some (of_int (c - 48))
      else if 97 \<le> c \<and> c \<le> 102 then Some (of_int (c - 97 + 10))
      else if 65 \<le> c \<and> c \<le> 70 then Some (of_int (c - 65 + 10))
      else None)"

definition OPENSSL_isalnum :: "int \<Rightarrow> bool" where
  "OPENSSL_isalnum c \<longleftrightarrow> OPENSSL_isalpha c \<or> OPENSSL_isdigit c"

definition OPENSSL_tolower :: "int \<Rightarrow> int" where
  "OPENSSL_tolower c = (if c \<ge> 65 \<and> c \<le> 90 then c + (97 - 65) else c)"

definition OPENSSL_isspace :: "int \<Rightarrow> bool" where
  "OPENSSL_isspace c \<longleftrightarrow> c = 9 \<or> c = 10 \<or> c = 11 \<or> c = 12 \<or> c = 13 \<or> c = 32"

text \<open>The character at the start of a C string: its terminator when the string is empty.\<close>

definition cstr_hd :: "byte list \<Rightarrow> int" where
  "cstr_hd s = (case s of [] \<Rightarrow> 0 | c # _ \<Rightarrow> sint c)"

function OPENSSL_strcasecmp :: "byte list \<Rightarrow> byte list \<Rightarrow> int" where
  "OPENSSL_strcasecmp a b =
     (let aa = OPENSSL_tolower (cstr_hd a); bb = OPENSSL_tolower (cstr_hd b)
      in if aa < bb then -1
         else if aa > bb then 1
         else if aa = 0 then 0
         else OPENSSL_strcasecmp (tl a) (tl b))"
  by pat_completeness auto
termination
  by (relation "measure (\<lambda>(a, b). length a)")
     (auto simp: cstr_hd_def OPENSSL_tolower_def split: list.splits if_splits)

fun OPENSSL_strncasecmp :: "byte list \<Rightarrow> byte list \<Rightarrow> nat \<Rightarrow> int" where
  "OPENSSL_strncasecmp a b 0 = 0"
| "OPENSSL_strncasecmp a b (Suc n) =
     (let aa = OPENSSL_tolower (cstr_hd a); bb = OPENSSL_tolower (cstr_hd b)
      in if aa < bb then -1
         else if aa > bb then 1
         else if aa = 0 then 0
         else OPENSSL_strncasecmp (tl a) (tl b) n)"

definition OPENSSL_strndup :: "heap \<Rightarrow> byte list \<Rightarrow> byte list option" where
  "OPENSSL_strndup heap str =
     (let sz = OPENSSL_strnlen str; alloc_size = size_add sz 1
      in if alloc_size < sz then None
         else if \<not> OPENSSL_malloc heap alloc_size then None
         else Some (take sz str @ [0]))"

text \<open>
  \<open>dst\<close> is the destination array, at least \<open>dst_size\<close> bytes long; the result is its new
  contents and the returned length.
\<close>

fun OPENSSL_strlcpy :: "byte list \<Rightarrow> byte list \<Rightarrow> nat \<Rightarrow> byte list \<times> nat" where
  "OPENSSL_strlcpy dst src dst_size =
     (if dst_size > 1 \<and> src \<noteq> [] then
        (let (dst', l) = OPENSSL_strlcpy (tl dst) (tl src) (dst_size - 1)
         in (hd src # dst', Suc l))
      else (if dst_size \<noteq> 0 then 0 # tl dst else dst, length src))"

fun OPENSSL_strlcat :: "byte list \<Rightarrow> byte list \<Rightarrow> nat \<Rightarrow> byte list \<times> nat" where
  "OPENSSL_strlcat dst src dst_size =
     (if dst_size > 0 \<and> hd dst \<noteq> 0 then
        (let (dst', l) = OPENSSL_strlcat (tl dst) src (dst_size - 1)
         in (hd dst # dst', Suc l))
      else OPENSSL_strlcpy dst src dst_size)"

declare OPENSSL_strcasecmp.simps [simp del]
declare OPENSSL_strlcpy.simps [simp del]
declare OPENSSL_strlcat.simps [simp del]

subsection \<open>Correctness\<close>

lemma OPENSSL_malloc_imp_small:
  assumes "OPENSSL_malloc heap n" "n < SIZE_LIMIT"
  shows "n + OPENSSL_MALLOC_PREFIX < SIZE_LIMIT \<and> heap (n + OPENSSL_MALLOC_PREFIX)"
proof -
  have "OPENSSL_MALLOC_PREFIX < SIZE_LIMIT"
    by (simp add: OPENSSL_MALLOC_PREFIX_def SIZE_LIMIT_def)
  with assms have "n + OPENSSL_MALLOC_PREFIX < SIZE_LIMIT"
    using size_add_wraps_iff [of n OPENSSL_MALLOC_PREFIX]
    by (auto simp: OPENSSL_malloc_def split: if_splits)
  with assms show ?thesis
    by (simp add: OPENSSL_malloc_def size_add_exact split: if_splits)
qed

lemma OPENSSL_calloc_length:
  assumes "num < SIZE_LIMIT" "OPENSSL_calloc heap num sz = Some bs"
  shows "bs = replicate (num * sz) 0"
proof -
  have "num * sz < SIZE_LIMIT"
  proof (cases "sz = 0")
    case False
    with assms have "num \<le> (SIZE_LIMIT - 1) div sz"
      by (auto simp: OPENSSL_calloc_def split: if_splits)
    then have "num * sz \<le> SIZE_LIMIT - 1"
      using False by (simp add: less_eq_div_iff_mult_less_eq)
    then show ?thesis by (simp add: SIZE_LIMIT_def)
  qed (simp add: SIZE_LIMIT_def)
  with assms show ?thesis
    by (auto simp: OPENSSL_calloc_def OPENSSL_zalloc_def split: if_splits)
qed

lemma memcmp_accum:
  assumes "length a = length b"
  shows "foldl (\<lambda>x (p, q). x OR (p XOR q)) x (zip a b) = (0 :: byte) \<longleftrightarrow> x = 0 \<and> a = b"
  using assms
proof (induction a b arbitrary: x rule: list_induct2)
  case (Cons p a q b)
  have "x OR (p XOR q) = 0 \<longleftrightarrow> x = 0 \<and> p = q"
    by (auto simp: or_eq_0_iff bit_eq_iff bit_simps)
  with Cons show ?case by auto
qed simp

lemma CRYPTO_memcmp_eq_0_iff:
  "length a = length b \<Longrightarrow> CRYPTO_memcmp a b = 0 \<longleftrightarrow> a = b"
  by (simp add: CRYPTO_memcmp_def memcmp_accum)

lemma OPENSSL_strnlen_eq: "OPENSSL_strnlen s = length (takeWhile (\<lambda>c. c \<noteq> 0) s)"
  by (induction s) simp_all

lemma OPENSSL_strlcpy_eq:
  assumes "0 < dst_size" "dst_size \<le> length dst"
  shows "OPENSSL_strlcpy dst src dst_size =
    (let copied = take (dst_size - 1) src
     in (copied @ [0] @ drop (Suc (length copied)) dst, length src))"
  using assms
proof (induction dst src dst_size rule: OPENSSL_strlcpy.induct)
  case (1 dst src n)
  show ?case
  proof (cases "n > 1 \<and> src \<noteq> []")
    case True
    then obtain c cs m where "src = c # cs" "n = Suc (Suc m)"
      by (cases src; cases n; cases "n - 1") auto
    moreover obtain d ds where "dst = d # ds" using 1(3) True by (cases dst) auto
    ultimately show ?thesis
      using "1.IH" True "1.prems"
      by (simp add: OPENSSL_strlcpy.simps [of "d # ds" "c # cs" "Suc (Suc m)"] Let_def)
  next
    case False
    then show ?thesis using 1(2,3) unfolding OPENSSL_strlcpy.simps [of dst src n]
      by (cases dst) (auto simp: Let_def)
  qed
qed

lemma OPENSSL_strlcat_eq:
  assumes "length old < dst_size" "0 \<notin> set old" "dst = old @ 0 # rest" "dst_size \<le> length dst"
  shows "OPENSSL_strlcat dst src dst_size =
    (let copied = take (dst_size - length old - 1) src
     in (old @ copied @ [0] @ drop (length copied) rest, length old + length src))"
  using assms
proof (induction old arbitrary: dst dst_size)
  case Nil
  then show ?case
    by (subst OPENSSL_strlcat.simps) (simp add: OPENSSL_strlcpy_eq Let_def)
next
  case (Cons c old)
  then have "OPENSSL_strlcat (old @ 0 # rest) src (dst_size - 1) =
    (let copied = take (dst_size - 1 - length old - 1) src
     in (old @ copied @ [0] @ drop (length copied) rest, length old + length src))"
    by (intro Cons.IH) auto
  with Cons.prems show ?case
    by (subst OPENSSL_strlcat.simps) (auto simp: Let_def)
qed

lemma tolower_eq_0_iff [simp]: "OPENSSL_tolower c = 0 \<longleftrightarrow> c = 0"
  by (simp add: OPENSSL_tolower_def)

lemma tolower_0 [simp]: "OPENSSL_tolower 0 = 0"
  by simp

lemma sint_byte_eq_0_iff [simp]: "sint (c :: byte) = 0 \<longleftrightarrow> c = 0"
  by (metis signed_0 signed_word_eqI)

lemma OPENSSL_strcasecmp_eq_0_iff:
  assumes "0 \<notin> set a" "0 \<notin> set b"
  shows "OPENSSL_strcasecmp a b = 0 \<longleftrightarrow>
    map (\<lambda>c. OPENSSL_tolower (sint c)) a = map (\<lambda>c. OPENSSL_tolower (sint c)) b"
  using assms
proof (induction a b rule: OPENSSL_strcasecmp.induct)
  case (1 a b)
  have step: "OPENSSL_strcasecmp (tl a) (tl b) = 0 \<longleftrightarrow>
      map (\<lambda>c. OPENSSL_tolower (sint c)) (tl a) = map (\<lambda>c. OPENSSL_tolower (sint c)) (tl b)"
    if "OPENSSL_tolower (cstr_hd a) = OPENSSL_tolower (cstr_hd b)" "cstr_hd a \<noteq> 0"
  proof -
    have "OPENSSL_tolower (cstr_hd b) \<noteq> 0" using that by (metis tolower_eq_0_iff)
    moreover have "0 \<notin> set (tl a)" "0 \<notin> set (tl b)"
      using "1.prems" by (cases a; cases b; simp)+
    ultimately show ?thesis using "1.IH" that by simp
  qed
  show ?case
    unfolding OPENSSL_strcasecmp.simps [of a b] using step "1.prems"
    by (cases a; cases b) (auto simp: cstr_hd_def Let_def dest: sym [of 0])
qed

end
