(* ===== verification/Constant_Time.thy ===== *)
theory Constant_Time
  imports Prelude
begin

unbundle bit_operations_syntax

text \<open>
  The constant-time helpers of \<^verbatim>\<open>crypto/internal.h\<close> (masks, comparisons, selection,
  conditional copies, additions with carry) on the 64-bit \<^verbatim>\<open>crypto_word_t\<close>. The value
  barriers return their argument, so they do not appear. The lemmas say that each
  branch-free formula computes the comparison, selection or carry it stands for.
\<close>

type_synonym crypto_word_t = uint64

named_theorems ct_simps \<open>constant-time operations as the conditionals they stand for\<close>

subsection \<open>Masks and comparisons\<close>

definition CONSTTIME_TRUE_W :: crypto_word_t where
  "CONSTTIME_TRUE_W = NOT 0"

definition CONSTTIME_FALSE_W :: crypto_word_t where
  "CONSTTIME_FALSE_W = 0"

definition CONSTTIME_TRUE_8 :: byte where
  "CONSTTIME_TRUE_8 = 0xff"

definition CONSTTIME_FALSE_8 :: byte where
  "CONSTTIME_FALSE_8 = 0"

definition constant_time_msb_w :: "crypto_word_t \<Rightarrow> crypto_word_t" where
  "constant_time_msb_w a = 0 - drop_bit 63 a"

definition constant_time_lt_w :: "crypto_word_t \<Rightarrow> crypto_word_t \<Rightarrow> crypto_word_t" where
  "constant_time_lt_w a b = constant_time_msb_w (a XOR ((a XOR b) OR ((a - b) XOR a)))"

definition constant_time_lt_8 :: "crypto_word_t \<Rightarrow> crypto_word_t \<Rightarrow> byte" where
  "constant_time_lt_8 a b = ucast (constant_time_lt_w a b)"

definition constant_time_ge_w :: "crypto_word_t \<Rightarrow> crypto_word_t \<Rightarrow> crypto_word_t" where
  "constant_time_ge_w a b = NOT (constant_time_lt_w a b)"

definition constant_time_ge_8 :: "crypto_word_t \<Rightarrow> crypto_word_t \<Rightarrow> byte" where
  "constant_time_ge_8 a b = ucast (constant_time_ge_w a b)"

definition constant_time_is_zero_w :: "crypto_word_t \<Rightarrow> crypto_word_t" where
  "constant_time_is_zero_w a = constant_time_msb_w (NOT a AND (a - 1))"

definition constant_time_is_zero_8 :: "crypto_word_t \<Rightarrow> byte" where
  "constant_time_is_zero_8 a = ucast (constant_time_is_zero_w a)"

definition constant_time_eq_w :: "crypto_word_t \<Rightarrow> crypto_word_t \<Rightarrow> crypto_word_t" where
  "constant_time_eq_w a b = constant_time_is_zero_w (a XOR b)"

definition constant_time_eq_8 :: "crypto_word_t \<Rightarrow> crypto_word_t \<Rightarrow> byte" where
  "constant_time_eq_8 a b = ucast (constant_time_eq_w a b)"

text \<open>An \<^verbatim>\<open>int\<close> argument is a 32-bit word; the conversion to \<^verbatim>\<open>crypto_word_t\<close> sign-extends.\<close>

definition constant_time_eq_int :: "uint32 \<Rightarrow> uint32 \<Rightarrow> crypto_word_t" where
  "constant_time_eq_int a b = constant_time_eq_w (scast a) (scast b)"

definition constant_time_eq_int_8 :: "uint32 \<Rightarrow> uint32 \<Rightarrow> byte" where
  "constant_time_eq_int_8 a b = constant_time_eq_8 (scast a) (scast b)"

definition constant_time_select_w ::
    "crypto_word_t \<Rightarrow> crypto_word_t \<Rightarrow> crypto_word_t \<Rightarrow> crypto_word_t" where
  "constant_time_select_w msk a b = (msk AND a) OR (NOT msk AND b)"

definition constant_time_select_8 :: "crypto_word_t \<Rightarrow> byte \<Rightarrow> byte \<Rightarrow> byte" where
  "constant_time_select_8 msk a b = (let m = ucast msk in (m AND a) OR (NOT m AND b))"

definition constant_time_select_int :: "crypto_word_t \<Rightarrow> uint32 \<Rightarrow> uint32 \<Rightarrow> uint32" where
  "constant_time_select_int msk a b =
     ucast (constant_time_select_w msk (scast a) (scast b))"

definition constant_time_select_32 :: "crypto_word_t \<Rightarrow> uint32 \<Rightarrow> uint32 \<Rightarrow> uint32" where
  "constant_time_select_32 msk a b =
     ucast (constant_time_select_w msk (ucast a) (ucast b))"

text \<open>
  The two memory operations take the \<open>n\<close>-byte ranges at \<^verbatim>\<open>dst\<close> and \<^verbatim>\<open>src\<close> and give the
  new contents of \<^verbatim>\<open>dst\<close>; the ranges do not overlap.
\<close>

definition constant_time_conditional_memcpy ::
    "byte list \<Rightarrow> byte list \<Rightarrow> crypto_word_t \<Rightarrow> byte list" where
  "constant_time_conditional_memcpy dst src msk =
     map2 (\<lambda>d s. constant_time_select_8 msk s d) dst src"

definition constant_time_conditional_memxor ::
    "byte list \<Rightarrow> byte list \<Rightarrow> crypto_word_t \<Rightarrow> byte list" where
  "constant_time_conditional_memxor dst src msk =
     map2 (\<lambda>d s. d XOR ucast (msk AND ucast s)) dst src"

subsection \<open>Addition and subtraction with carry\<close>

definition CRYPTO_addc_u32 :: "uint32 \<Rightarrow> uint32 \<Rightarrow> uint32 \<Rightarrow> uint32 \<times> uint32" where
  "CRYPTO_addc_u32 x y carry =
     (let ret = (ucast carry :: uint64) + (ucast x + ucast y)
      in (ucast ret, ucast (drop_bit 32 ret)))"

definition CRYPTO_addc_u64 :: "uint64 \<Rightarrow> uint64 \<Rightarrow> uint64 \<Rightarrow> uint64 \<times> uint64" where
  "CRYPTO_addc_u64 x y carry =
     (let x' = x + carry;
          carry1 = (if x' < carry then 1 else 0);
          ret = x' + y;
          carry2 = carry1 + (if ret < x' then 1 else 0)
      in (ret, carry2))"

definition CRYPTO_subc_u32 :: "uint32 \<Rightarrow> uint32 \<Rightarrow> uint32 \<Rightarrow> uint32 \<times> uint32" where
  "CRYPTO_subc_u32 x y borrow =
     (x - y - borrow,
      (if x < y then 1 else 0) OR ((if x = y then 1 else 0) AND borrow))"

definition CRYPTO_subc_u64 :: "uint64 \<Rightarrow> uint64 \<Rightarrow> uint64 \<Rightarrow> uint64 \<times> uint64" where
  "CRYPTO_subc_u64 x y borrow =
     (x - y - borrow,
      (if x < y then 1 else 0) OR ((if x = y then 1 else 0) AND borrow))"

subsection \<open>Correctness\<close>

lemma bit_63_iff: "bit (w :: uint64) 63 \<longleftrightarrow> 2 ^ 63 \<le> uint w"
proof -
  have "bit w 63 \<longleftrightarrow> bit (uint w) 63"
    by (simp add: bit_uint_iff)
  also have "\<dots> \<longleftrightarrow> odd (uint w div 2 ^ 63)"
    by (simp add: bit_iff_odd)
  also have "\<dots> \<longleftrightarrow> 2 ^ 63 \<le> uint w"
  proof -
    have "uint w div 2 ^ 63 = (if 2 ^ 63 \<le> uint w then 1 else 0)"
      using uint_lt2p [of w] uint_ge_0 [of w] by simp linarith
    then show ?thesis by simp
  qed
  finally show ?thesis .
qed

lemma constant_time_msb_w_eq [ct_simps]:
  "constant_time_msb_w a = (if bit a 63 then CONSTTIME_TRUE_W else CONSTTIME_FALSE_W)"
proof -
  have "drop_bit 63 a = (if bit a 63 then 1 else 0)"
  proof (rule bit_word_eqI)
    fix n assume "n < LENGTH(64)"
    show "bit (drop_bit 63 a) n = bit (if bit a 63 then 1 else 0 :: uint64) n"
    proof (cases n)
      case (Suc m)
      then have "\<not> bit a (63 + n)" by (auto dest: bit_imp_le_length)
      with Suc show ?thesis by (simp add: bit_simps bit_1_iff)
    qed (simp add: bit_simps)
  qed
  then show ?thesis
    by (simp add: constant_time_msb_w_def CONSTTIME_TRUE_W_def CONSTTIME_FALSE_W_def)
qed

lemma constant_time_lt_w_eq [ct_simps]:
  "constant_time_lt_w a b = (if a < b then CONSTTIME_TRUE_W else CONSTTIME_FALSE_W)"
proof -
  have "bit (a XOR ((a XOR b) OR ((a - b) XOR a))) 63 \<longleftrightarrow>
      (if bit a 63 = bit b 63 then bit (a - b) 63 else bit b 63)"
    by (auto simp: bit_simps)
  also have "\<dots> \<longleftrightarrow> a < b"
  proof -
    define x y where "x = uint a" and "y = uint b"
    then have "0 \<le> x" "0 \<le> y" "x < 2 ^ 64" "y < 2 ^ 64"
      using uint_lt2p [of a] uint_lt2p [of b] by simp_all
    then show ?thesis
      by (auto simp: bit_63_iff word_less_def uint_sub_if' simp flip: x_def y_def)
  qed
  finally show ?thesis
    by (simp add: constant_time_lt_w_def constant_time_msb_w_eq)
qed

lemma constant_time_ge_w_eq [ct_simps]:
  "constant_time_ge_w a b = (if b \<le> a then CONSTTIME_TRUE_W else CONSTTIME_FALSE_W)"
  by (auto simp: constant_time_ge_w_def constant_time_lt_w_eq
      CONSTTIME_TRUE_W_def CONSTTIME_FALSE_W_def)

lemma constant_time_is_zero_w_eq [ct_simps]:
  "constant_time_is_zero_w a = (if a = 0 then CONSTTIME_TRUE_W else CONSTTIME_FALSE_W)"
proof -
  have "bit (NOT a AND (a - 1)) 63 \<longleftrightarrow> \<not> bit a 63 \<and> bit (a - 1) 63"
    by (simp add: bit_simps)
  also have "\<dots> \<longleftrightarrow> uint a = 0"
  proof -
    define x where "x = uint a"
    then have "0 \<le> x" "x < 2 ^ 64"
      using uint_lt2p [of a] by simp_all
    then show ?thesis
      by (auto simp: bit_63_iff uint_sub_if' simp flip: x_def)
  qed
  finally show ?thesis
    by (simp add: constant_time_is_zero_w_def constant_time_msb_w_eq uint_0_iff)
qed

lemma constant_time_eq_w_eq [ct_simps]:
  "constant_time_eq_w a b = (if a = b then CONSTTIME_TRUE_W else CONSTTIME_FALSE_W)"
proof -
  have "a XOR b = 0 \<longleftrightarrow> a = b"
    by (auto simp: bit_eq_iff bit_simps)
  then show ?thesis
    by (simp add: constant_time_eq_w_def constant_time_is_zero_w_eq)
qed

lemma ucast_masks [ct_simps]:
  "ucast CONSTTIME_TRUE_W = CONSTTIME_TRUE_8" "ucast CONSTTIME_FALSE_W = CONSTTIME_FALSE_8"
  by (simp_all add: CONSTTIME_TRUE_W_def CONSTTIME_FALSE_W_def
      CONSTTIME_TRUE_8_def CONSTTIME_FALSE_8_def unsigned_minus_1_eq_mask mask_eq_exp_minus_1)

lemma constant_time_select_w_eq [ct_simps]:
  "constant_time_select_w CONSTTIME_TRUE_W a b = a"
  "constant_time_select_w CONSTTIME_FALSE_W a b = b"
  by (simp_all add: constant_time_select_w_def CONSTTIME_TRUE_W_def CONSTTIME_FALSE_W_def)

lemma constant_time_select_8_eq [ct_simps]:
  "constant_time_select_8 CONSTTIME_TRUE_W a b = a"
  "constant_time_select_8 CONSTTIME_FALSE_W a b = b"
proof -
  have m: "CONSTTIME_TRUE_8 = NOT 0" by (simp add: CONSTTIME_TRUE_8_def)
  show "constant_time_select_8 CONSTTIME_TRUE_W a b = a"
    by (simp add: constant_time_select_8_def ucast_masks m)
  show "constant_time_select_8 CONSTTIME_FALSE_W a b = b"
    by (simp add: constant_time_select_8_def ucast_masks CONSTTIME_FALSE_8_def)
qed

lemma ucast_scast_32: "ucast (scast (a :: uint32) :: uint64) = a"
  by (rule bit_word_eqI) (auto simp: bit_simps)

lemma scast_inj_32: "scast (a :: uint32) = (scast b :: uint64) \<longleftrightarrow> a = b"
  by (metis ucast_scast_32)

lemma constant_time_select_int_eq [ct_simps]:
  "constant_time_select_int CONSTTIME_TRUE_W a b = a"
  "constant_time_select_int CONSTTIME_FALSE_W a b = b"
  by (simp_all add: constant_time_select_int_def constant_time_select_w_eq ucast_scast_32)

lemma ucast_ucast_32: "ucast (ucast (a :: uint32) :: uint64) = a"
  by (rule bit_word_eqI) (auto simp: bit_simps)

lemma constant_time_select_32_eq [ct_simps]:
  "constant_time_select_32 CONSTTIME_TRUE_W a b = a"
  "constant_time_select_32 CONSTTIME_FALSE_W a b = b"
  by (simp_all add: constant_time_select_32_def constant_time_select_w_eq ucast_ucast_32)

lemma constant_time_conditional_memcpy_eq [ct_simps]:
  assumes "length src = length dst"
  shows "constant_time_conditional_memcpy dst src CONSTTIME_TRUE_W = src"
    and "constant_time_conditional_memcpy dst src CONSTTIME_FALSE_W = dst"
  using assms
  by (simp_all add: constant_time_conditional_memcpy_def constant_time_select_8_eq
      list_eq_iff_nth_eq)

lemma CRYPTO_addc_u32_sum:
  assumes "carry \<le> 1" and "CRYPTO_addc_u32 x y carry = (r, c)"
  shows "uint r + 2 ^ 32 * uint c = uint x + uint y + uint carry \<and> c \<le> 1"
proof -
  define s where "s = uint x + uint y + uint carry"
  have c: "uint carry \<le> 1" using assms(1) by (simp add: word_le_def)
  have s: "0 \<le> s" "s < 2 ^ 33"
    using c uint_lt2p [of x] uint_lt2p [of y] by (simp_all add: s_def)
  have u: "uint (ucast w :: uint64) = uint w" for w :: uint32
    by (rule uint_up_ucast) (simp add: is_up)
  have "uint ((ucast carry :: uint64) + (ucast x + ucast y)) = s mod 2 ^ 64"
    by (simp add: s_def uint_word_ariths u mod_simps ac_simps)
  then have "uint ((ucast carry :: uint64) + (ucast x + ucast y)) = s"
    using s by simp
  then have "uint r = s mod 2 ^ 32" "uint c = s div 2 ^ 32 mod 2 ^ 32"
    using assms(2)
    by (auto simp: CRYPTO_addc_u32_def Let_def unsigned_ucast_eq unsigned_drop_bit_eq
        take_bit_eq_mod drop_bit_eq_div uint_div)
  moreover have "s div 2 ^ 32 mod 2 ^ 32 = s div 2 ^ 32"
    using s by simp
  ultimately show ?thesis using s by (simp add: s_def word_le_def)
qed

lemma CRYPTO_addc_u64_sum:
  assumes "carry \<le> 1" and "CRYPTO_addc_u64 x y carry = (r, c)"
  shows "uint r + 2 ^ 64 * uint c = uint x + uint y + uint carry \<and> c \<le> 1"
proof -
  define a b k where "a = uint x" and "b = uint y" and "k = uint carry"
  have k: "0 \<le> k" "k \<le> 1" using assms(1) by (simp_all add: word_le_def k_def)
  have ab: "0 \<le> a" "0 \<le> b" "a < 2 ^ 64" "b < 2 ^ 64"
    using uint_lt2p [of x] uint_lt2p [of y] by (simp_all add: a_def b_def)
  have r: "r = x + carry + y"
    and c: "c = (if x + carry < carry then 1 else 0)
      + (if x + carry + y < x + carry then 1 else 0)"
    using assms(2) by (auto simp: CRYPTO_addc_u64_def Let_def)
  show ?thesis
    unfolding r c using k ab
    by (auto simp: word_less_def uint_plus_if' word_le_def simp flip: a_def b_def k_def)
qed

lemma word_le_1_cases: "(w :: 'a::len word) \<le> 1 \<Longrightarrow> w = 0 \<or> w = 1"
  by (metis word_less_1 order_le_less)

lemma subc_exact:
  fixes x y borrow :: "'a::len word"
  assumes "borrow \<le> 1"
    and "b = (if x < y then 1 else 0) OR ((if x = y then 1 else 0) AND borrow)"
  shows "uint (x - y - borrow) - 2 ^ LENGTH('a) * uint b = uint x - uint y - uint borrow \<and> b \<le> 1"
proof -
  have borrow: "borrow = 0 \<or> borrow = 1"
    using assms(1) by (rule word_le_1_cases)
  then have b: "b = (if uint x < uint y + uint borrow then 1 else 0)"
    using assms(2)
    by (elim disjE; hypsubst) (auto simp: word_less_def word_uint_eq_iff [of x y])
  have "uint (x - y - borrow) = (uint x - uint y - uint borrow) mod 2 ^ LENGTH('a)"
    by (simp add: uint_word_ariths mod_simps)
  also have "\<dots> = uint x - uint y - uint borrow + 2 ^ LENGTH('a) * uint b"
  proof (cases "uint x < uint y + uint borrow")
    case True
    have "(uint x - uint y - uint borrow) mod 2 ^ LENGTH('a)
        = (uint x - uint y - uint borrow + 2 ^ LENGTH('a)) mod 2 ^ LENGTH('a)"
      by simp
    also have "\<dots> = uint x - uint y - uint borrow + 2 ^ LENGTH('a)"
    proof (rule mod_pos_pos_trivial)
      have "uint borrow \<le> 1" using borrow by auto
      then show "0 \<le> uint x - uint y - uint borrow + 2 ^ LENGTH('a)"
        using uint_lt2p [of y] uint_ge_0 [of x] by linarith
    qed (use True in linarith)
    finally show ?thesis using True by (simp add: b)
  next
    case False
    have "(uint x - uint y - uint borrow) mod 2 ^ LENGTH('a) = uint x - uint y - uint borrow"
      by (rule mod_pos_pos_trivial)
         (use False uint_lt2p [of x] uint_ge_0 [of y] uint_ge_0 [of borrow] in linarith)+
    with False show ?thesis by (simp add: b)
  qed
  finally show ?thesis by (simp add: b)
qed

lemma CRYPTO_subc_u64_diff:
  assumes "borrow \<le> 1" and "CRYPTO_subc_u64 x y borrow = (r, b)"
  shows "uint r - 2 ^ 64 * uint b = uint x - uint y - uint borrow \<and> b \<le> 1"
  using subc_exact [OF assms(1), of b x y] assms(2) by (simp add: CRYPTO_subc_u64_def)

lemma CRYPTO_subc_u32_diff:
  assumes "borrow \<le> 1" and "CRYPTO_subc_u32 x y borrow = (r, b)"
  shows "uint r - 2 ^ 32 * uint b = uint x - uint y - uint borrow \<and> b \<le> 1"
  using subc_exact [OF assms(1), of b x y] assms(2) by (simp add: CRYPTO_subc_u32_def)

end
