(* ===== verification/Cbs.thy ===== *)
theory Cbs
  imports Endian Mem
begin

unbundle bit_operations_syntax

text \<open>
  The byte-string reader of \<^verbatim>\<open>crypto/bytestring/cbs.cc\<close>, up to the decimal reader. A
  \<open>cbs\<close> is the list of unread bytes; every operation returns its output, \<open>None\<close> where the
  source returns zero, and the reader it leaves behind. The lemmas characterise each
  reader exactly: when it succeeds, with which value, and what is left unread.
\<close>

type_synonym cbs = "byte list"
type_synonym 'a reader = "cbs \<Rightarrow> 'a option \<times> cbs"

subsection \<open>The operations\<close>

definition cbs_get :: "cbs \<Rightarrow> nat \<Rightarrow> byte list option \<times> cbs" where
  "cbs_get cbs n = (if length cbs < n then (None, cbs) else (Some (take n cbs), drop n cbs))"

definition CBS_skip :: "cbs \<Rightarrow> nat \<Rightarrow> unit option \<times> cbs" where
  "CBS_skip cbs len = on_read (cbs_get cbs len) (\<lambda>_ cbs. (Some (), cbs))"

text \<open>The new values of \<^verbatim>\<open>*out_ptr\<close> and the return value.\<close>

definition CBS_stow :: "heap \<Rightarrow> cbs \<Rightarrow> byte list option \<times> bool" where
  "CBS_stow heap cbs =
     (if length cbs = 0 then (None, True)
      else (case OPENSSL_memdup heap cbs of
          None \<Rightarrow> (None, False)
        | Some p \<Rightarrow> (Some p, True)))"

definition CBS_strdup :: "heap \<Rightarrow> cbs \<Rightarrow> byte list option" where
  "CBS_strdup heap cbs = OPENSSL_strndup heap cbs"

definition CBS_contains_zero_byte :: "cbs \<Rightarrow> bool" where
  "CBS_contains_zero_byte cbs = (0 \<in> set cbs)"

definition CBS_mem_equal :: "cbs \<Rightarrow> byte list \<Rightarrow> bool" where
  "CBS_mem_equal cbs data =
     (if length data \<noteq> length cbs then False else CRYPTO_memcmp cbs data = 0)"

definition cbs_get_u :: "cbs \<Rightarrow> nat \<Rightarrow> uint64 option \<times> cbs" where
  "cbs_get_u cbs len = on_read (cbs_get cbs len) (\<lambda>data cbs. (Some (foldl shift_in 0 data), cbs))"

definition CBS_get_u8 :: "byte reader" where
  "CBS_get_u8 cbs = on_read (cbs_get cbs 1) (\<lambda>v cbs. (Some (v ! 0), cbs))"

definition CBS_get_u16 :: "uint16 reader" where
  "CBS_get_u16 cbs = on_read (cbs_get_u cbs 2) (\<lambda>v cbs. (Some (ucast v), cbs))"

definition CBS_get_u16le :: "uint16 reader" where
  "CBS_get_u16le cbs = on_read (CBS_get_u16 cbs) (\<lambda>v cbs. (Some (CRYPTO_bswap2 v), cbs))"

definition CBS_get_u24 :: "uint32 reader" where
  "CBS_get_u24 cbs = on_read (cbs_get_u cbs 3) (\<lambda>v cbs. (Some (ucast v), cbs))"

definition CBS_get_u32 :: "uint32 reader" where
  "CBS_get_u32 cbs = on_read (cbs_get_u cbs 4) (\<lambda>v cbs. (Some (ucast v), cbs))"

definition CBS_get_u32le :: "uint32 reader" where
  "CBS_get_u32le cbs = on_read (CBS_get_u32 cbs) (\<lambda>v cbs. (Some (CRYPTO_bswap4 v), cbs))"

definition CBS_get_u48 :: "uint64 reader" where
  "CBS_get_u48 cbs = cbs_get_u cbs 6"

definition CBS_get_u64 :: "uint64 reader" where
  "CBS_get_u64 cbs = cbs_get_u cbs 8"

definition CBS_get_u64le :: "uint64 reader" where
  "CBS_get_u64le cbs = on_read (cbs_get_u cbs 8) (\<lambda>v cbs. (Some (CRYPTO_bswap8 v), cbs))"

definition CBS_get_last_u8 :: "byte reader" where
  "CBS_get_last_u8 cbs =
     (if length cbs = 0 then (None, cbs)
      else (Some (cbs ! (length cbs - 1)), take (length cbs - 1) cbs))"

definition CBS_get_bytes :: "cbs \<Rightarrow> nat \<Rightarrow> cbs option \<times> cbs" where
  "CBS_get_bytes cbs len = on_read (cbs_get cbs len) (\<lambda>v cbs. (Some v, cbs))"

text \<open>\<open>out\<close> is the destination array of at least \<open>len\<close> bytes; the result is its new contents.\<close>

definition CBS_copy_bytes :: "cbs \<Rightarrow> byte list \<Rightarrow> nat \<Rightarrow> byte list option \<times> cbs" where
  "CBS_copy_bytes cbs out len =
     on_read (cbs_get cbs len) (\<lambda>v cbs. (Some (v @ drop len out), cbs))"

definition cbs_get_length_prefixed :: "cbs \<Rightarrow> nat \<Rightarrow> cbs option \<times> cbs" where
  "cbs_get_length_prefixed cbs len_len =
     on_read (cbs_get_u cbs len_len) (\<lambda>len cbs. CBS_get_bytes cbs (unat len))"

definition CBS_get_u8_length_prefixed :: "cbs reader" where
  "CBS_get_u8_length_prefixed cbs = cbs_get_length_prefixed cbs 1"

definition CBS_get_u16_length_prefixed :: "cbs reader" where
  "CBS_get_u16_length_prefixed cbs = cbs_get_length_prefixed cbs 2"

definition CBS_get_u24_length_prefixed :: "cbs reader" where
  "CBS_get_u24_length_prefixed cbs = cbs_get_length_prefixed cbs 3"

text \<open>\<^verbatim>\<open>memchr\<close> over the unread bytes, as the position of the first match.\<close>

fun memchr_pos :: "byte list \<Rightarrow> byte \<Rightarrow> nat option" where
  "memchr_pos [] c = None"
| "memchr_pos (b # bs) c = (if b = c then Some 0 else map_option Suc (memchr_pos bs c))"

definition CBS_get_until_first :: "cbs \<Rightarrow> byte \<Rightarrow> cbs option \<times> cbs" where
  "CBS_get_until_first cbs c =
     (case memchr_pos cbs c of
        None \<Rightarrow> (None, cbs)
      | Some split \<Rightarrow> CBS_get_bytes cbs split)"

text \<open>
  \<^verbatim>\<open>strchr\<close>, whose search includes the terminator; \<open>chars\<close> are the characters before it.
\<close>

definition strchr :: "byte list \<Rightarrow> byte \<Rightarrow> bool" where
  "strchr chars c = (c = 0 \<or> c \<in> set chars)"

text \<open>The scanning loops: the position at which they stop.\<close>

fun until_first_of_pos :: "byte list \<Rightarrow> byte list \<Rightarrow> nat" where
  "until_first_of_pos chars [] = 0"
| "until_first_of_pos chars (c # cs) =
     (if c = 0 \<or> \<not> strchr chars c then Suc (until_first_of_pos chars cs) else 0)"

definition CBS_get_until_first_of :: "cbs \<Rightarrow> byte list \<Rightarrow> cbs option \<times> cbs" where
  "CBS_get_until_first_of cbs chars =
     (let pos = until_first_of_pos chars cbs
      in if pos = length cbs then (None, cbs) else CBS_get_bytes cbs pos)"

fun until_first_not_of_pos :: "byte list \<Rightarrow> byte list \<Rightarrow> nat" where
  "until_first_not_of_pos chars [] = 0"
| "until_first_not_of_pos chars (c # cs) =
     (if c \<noteq> 0 \<and> strchr chars c then Suc (until_first_not_of_pos chars cs) else 0)"

definition CBS_get_until_first_not_of :: "cbs \<Rightarrow> byte list \<Rightarrow> cbs option \<times> cbs" where
  "CBS_get_until_first_not_of cbs chars =
     (let pos = until_first_not_of_pos chars cbs
      in if pos = length cbs then (None, cbs) else CBS_get_bytes cbs pos)"

text \<open>The loop of \<^verbatim>\<open>CBS_get_u64_decimal\<close>: \<open>v\<close> and \<open>seen_digit\<close> are its local variables.\<close>

fun u64_decimal_loop :: "uint64 \<Rightarrow> bool \<Rightarrow> uint64 reader" where
  "u64_decimal_loop v seen_digit [] = (if seen_digit then Some v else None, [])"
| "u64_decimal_loop v seen_digit (c # cs) =
     (if \<not> OPENSSL_isdigit (uint c) then (if seen_digit then Some v else None, c # cs)
      else if (v = 0 \<and> seen_digit) \<or> (-1) div 10 < v \<or> (-1) - of_int (uint c - 48) < v * 10
      then (None, cs)
      else u64_decimal_loop (v * 10 + of_int (uint c - 48)) True cs)"

definition CBS_get_u64_decimal :: "uint64 reader" where
  "CBS_get_u64_decimal cbs = u64_decimal_loop 0 False cbs"

subsection \<open>Raw bytes and fixed-width integers\<close>

lemma cbs_get_Some_iff [reader_simps]:
  "cbs_get s n = (Some p, r) \<longleftrightarrow> s = p @ r \<and> length p = n"
  by (auto simp: cbs_get_def append_eq_conv_conj)

lemma cbs_get_append [simp]: "length p = n \<Longrightarrow> cbs_get (p @ r) n = (Some p, r)"
  by (simp add: cbs_get_def)

lemma cbs_get_None_iff: "fst (cbs_get s n) = None \<longleftrightarrow> length s < n"
  by (simp add: cbs_get_def)

lemma cbs_get_short: "length s < n \<Longrightarrow> cbs_get s n = (None, s)"
  by (simp add: cbs_get_def)

lemma CBS_get_bytes_eq [simp]: "CBS_get_bytes s n = cbs_get s n"
  by (auto simp: CBS_get_bytes_def on_read_def split: prod.splits option.splits)

lemma cbs_get_u_append [simp]:
  "length p = n \<Longrightarrow> cbs_get_u (p @ r) n = (Some (of_nat (be_nat p)), r)"
  by (simp add: cbs_get_u_def foldl_shift_in)

lemma cbs_get_u_Some_iff [reader_simps]:
  "cbs_get_u s n = (Some v, r) \<longleftrightarrow> (\<exists>p. s = p @ r \<and> length p = n \<and> v = of_nat (be_nat p))"
  by (auto simp: cbs_get_u_def on_read_Some_iff cbs_get_Some_iff foldl_shift_in)

lemma cbs_get_u_short: "length s < n \<Longrightarrow> cbs_get_u s n = (None, s)"
  by (simp add: cbs_get_u_def cbs_get_short)

lemma be_nat_small: "length p \<le> 8 \<Longrightarrow> be_nat p < 2 ^ 64"
proof -
  assume "length p \<le> 8"
  then have "(256::nat) ^ length p \<le> 256 ^ 8"
    by (intro power_increasing) simp_all
  then show ?thesis using be_nat_bound [of p] by simp
qed

lemma unat_of_be_nat [simp]: "length p \<le> 8 \<Longrightarrow> unat (of_nat (be_nat p) :: uint64) = be_nat p"
  using be_nat_small [of p] by (simp add: unat_of_nat take_bit_nat_eq_self)

lemma CBS_get_u8_Cons [simp]: "CBS_get_u8 (b # r) = (Some b, r)"
  using cbs_get_append [of "[b]" 1 r] by (simp add: CBS_get_u8_def)

lemma CBS_get_u8_Nil [simp]: "CBS_get_u8 [] = (None, [])"
  by (simp add: CBS_get_u8_def cbs_get_def)

lemma CBS_get_u8_Some_iff [reader_simps]: "CBS_get_u8 s = (Some b, r) \<longleftrightarrow> s = b # r"
  by (cases s) auto

lemma ucast_of_nat_down:
  "LENGTH('a::len) \<le> 64 \<Longrightarrow> ucast (of_nat n :: uint64) = (of_nat n :: 'a word)"
  by (rule bit_word_eqI) (simp add: bit_simps)

lemma CBS_get_u16_Some_iff [reader_simps]:
  "CBS_get_u16 s = (Some v, r) \<longleftrightarrow> (\<exists>p. s = p @ r \<and> length p = 2 \<and> v = of_nat (be_nat p))"
  by (auto simp: CBS_get_u16_def on_read_Some_iff cbs_get_u_Some_iff ucast_of_nat_down)

lemma CBS_get_u24_Some_iff [reader_simps]:
  "CBS_get_u24 s = (Some v, r) \<longleftrightarrow> (\<exists>p. s = p @ r \<and> length p = 3 \<and> v = of_nat (be_nat p))"
  by (auto simp: CBS_get_u24_def on_read_Some_iff cbs_get_u_Some_iff ucast_of_nat_down)

lemma CBS_get_u32_Some_iff [reader_simps]:
  "CBS_get_u32 s = (Some v, r) \<longleftrightarrow> (\<exists>p. s = p @ r \<and> length p = 4 \<and> v = of_nat (be_nat p))"
  by (auto simp: CBS_get_u32_def on_read_Some_iff cbs_get_u_Some_iff ucast_of_nat_down)

text \<open>The little-endian readers compose the big-endian ones with a byte swap.\<close>

lemma CBS_get_u16le_Some_iff [reader_simps]:
  "CBS_get_u16le s = (Some v, r) \<longleftrightarrow>
     (\<exists>p. s = p @ r \<and> length p = 2 \<and> v = of_nat (be_nat (rev p)))"
  by (auto simp: CBS_get_u16le_def on_read_Some_iff CBS_get_u16_Some_iff bswap_be_nat)

lemma CBS_get_u32le_Some_iff [reader_simps]:
  "CBS_get_u32le s = (Some v, r) \<longleftrightarrow>
     (\<exists>p. s = p @ r \<and> length p = 4 \<and> v = of_nat (be_nat (rev p)))"
  by (auto simp: CBS_get_u32le_def on_read_Some_iff CBS_get_u32_Some_iff bswap_be_nat)

lemma CBS_get_u64le_Some_iff [reader_simps]:
  "CBS_get_u64le s = (Some v, r) \<longleftrightarrow>
     (\<exists>p. s = p @ r \<and> length p = 8 \<and> v = of_nat (be_nat (rev p)))"
  by (auto simp: CBS_get_u64le_def on_read_Some_iff cbs_get_u_Some_iff bswap_be_nat)

lemma CBS_get_last_u8_snoc [simp]: "CBS_get_last_u8 (s @ [b]) = (Some b, s)"
  by (simp add: CBS_get_last_u8_def nth_append)

lemma CBS_get_last_u8_Some_iff [reader_simps]:
  "CBS_get_last_u8 s = (Some b, r) \<longleftrightarrow> s = r @ [b]"
proof (cases s rule: rev_cases)
  case Nil
  then show ?thesis by (simp add: CBS_get_last_u8_def)
qed auto

lemma CBS_mem_equal_iff: "CBS_mem_equal s data \<longleftrightarrow> s = data"
  by (auto simp: CBS_mem_equal_def CRYPTO_memcmp_eq_0_iff)

subsection \<open>Length-prefixed strings\<close>

lemma cbs_get_length_prefixed_Some_iff [reader_simps]:
  assumes "k \<le> 8"
  shows "cbs_get_length_prefixed s k = (Some out, r) \<longleftrightarrow>
    (\<exists>p. s = p @ out @ r \<and> length p = k \<and> be_nat p = length out)"
proof -
  have "cbs_get_length_prefixed s k = (Some out, r) \<longleftrightarrow>
    (\<exists>p t. s = p @ t \<and> length p = k \<and>
       cbs_get t (unat (of_nat (be_nat p) :: uint64)) = (Some out, r))"
    by (auto simp: cbs_get_length_prefixed_def on_read_Some_iff cbs_get_u_Some_iff)
  also have "\<dots> \<longleftrightarrow>
    (\<exists>p t. s = p @ t \<and> length p = k \<and> cbs_get t (be_nat p) = (Some out, r))"
    using assms by (simp cong: conj_cong)
  finally show ?thesis by (auto simp: cbs_get_Some_iff)
qed

subsection \<open>Searching\<close>

lemma memchr_pos_eq:
  "memchr_pos s c = (if c \<in> set s then Some (length (takeWhile (\<lambda>b. b \<noteq> c) s)) else None)"
  by (induction s) auto

lemma cbs_get_takeWhile:
  "cbs_get s (length (takeWhile P s)) = (Some (takeWhile P s), dropWhile P s)"
  by (simp add: cbs_get_Some_iff)

lemma CBS_get_until_first_eq:
  "CBS_get_until_first s c =
     (if c \<in> set s then (Some (takeWhile (\<lambda>b. b \<noteq> c) s), dropWhile (\<lambda>b. b \<noteq> c) s) else (None, s))"
  by (simp add: CBS_get_until_first_def memchr_pos_eq cbs_get_takeWhile)

lemma until_first_of_pos_eq:
  "until_first_of_pos chars s = length (takeWhile (\<lambda>b. b = 0 \<or> b \<notin> set chars) s)"
  by (induction s) (auto simp: strchr_def)

lemma until_first_not_of_pos_eq:
  "until_first_not_of_pos chars s = length (takeWhile (\<lambda>b. b \<noteq> 0 \<and> b \<in> set chars) s)"
  by (induction s) (auto simp: strchr_def)

lemma takeWhile_full_iff: "length (takeWhile P s) = length s \<longleftrightarrow> (\<forall>b\<in>set s. P b)"
  by (induction s) auto

lemma CBS_get_until_first_of_eq:
  "CBS_get_until_first_of s chars =
     (if \<exists>b\<in>set s. b \<noteq> 0 \<and> b \<in> set chars
      then (Some (takeWhile (\<lambda>b. b = 0 \<or> b \<notin> set chars) s),
            dropWhile (\<lambda>b. b = 0 \<or> b \<notin> set chars) s)
      else (None, s))"
  by (auto simp: CBS_get_until_first_of_def until_first_of_pos_eq cbs_get_takeWhile
      takeWhile_full_iff Let_def)

lemma CBS_get_until_first_not_of_eq:
  "CBS_get_until_first_not_of s chars =
     (if \<exists>b\<in>set s. b = 0 \<or> b \<notin> set chars
      then (Some (takeWhile (\<lambda>b. b \<noteq> 0 \<and> b \<in> set chars) s),
            dropWhile (\<lambda>b. b \<noteq> 0 \<and> b \<in> set chars) s)
      else (None, s))"
  by (auto simp: CBS_get_until_first_not_of_def until_first_not_of_pos_eq cbs_get_takeWhile
      takeWhile_full_iff Let_def)

subsection \<open>Decimal integers\<close>

text \<open>
  The specification: the value of a digit string, and the strings \<^verbatim>\<open>strtoul\<close>-style
  parsing accepts here, which are non-empty and have no stray leading zero.
\<close>

abbreviation is_digit_byte :: "byte \<Rightarrow> bool" where
  "is_digit_byte c \<equiv> OPENSSL_isdigit (uint c)"

definition dec_acc :: "nat \<Rightarrow> byte list \<Rightarrow> nat" where
  "dec_acc a ds = foldl (\<lambda>a c. a * 10 + (unat c - 48)) a ds"

definition canonical_decimal :: "byte list \<Rightarrow> bool" where
  "canonical_decimal ds \<longleftrightarrow> ds \<noteq> [] \<and> (hd ds = 48 \<longrightarrow> length ds = 1)"

lemma dec_acc_simps [simp]:
  "dec_acc a [] = a"
  "dec_acc a (c # ds) = dec_acc (a * 10 + (unat c - 48)) ds"
  by (simp_all add: dec_acc_def)

lemma dec_acc_mono: "a \<le> dec_acc a ds"
proof (induction ds arbitrary: a)
  case (Cons c ds)
  have "a \<le> a * 10 + (unat c - 48)" by simp
  also have "\<dots> \<le> dec_acc (a * 10 + (unat c - 48)) ds" by (rule Cons.IH)
  finally show ?case by simp
qed simp

lemma digit_bounds: "is_digit_byte c \<Longrightarrow> 48 \<le> unat c \<and> unat c \<le> 57"
  unfolding OPENSSL_isdigit_def unat_eq_nat_uint by linarith

lemma digit_value: "is_digit_byte c \<Longrightarrow> (of_int (uint c - 48) :: uint64) = of_nat (unat c - 48)"
proof -
  assume "is_digit_byte c"
  then have "uint c - 48 = int (unat c - 48)"
    unfolding OPENSSL_isdigit_def unat_eq_nat_uint by linarith
  then show ?thesis by (metis of_int_of_nat_eq)
qed

lemma unat_max_u64: "unat (- 1 :: uint64) = 2 ^ 64 - 1"
  by (simp add: unsigned_minus_1_eq_mask mask_eq_exp_minus_1)

lemma decimal_guard:
  fixes v :: uint64
  assumes "d \<le> 9"
  shows "(-1) div 10 < v \<or> (-1) - of_nat d < v * 10 \<longleftrightarrow> 2 ^ 64 \<le> unat v * 10 + d"
proof (cases "(-1) div 10 < v")
  case True
  then have "(2 ^ 64 - 1) div 10 < unat v"
    by (simp add: word_less_nat_alt unat_div unat_max_u64)
  with True show ?thesis by simp
next
  case False
  then have small: "unat v \<le> (2 ^ 64 - 1) div 10"
    by (simp add: word_less_nat_alt unat_div unat_max_u64)
  then have "unat (v * 10) = unat v * 10"
    by (simp add: unat_word_ariths)
  moreover have "unat ((-1) - of_nat d :: uint64) = 2 ^ 64 - 1 - d"
    using assms by (subst unat_sub) (simp_all add: word_le_nat_alt unat_max_u64 unat_of_nat)
  ultimately show ?thesis using False assms by (simp add: word_less_nat_alt) linarith
qed

lemma u64_decimal_loop_eq:
  assumes "v \<noteq> 0 \<longrightarrow> seen"
  shows "u64_decimal_loop v seen s = (Some w, r) \<longleftrightarrow>
    (let ds = takeWhile is_digit_byte s in
     (seen \<or> ds \<noteq> []) \<and> (v = 0 \<and> seen \<longrightarrow> ds = []) \<and> (\<not> seen \<longrightarrow> canonical_decimal ds) \<and>
     dec_acc (unat v) ds = unat w \<and> r = dropWhile is_digit_byte s)"
  using assms
proof (induction v seen s rule: u64_decimal_loop.induct)
  case (1 v seen)
  then show ?case by (auto simp: Let_def word_unat_eq_iff)
next
  case (2 v seen c cs)
  show ?case
  proof (cases "is_digit_byte c")
    case False
    then show ?thesis using 2(2) by (auto simp: Let_def word_unat_eq_iff)
  next
    case True
    define d where "d = unat c - 48"
    let ?v = "v * 10 + of_nat d :: uint64"
    let ?ds = "takeWhile is_digit_byte cs"
    have d: "d \<le> 9" and val: "of_int (uint c - 48) = (of_nat d :: uint64)"
      using digit_bounds [OF True] digit_value [OF True] by (auto simp: d_def)
    have zero: "d = 0 \<longleftrightarrow> c = 48"
      using digit_bounds [OF True] by (auto simp: d_def word_unat_eq_iff)
    note guard = decimal_guard [OF d, of v]
    show ?thesis
    proof (cases "2 ^ 64 \<le> unat v * 10 + d")
      case over: True
      then have "2 ^ 64 \<le> dec_acc (unat v) (c # ?ds)"
        using dec_acc_mono [of "unat v * 10 + d" ?ds] by (simp add: d_def)
      then have "dec_acc (unat v) (c # ?ds) \<noteq> unat w"
        using unsigned_less [where 'a = nat, of w] by auto
      with True over guard val show ?thesis by (auto simp: Let_def)
    next
      case fits: False
      have small: "unat v * 10 + d < 2 ^ 64" using fits by simp
      have "?v = of_nat (unat v * 10 + d)" by simp
      then have unat_v: "unat ?v = unat v * 10 + d"
        using small by (simp only: unat_of_nat) (simp add: take_bit_nat_eq_self)
      then have "?v = 0 \<longleftrightarrow> v = 0 \<and> d = 0"
        by (metis add_is_0 mult_is_0 unat_eq_zero zero_neq_numeral)
      then show ?thesis
        using True fits guard val unat_v zero 2
        by (auto simp: Let_def canonical_decimal_def d_def)
    qed
  qed
qed

text \<open>
  \<^verbatim>\<open>CBS_get_u64_decimal\<close> succeeds exactly when the input starts with a decimal number in
  canonical form (at least one digit, no stray leading zero) that fits 64 bits; it returns
  that number and leaves the reader at the first byte that is not a digit.
\<close>
theorem CBS_get_u64_decimal_spec:
  "CBS_get_u64_decimal s = (Some w, r) \<longleftrightarrow>
    (let ds = takeWhile is_digit_byte s in
     canonical_decimal ds \<and> dec_acc 0 ds = unat w \<and> r = dropWhile is_digit_byte s)"
  using u64_decimal_loop_eq [of 0 False s w r]
  by (auto simp: CBS_get_u64_decimal_def canonical_decimal_def Let_def)

subsection \<open>Codecs\<close>

text \<open>
  What a caller relies on in a reader that has a canonical encoding: it reads back every
  encoding whatever follows, and it accepts nothing but the encodings. \<open>read_all\<close> is the
  loop \<^verbatim>\<open>while (CBS_len(&cbs) != 0) { if (!read(&cbs, &x)) return 0; ... }\<close> of the callers;
  each turn consumes a byte, so the length of the input bounds its turns.
\<close>

fun read_all :: "nat \<Rightarrow> 'a reader \<Rightarrow> cbs \<Rightarrow> 'a list option" where
  "read_all 0 rd s = (if s = [] then Some [] else None)"
| "read_all (Suc n) rd s =
     (if s = [] then Some []
      else (case rd s of
          (None, _) \<Rightarrow> None
        | (Some a, r) \<Rightarrow> map_option (Cons a) (read_all n rd r)))"

locale codec =
  fixes rd :: "'a reader"
    and enc :: "'a \<Rightarrow> byte list"
    and valid :: "'a \<Rightarrow> bool"
  assumes read_enc: "valid a \<Longrightarrow> rd (enc a @ r) = (Some a, r)"
    and enc_read: "rd s = (Some a, r) \<Longrightarrow> valid a \<and> s = enc a @ r"
    and enc_nonempty: "valid a \<Longrightarrow> enc a \<noteq> []"
begin

lemma read_Some_iff: "rd s = (Some a, r) \<longleftrightarrow> valid a \<and> s = enc a @ r"
  by (auto simp: read_enc dest: enc_read)

lemma prefix_free:
  assumes "valid a" "valid b" "enc a @ r = enc b @ t"
  shows "a = b \<and> r = t"
proof -
  have "(Some a, r) = rd (enc a @ r)" by (rule read_enc [OF assms(1), symmetric])
  also have "\<dots> = rd (enc b @ t)" by (simp only: assms(3))
  also have "\<dots> = (Some b, t)" by (rule read_enc [OF assms(2)])
  finally show ?thesis by simp
qed

lemma read_all_concat:
  assumes "\<forall>a\<in>set as. valid a" "length (concat (map enc as)) \<le> n"
  shows "read_all n rd (concat (map enc as)) = Some as"
  using assms
proof (induction as arbitrary: n)
  case Nil
  then show ?case by (cases n) simp_all
next
  case (Cons a as)
  have ne: "enc a \<noteq> []" using Cons.prems enc_nonempty by simp
  then obtain m where m: "n = Suc m" using Cons.prems by (cases n) auto
  have "0 < length (enc a)" using ne by simp
  then have "length (concat (map enc as)) \<le> m"
    using Cons.prems m by (simp only: list.map concat.simps length_append)
  with ne m show ?case
    using Cons.IH [of m] Cons.prems by (simp add: read_enc)
qed

lemma read_all_canonical:
  "read_all n rd s = Some as \<Longrightarrow> (\<forall>a\<in>set as. valid a) \<and> s = concat (map enc as)"
proof (induction n arbitrary: s as)
  case (Suc n)
  show ?case
  proof (cases "s = []")
    case False
    then obtain a r bs where "rd s = (Some a, r)" "read_all n rd r = Some bs" "as = a # bs"
      using Suc.prems by (auto split: prod.splits option.splits)
    then show ?thesis using Suc.IH enc_read by fastforce
  qed (use Suc.prems in auto)
qed (auto split: if_splits)

lemma read_all_Some_iff:
  "length s \<le> n \<Longrightarrow>
   read_all n rd s = Some as \<longleftrightarrow> (\<forall>a\<in>set as. valid a) \<and> s = concat (map enc as)"
  by (auto simp: read_all_concat dest: read_all_canonical)

end

text \<open>Every big-endian integer reader is a codec on the values that fit its field.\<close>

lemma be_codec:
  fixes rd :: "'a::len word reader"
  assumes rd: "\<And>s v r. rd s = (Some v, r) \<longleftrightarrow>
      (\<exists>p. s = p @ r \<and> length p = n \<and> v = of_nat (be_nat p))"
    and n: "0 < n" "8 * n \<le> LENGTH('a)"
  shows "codec rd (\<lambda>v. nat_be n (unat v)) (\<lambda>v. unat v < 256 ^ n)"
proof
  fix v :: "'a word" and r s
  show "rd (nat_be n (unat v) @ r) = (Some v, r)" if "unat v < 256 ^ n"
    unfolding rd using that by (intro exI [of _ "nat_be n (unat v)"]) (simp add: be_nat_nat_be)
  show "nat_be n (unat v) \<noteq> []" using n by simp
  assume "rd s = (Some v, r)"
  then obtain p where p: "s = p @ r" "length p = n" "v = of_nat (be_nat p)"
    by (auto simp: rd)
  then have "unat v = be_nat p"
    using unat_foldl_shift_in [where 'a = 'a, of p] n by (simp add: foldl_shift_in)
  with p show "unat v < 256 ^ n \<and> s = nat_be n (unat v) @ r"
    using be_nat_bound [of p] nat_be_be_nat [of p] by auto
qed

lemma word_less_256_power:
  fixes v :: "'a::len word"
  assumes "LENGTH('a) \<le> 8 * n"
  shows "unat v < 256 ^ n"
proof -
  have "unat v < 2 ^ LENGTH('a)" by (rule unsigned_less)
  also have "\<dots> \<le> 2 ^ (8 * n)" using assms by (intro power_increasing) simp_all
  finally show ?thesis by (simp add: power_mult)
qed

interpretation u8: codec CBS_get_u8 "\<lambda>v. [v]" "\<lambda>_. True"
  by unfold_locales (auto simp: CBS_get_u8_Some_iff)

interpretation u16: codec CBS_get_u16 "\<lambda>v. nat_be 2 (unat v)" "\<lambda>v. unat v < 256 ^ 2"
  by (rule be_codec) (simp_all add: CBS_get_u16_Some_iff)

interpretation u24: codec CBS_get_u24 "\<lambda>v. nat_be 3 (unat v)" "\<lambda>v. unat v < 256 ^ 3"
  by (rule be_codec) (simp_all add: CBS_get_u24_Some_iff)

interpretation u32: codec CBS_get_u32 "\<lambda>v. nat_be 4 (unat v)" "\<lambda>v. unat v < 256 ^ 4"
  by (rule be_codec) (simp_all add: CBS_get_u32_Some_iff)

interpretation u48: codec CBS_get_u48 "\<lambda>v. nat_be 6 (unat v)" "\<lambda>v. unat v < 256 ^ 6"
  by (rule be_codec) (auto simp: CBS_get_u48_def cbs_get_u_Some_iff)

interpretation u64: codec CBS_get_u64 "\<lambda>v. nat_be 8 (unat v)" "\<lambda>v. unat v < 256 ^ 8"
  by (rule be_codec) (auto simp: CBS_get_u64_def cbs_get_u_Some_iff)

lemma length_prefixed_codec:
  assumes "0 < k" "k \<le> 8"
  shows "codec (\<lambda>s. cbs_get_length_prefixed s k)
    (\<lambda>x. nat_be k (length x) @ x) (\<lambda>x. length x < 256 ^ k)"
proof
  fix x r s :: "byte list"
  show "cbs_get_length_prefixed ((nat_be k (length x) @ x) @ r) k = (Some x, r)"
    if "length x < 256 ^ k"
    using that assms by (auto simp: cbs_get_length_prefixed_Some_iff be_nat_nat_be)
  show "nat_be k (length x) @ x \<noteq> []" using assms by simp
  assume "cbs_get_length_prefixed s k = (Some x, r)"
  then obtain p where "s = p @ x @ r" "length p = k" "be_nat p = length x"
    using assms by (auto simp: cbs_get_length_prefixed_Some_iff)
  then show "length x < 256 ^ k \<and> s = (nat_be k (length x) @ x) @ r"
    using be_nat_bound [of p] nat_be_be_nat [of p] by auto
qed

interpretation lp8: codec CBS_get_u8_length_prefixed
  "\<lambda>x. nat_be 1 (length x) @ x" "\<lambda>x. length x < 256 ^ 1"
  unfolding CBS_get_u8_length_prefixed_def [abs_def] by (rule length_prefixed_codec) simp_all

interpretation lp16: codec CBS_get_u16_length_prefixed
  "\<lambda>x. nat_be 2 (length x) @ x" "\<lambda>x. length x < 256 ^ 2"
  unfolding CBS_get_u16_length_prefixed_def [abs_def] by (rule length_prefixed_codec) simp_all

interpretation lp24: codec CBS_get_u24_length_prefixed
  "\<lambda>x. nat_be 3 (length x) @ x" "\<lambda>x. length x < 256 ^ 3"
  unfolding CBS_get_u24_length_prefixed_def [abs_def] by (rule length_prefixed_codec) simp_all

end
