(* ===== verification/Base128.thy ===== *)
theory Base128
  imports Cbs
begin

unbundle bit_operations_syntax

text \<open>
  Base-128 integers, the encoding of DER high tag numbers and OID components
  (\<^verbatim>\<open>parse_base128_integer\<close> and \<^verbatim>\<open>CBS_is_valid_asn1_oid\<close> of \<^verbatim>\<open>crypto/bytestring/cbs.cc\<close>).
  The specification side writes a number as its base-128 digits without leading zeros;
  the reader is shown to be a codec for that encoding, and OID validation to accept
  exactly the non-empty concatenations of such encodings.
\<close>

subsection \<open>The operations\<close>

fun parse_base128_loop :: "uint64 \<Rightarrow> uint64 reader" where
  "parse_base128_loop v [] = (None, [])"
| "parse_base128_loop v (b # cbs) =
     (if drop_bit (64 - 7) v \<noteq> 0 then (None, cbs)
      else if v = 0 \<and> b = 0x80 then (None, cbs)
      else
        (let v' = push_bit 7 v OR ucast (b AND 0x7f)
         in if b AND 0x80 \<noteq> 0 then parse_base128_loop v' cbs else (Some v', cbs)))"

definition parse_base128_integer :: "uint64 reader" where
  "parse_base128_integer cbs = parse_base128_loop 0 cbs"

text \<open>The scan of the OID check: \<open>prev\<close> is the previous byte; the result is the return value.\<close>

fun oid_scan :: "byte \<Rightarrow> cbs \<Rightarrow> bool" where
  "oid_scan prev [] = (prev AND 0x80 = 0)"
| "oid_scan prev (v # copy) =
     (if prev AND 0x80 = 0 \<and> v = 0x80 then False else oid_scan v copy)"

definition CBS_is_valid_asn1_oid :: "cbs \<Rightarrow> bool" where
  "CBS_is_valid_asn1_oid cbs = (if length cbs = 0 then False else oid_scan 0 cbs)"

definition CBS_is_valid_asn1_relative_oid :: "cbs \<Rightarrow> bool" where
  "CBS_is_valid_asn1_relative_oid cbs = CBS_is_valid_asn1_oid cbs"

subsection \<open>Base-128 digits\<close>

fun b128_digits :: "nat \<Rightarrow> nat list" where
  "b128_digits n = (if n < 128 then [n] else b128_digits (n div 128) @ [n mod 128])"

declare b128_digits.simps [simp del]

definition b128_val :: "nat \<Rightarrow> nat list \<Rightarrow> nat" where
  "b128_val a ds = foldl (\<lambda>a d. a * 128 + d) a ds"

text \<open>Digits as bytes: every byte but the last carries the continuation bit.\<close>

definition b128_bytes :: "nat list \<Rightarrow> byte list" where
  "b128_bytes ds = map (\<lambda>d. of_nat (128 + d)) (butlast ds) @ [of_nat (last ds)]"

definition b128_enc :: "nat \<Rightarrow> byte list" where
  "b128_enc n = b128_bytes (b128_digits n)"

definition digit_list :: "nat list \<Rightarrow> bool" where
  "digit_list ds \<longleftrightarrow> ds \<noteq> [] \<and> (\<forall>d\<in>set ds. d < 128)"

definition canonical_digits :: "nat list \<Rightarrow> bool" where
  "canonical_digits ds \<longleftrightarrow> digit_list ds \<and> (hd ds = 0 \<longrightarrow> length ds = 1)"

lemma b128_val_simps [simp]:
  "b128_val a [] = a"
  "b128_val a (d # ds) = b128_val (a * 128 + d) ds"
  "b128_val a (ds @ [d]) = b128_val a ds * 128 + d"
  by (simp_all add: b128_val_def)

lemma b128_val_mono: "a \<le> b128_val a ds"
proof (induction ds arbitrary: a)
  case (Cons d ds)
  have "a \<le> a * 128 + d" by simp
  also have "\<dots> \<le> b128_val (a * 128 + d) ds" by (rule Cons.IH)
  finally show ?case by simp
qed simp

lemma b128_val_digits [simp]: "b128_val 0 (b128_digits n) = n"
proof (induction n rule: b128_digits.induct)
  case (1 n)
  then show ?case by (subst b128_digits.simps) simp
qed

lemma canonical_b128_digits: "canonical_digits (b128_digits n)"
proof (induction n rule: b128_digits.induct)
  case (1 n)
  show ?case
  proof (cases "n < 128")
    case False
    then have IH: "canonical_digits (b128_digits (n div 128))" using 1 by simp
    have "hd (b128_digits (n div 128)) \<noteq> 0"
    proof
      assume "hd (b128_digits (n div 128)) = 0"
      with IH have "b128_digits (n div 128) = [0]"
        by (auto simp: canonical_digits_def digit_list_def length_Suc_conv)
      then have "n div 128 = 0" using b128_val_digits [of "n div 128"] by simp
      with False show False by (simp add: div_eq_0_iff)
    qed
    with IH False show ?thesis
      by (subst b128_digits.simps) (simp add: canonical_digits_def digit_list_def)
  qed (subst b128_digits.simps, simp add: canonical_digits_def digit_list_def)
qed

lemma b128_val_pos: "digit_list ds \<Longrightarrow> hd ds \<noteq> 0 \<Longrightarrow> 0 < b128_val 0 ds"
  using b128_val_mono by (cases ds) (auto simp: digit_list_def intro: less_le_trans)

lemma b128_digits_unique: "canonical_digits ds \<Longrightarrow> b128_digits (b128_val 0 ds) = ds"
proof (induction ds rule: rev_induct)
  case (snoc d ds)
  have d: "d < 128" using snoc.prems by (simp add: canonical_digits_def digit_list_def)
  show ?case
  proof (cases "ds = []")
    case True
    then show ?thesis using d by (subst b128_digits.simps) simp
  next
    case False
    then have c: "canonical_digits ds" "hd ds \<noteq> 0"
      using snoc.prems by (auto simp: canonical_digits_def digit_list_def)
    then have "0 < b128_val 0 ds"
      by (intro b128_val_pos) (auto simp: canonical_digits_def)
    then have "\<not> b128_val 0 (ds @ [d]) < 128" by simp
    then show ?thesis
      using snoc.IH c d by (subst b128_digits.simps) simp
  qed
qed (simp add: canonical_digits_def digit_list_def)

lemma b128_digits_iff:
  "canonical_digits ds \<and> b128_val 0 ds = n \<longleftrightarrow> ds = b128_digits n"
  using canonical_b128_digits b128_digits_unique b128_val_digits by metis

subsection \<open>The reader\<close>

lemma continuation_byte:
  fixes b :: byte
  shows "b AND 0x80 \<noteq> 0 \<longleftrightarrow> 128 \<le> unat b" "unat (b AND 0x7f) = unat b mod 128"
proof -
  have "b AND 0x7f = b AND mask 7" by (simp add: mask_eq_exp_minus_1)
  then show "unat (b AND 0x7f) = unat b mod 128"
    by (simp flip: take_bit_eq_mask add: unsigned_take_bit_eq take_bit_eq_mod unat_mod)
  have "b AND 0x80 \<noteq> 0 \<longleftrightarrow> bit b 7"
    using and_exp_eq_0_iff_not_bit [of b 7] by simp
  also have "\<dots> \<longleftrightarrow> odd (unat b div 128)"
    using bit_unsigned_iff [where 'a = nat, of b 7] by (simp add: bit_iff_odd [of "unat b"])
  also have "\<dots> \<longleftrightarrow> 128 \<le> unat b"
  proof -
    have "unat b div 128 = (if 128 \<le> unat b then 1 else 0)"
      using byte_less [of b] by (auto intro!: div_nat_eqI)
    then show ?thesis by simp
  qed
  finally show "b AND 0x80 \<noteq> 0 \<longleftrightarrow> 128 \<le> unat b" .
qed

lemma base128_shift:
  assumes "drop_bit 57 v = (0 :: uint64)"
  shows "unat (push_bit 7 v OR ucast ((b :: byte) AND 0x7f)) = unat v * 128 + unat b mod 128"
proof -
  have "unat v div 2 ^ 57 = 0" using assms unat_drop_bit [of 57 v] by simp
  then have v: "unat v < 2 ^ 57" by (simp add: div_eq_0_iff)
  have "b AND 0x7f = b AND mask 7" by (simp add: mask_eq_exp_minus_1)
  then have "push_bit 7 v AND ucast (b AND 0x7f) = 0"
    by (simp only:) (rule bit_word_eqI, auto simp: bit_simps)
  then have "push_bit 7 v OR ucast (b AND 0x7f) = push_bit 7 v + ucast (b AND 0x7f)"
    by (simp add: disjunctive_add_eq_or)
  also have "\<dots> = of_nat (unat v * 128) + of_nat (unat (b AND 0x7f))"
    by (simp add: push_bit_eq_mult)
  also have "\<dots> = of_nat (unat v * 128 + unat b mod 128)"
    by (simp only: continuation_byte of_nat_add)
  finally show ?thesis
    using v by (simp only: unat_of_nat) (simp add: take_bit_nat_eq_self)
qed

lemma parse_base128_guard: "drop_bit 57 v = (0 :: uint64) \<longleftrightarrow> unat v * 128 < 2 ^ 64"
proof -
  have "drop_bit 57 v = 0 \<longleftrightarrow> unat (drop_bit 57 v) = 0" by (simp only: unat_eq_zero)
  also have "\<dots> \<longleftrightarrow> unat v < 2 ^ 57" by (simp only: unat_drop_bit) (simp add: div_eq_0_iff)
  finally show ?thesis by simp
qed

text \<open>
  The loop, started at the value \<open>v\<close>, accepts a run of continuation bytes closed by a byte
  below 128, as long as the accumulated value fits 64 bits.
\<close>

lemma b128_bytes_Cons [simp]:
  "b128_bytes [d] = [of_nat d]"
  "ds \<noteq> [] \<Longrightarrow> b128_bytes (d # ds) = of_nat (128 + d) # b128_bytes ds"
  by (simp_all add: b128_bytes_def)

lemma byte_digit:
  fixes b :: byte
  shows "128 \<le> unat b \<Longrightarrow> b = of_nat (128 + unat b mod 128)"
    and "\<not> 128 \<le> unat b \<Longrightarrow> b = of_nat (unat b mod 128)"
proof -
  assume "128 \<le> unat b"
  moreover have "unat b - 128 < 128" using byte_less [of b] by linarith
  ultimately have "128 + unat b mod 128 = unat b" by (simp add: le_mod_geq)
  then show "b = of_nat (128 + unat b mod 128)" by (simp only: of_nat_unat_self)
next
  assume "\<not> 128 \<le> unat b"
  then have "unat b mod 128 = unat b" by simp
  then show "b = of_nat (unat b mod 128)" by (simp only: of_nat_unat_self)
qed

lemma parse_base128_loop_step:
  "parse_base128_loop v (b # s) = (Some w, r) \<longleftrightarrow>
    (let d = unat b mod 128; a = unat v * 128 + d
     in a < 2 ^ 64 \<and> \<not> (v = 0 \<and> b = 0x80) \<and>
       (if 128 \<le> unat b then parse_base128_loop (of_nat a) s = (Some w, r)
        else w = of_nat a \<and> r = s))"
proof (cases "drop_bit 57 v = 0")
  case True
  then have eq: "push_bit 7 v OR ucast (b AND 0x7f) = of_nat (unat v * 128 + unat b mod 128)"
    by (simp only: base128_shift [OF True, of b, symmetric] of_nat_unat_self)
  have "unat v * 128 + unat b mod 128 < 2 ^ 64"
    using unsigned_less [where 'a = nat, of "push_bit 7 v OR ucast (b AND 0x7f)"]
    by (simp only: base128_shift [OF True] len_of_numeral_defs) simp
  with True eq show ?thesis
    by (auto simp: Let_def continuation_byte)
next
  case False
  then have "\<not> unat v * 128 + unat b mod 128 < 2 ^ 64" by (simp add: parse_base128_guard)
  with False show ?thesis by (auto simp: Let_def)
qed

declare parse_base128_loop.simps(2) [simp del]

lemma unat_digit_byte:
  "d < 128 \<Longrightarrow> unat (of_nat d :: byte) = d"
  "d < 128 \<Longrightarrow> unat (of_nat (128 + d) :: byte) = 128 + d"
  by (simp_all only: unat_of_nat) (simp_all add: take_bit_nat_eq_self)

text \<open>How the bytes of a digit list start.\<close>

lemma b128_bytes_split:
  "digit_list ds \<and> b # s = b128_bytes ds @ t \<longleftrightarrow>
    (if 128 \<le> unat b
     then \<exists>ds'. digit_list ds' \<and> ds = unat b mod 128 # ds' \<and> s = b128_bytes ds' @ t
     else ds = [unat b] \<and> s = t)"
proof (cases ds)
  case (Cons d ds')
  show ?thesis
  proof (cases "ds' = []")
    case True
    then show ?thesis using Cons byte_digit [of b] unat_digit_byte(1) [of d]
      by (auto simp: digit_list_def)
  next
    case False
    then show ?thesis using Cons byte_digit(1) [of b] unat_digit_byte(2) [of d]
      by (auto simp: digit_list_def)
  qed
qed (simp add: digit_list_def)

lemma b128_bytes_ex:
  "(\<exists>ds. digit_list ds \<and> b # s = b128_bytes ds @ t \<and> Q ds) \<longleftrightarrow>
    (if 128 \<le> unat b
     then \<exists>ds'. digit_list ds' \<and> s = b128_bytes ds' @ t \<and> Q (unat b mod 128 # ds')
     else s = t \<and> Q [unat b])"
proof -
  have "(\<exists>ds. digit_list ds \<and> b # s = b128_bytes ds @ t \<and> Q ds) \<longleftrightarrow>
    (\<exists>ds. (digit_list ds \<and> b # s = b128_bytes ds @ t) \<and> Q ds)" by blast
  also have "\<dots> \<longleftrightarrow> (if 128 \<le> unat b
     then \<exists>ds'. digit_list ds' \<and> s = b128_bytes ds' @ t \<and> Q (unat b mod 128 # ds')
     else s = t \<and> Q [unat b])"
    unfolding b128_bytes_split by auto
  finally show ?thesis .
qed

lemma byte_0x80_iff: "b = (0x80 :: byte) \<longleftrightarrow> 128 \<le> unat b \<and> unat b mod 128 = 0"
proof
  assume "128 \<le> unat b \<and> unat b mod 128 = 0"
  then show "b = 0x80" using byte_digit(1) [of b] by simp
qed simp

lemma digit_list_nonempty: "digit_list ds \<Longrightarrow> ds \<noteq> []"
  by (simp add: digit_list_def)

lemma parse_base128_loop_Some_iff:
  "parse_base128_loop v s = (Some w, r) \<longleftrightarrow>
    (\<exists>ds. digit_list ds \<and> s = b128_bytes ds @ r \<and> unat w = b128_val (unat v) ds \<and>
       (v = 0 \<and> hd ds = 0 \<longrightarrow> length ds = 1))"
proof (induction s arbitrary: v)
  case Nil
  then show ?case by (auto simp: b128_bytes_def)
next
  case (Cons b s)
  define a where "a = unat v * 128 + unat b mod 128"
  have small: "\<not> 128 \<le> unat b \<Longrightarrow> unat v * 128 + unat b = a" by (simp add: a_def)
  show ?case
  proof (cases "a < 2 ^ 64")
    case True
    then have val: "unat (of_nat a :: uint64) = a"
      by (simp add: unat_of_nat take_bit_nat_eq_self)
    then have zero: "(of_nat a :: uint64) = 0 \<longleftrightarrow> v = 0 \<and> unat b mod 128 = 0"
      by (metis a_def add_is_0 mult_is_0 unat_eq_zero zero_neq_numeral)
    show ?thesis
      using True small
      by (auto simp: parse_base128_loop_step b128_bytes_ex Let_def a_def [symmetric] val zero
          Cons.IH byte_0x80_iff word_unat_eq_iff [of w] dest: digit_list_nonempty)
  next
    case False
    have "unat w < 2 ^ 64" using unsigned_less [where 'a = nat, of w] by simp
    then have "unat w \<noteq> b128_val a ds" for ds
      using False b128_val_mono [of a ds] by linarith
    from this [of "[]"] this False small show ?thesis
      by (auto simp: parse_base128_loop_step b128_bytes_ex Let_def a_def [symmetric])
  qed
qed

lemma parse_base128_integer_Some_iff [reader_simps]:
  "parse_base128_integer s = (Some w, r) \<longleftrightarrow> s = b128_enc (unat w) @ r"
proof -
  have "parse_base128_integer s = (Some w, r) \<longleftrightarrow>
    (\<exists>ds. s = b128_bytes ds @ r \<and> canonical_digits ds \<and> b128_val 0 ds = unat w)"
    by (auto simp: parse_base128_integer_def parse_base128_loop_Some_iff canonical_digits_def)
  then show ?thesis by (simp add: b128_digits_iff b128_enc_def)
qed

lemma b128_bytes_nonempty [simp]: "b128_bytes ds \<noteq> []"
  by (simp add: b128_bytes_def)

interpretation base128: codec parse_base128_integer "\<lambda>v. b128_enc (unat v)" "\<lambda>_. True"
  by unfold_locales (simp_all add: parse_base128_integer_Some_iff b128_enc_def)

subsection \<open>OID validation\<close>

lemma b128_enc_ex: "(\<exists>n. Q (b128_enc n)) \<longleftrightarrow> (\<exists>ds. canonical_digits ds \<and> Q (b128_bytes ds))"
  unfolding b128_enc_def using b128_digits_iff by metis

lemma concat_enc_ex:
  "(\<exists>ns. b # s = concat (map b128_enc ns)) \<longleftrightarrow>
   (\<exists>ds ns. canonical_digits ds \<and> b # s = b128_bytes ds @ concat (map b128_enc ns))"
proof -
  have "(\<exists>ns. b # s = concat (map b128_enc ns)) \<longleftrightarrow>
    (\<exists>n ns. b # s = b128_enc n @ concat (map b128_enc ns))"
  proof
    assume "\<exists>ns. b # s = concat (map b128_enc ns)"
    then obtain ns where "b # s = concat (map b128_enc ns)" by blast
    then show "\<exists>n ns. b # s = b128_enc n @ concat (map b128_enc ns)"
      by (cases ns) auto
  next
    assume "\<exists>n ns. b # s = b128_enc n @ concat (map b128_enc ns)"
    then obtain n ns where "b # s = concat (map b128_enc (n # ns))" by auto
    then show "\<exists>ns. b # s = concat (map b128_enc ns)" by blast
  qed
  also have "\<dots> \<longleftrightarrow> (\<exists>ns n. b # s = b128_enc n @ concat (map b128_enc ns))" by blast
  finally show ?thesis by (subst (asm) b128_enc_ex) blast
qed

lemma oid_scan_iff:
  "oid_scan prev s \<longleftrightarrow>
    (if prev AND 0x80 = 0 then \<exists>ns. s = concat (map b128_enc ns)
     else \<exists>ds ns. digit_list ds \<and> s = b128_bytes ds @ concat (map b128_enc ns))"
proof (induction prev s rule: oid_scan.induct)
  case (1 prev)
  have "\<exists>ns. [] = concat (map b128_enc ns)" by (rule exI [of _ "[]"]) simp
  then show ?case by simp
next
  case (2 prev v s)
  have split: "(\<exists>ds ns. digit_list ds \<and> v # s = b128_bytes ds @ concat (map b128_enc ns) \<and> Q ds) \<longleftrightarrow>
    (if 128 \<le> unat v
     then \<exists>ds ns. digit_list ds \<and> s = b128_bytes ds @ concat (map b128_enc ns) \<and>
            Q (unat v mod 128 # ds)
     else (\<exists>ns. s = concat (map b128_enc ns)) \<and> Q [unat v])" for Q
    using b128_bytes_ex [of v s "concat (map b128_enc _)" Q] by (auto; blast)
  have canon: "(\<exists>ns. v # s = concat (map b128_enc ns)) \<longleftrightarrow>
    (\<exists>ds ns. digit_list ds \<and> v # s = b128_bytes ds @ concat (map b128_enc ns) \<and>
       (hd ds = 0 \<longrightarrow> length ds = 1))"
    unfolding concat_enc_ex canonical_digits_def by (simp only: conj_ac)
  have cont: "v AND 0x80 = 0 \<longleftrightarrow> \<not> 128 \<le> unat v" using continuation_byte(1) [of v] by blast
  show ?case
  proof (cases "prev AND 0x80 = 0")
    case True
    then show ?thesis
      using "2.IH" unfolding if_P [OF True] canon split
      by (auto simp: cont byte_0x80_iff dest: digit_list_nonempty)
  next
    case False
    then show ?thesis
      using "2.IH" split [of "\<lambda>_. True"] by (simp add: cont)
  qed
qed

text \<open>
  \<^verbatim>\<open>CBS_is_valid_asn1_oid\<close> accepts exactly the non-empty concatenations of minimal
  base-128 encodings of the OID components, of any size.
\<close>
theorem CBS_is_valid_asn1_oid_iff:
  "CBS_is_valid_asn1_oid s \<longleftrightarrow> s \<noteq> [] \<and> (\<exists>ns. s = concat (map b128_enc ns))"
  by (simp add: CBS_is_valid_asn1_oid_def oid_scan_iff)

end
