(* ===== verification/Cbs_Asn1.thy ===== *)
theory Cbs_Asn1
  imports Base128
begin

unbundle bit_operations_syntax

text \<open>
  The ASN.1 reader of \<^verbatim>\<open>crypto/bytestring/cbs.cc\<close>: tags, DER and BER element headers, and the
  readers for integers, booleans, bit strings and optional fields built on them. A
  tag-length-value element is specified by \<open>der_enc\<close>; the DER reader is shown to be a codec for
  it, so that it accepts exactly the canonical encodings and reads each of them back.
\<close>

type_synonym CBS_ASN1_TAG = uint32

subsection \<open>Tags\<close>

definition CBS_ASN1_TAG_SHIFT :: nat where "CBS_ASN1_TAG_SHIFT = 24"

definition CBS_ASN1_CONSTRUCTED :: CBS_ASN1_TAG where
  "CBS_ASN1_CONSTRUCTED = push_bit CBS_ASN1_TAG_SHIFT 0x20"

definition CBS_ASN1_APPLICATION :: CBS_ASN1_TAG where
  "CBS_ASN1_APPLICATION = push_bit CBS_ASN1_TAG_SHIFT 0x40"

definition CBS_ASN1_CONTEXT_SPECIFIC :: CBS_ASN1_TAG where
  "CBS_ASN1_CONTEXT_SPECIFIC = push_bit CBS_ASN1_TAG_SHIFT 0x80"

definition CBS_ASN1_PRIVATE :: CBS_ASN1_TAG where
  "CBS_ASN1_PRIVATE = push_bit CBS_ASN1_TAG_SHIFT 0xc0"

definition CBS_ASN1_CLASS_MASK :: CBS_ASN1_TAG where
  "CBS_ASN1_CLASS_MASK = push_bit CBS_ASN1_TAG_SHIFT 0xc0"

definition CBS_ASN1_TAG_NUMBER_MASK :: CBS_ASN1_TAG where
  "CBS_ASN1_TAG_NUMBER_MASK = push_bit (5 + CBS_ASN1_TAG_SHIFT) 1 - 1"

definition CBS_ASN1_BOOLEAN :: CBS_ASN1_TAG where "CBS_ASN1_BOOLEAN = 0x1"
definition CBS_ASN1_INTEGER :: CBS_ASN1_TAG where "CBS_ASN1_INTEGER = 0x2"
definition CBS_ASN1_BITSTRING :: CBS_ASN1_TAG where "CBS_ASN1_BITSTRING = 0x3"
definition CBS_ASN1_OCTETSTRING :: CBS_ASN1_TAG where "CBS_ASN1_OCTETSTRING = 0x4"
definition CBS_ASN1_OBJECT :: CBS_ASN1_TAG where "CBS_ASN1_OBJECT = 0x6"
definition CBS_ASN1_SEQUENCE :: CBS_ASN1_TAG where
  "CBS_ASN1_SEQUENCE = 0x10 OR CBS_ASN1_CONSTRUCTED"
definition CBS_ASN1_SET :: CBS_ASN1_TAG where
  "CBS_ASN1_SET = 0x11 OR CBS_ASN1_CONSTRUCTED"

definition parse_asn1_tag :: "CBS_ASN1_TAG reader" where
  "parse_asn1_tag cbs =
     on_read (CBS_get_u8 cbs) (\<lambda>tag_byte cbs.
       let tag = push_bit CBS_ASN1_TAG_SHIFT (ucast tag_byte AND 0xe0);
           tag_number = ucast (tag_byte AND 0x1f);
           finish = (\<lambda>tag_number cbs.
             let tag = tag OR tag_number
             in if tag AND NOT CBS_ASN1_CONSTRUCTED = 0 then (None, cbs) else (Some tag, cbs))
       in if tag_number = 0x1f
          then on_read (parse_base128_integer cbs) (\<lambda>v cbs.
                 if ucast CBS_ASN1_TAG_NUMBER_MASK < v \<or> v < 0x1f then (None, cbs)
                 else finish (ucast v) cbs)
          else finish tag_number cbs)"

subsection \<open>Elements\<close>

text \<open>
  What a successful \<^verbatim>\<open>cbs_get_any_asn1_element\<close> stores in its output parameters: the whole
  element, its tag, the length of its header and the two BER indications.
\<close>

record asn1_element =
  element :: cbs
  out_tag :: CBS_ASN1_TAG
  out_header_len :: nat
  out_ber_found :: bool
  out_indefinite :: bool

definition cbs_get_any_asn1_element :: "bool \<Rightarrow> asn1_element reader" where
  "cbs_get_any_asn1_element ber_ok cbs =
     (case parse_asn1_tag cbs of
        (None, _) \<Rightarrow> (None, cbs)
      | (Some tag, header) \<Rightarrow>
    (case CBS_get_u8 header of
        (None, _) \<Rightarrow> (None, cbs)
      | (Some length_byte, header) \<Rightarrow>
     let header_len = length cbs - length header;
         result = (\<lambda>len hlen ber indefinite.
           on_read (CBS_get_bytes cbs len) (\<lambda>bytes cbs.
             (Some \<lparr>element = bytes, out_tag = tag, out_header_len = hlen,
                    out_ber_found = ber, out_indefinite = indefinite\<rparr>, cbs)))
     in if length_byte AND 0x80 = 0
        then result (size_add (unat length_byte) header_len) header_len False False
        else
          let num_bytes = unat (length_byte AND 0x7f)
          in if ber_ok \<and> tag AND CBS_ASN1_CONSTRUCTED \<noteq> 0 \<and> num_bytes = 0
             then result header_len header_len True True
             else if num_bytes = 0 \<or> num_bytes > 4 then (None, cbs)
             else
               (case cbs_get_u header num_bytes of
                  (None, _) \<Rightarrow> (None, cbs)
                | (Some len64, _) \<Rightarrow>
                 let not_minimal = (len64 < 128);
                     too_long = (drop_bit ((num_bytes - 1) * 8) len64 = 0);
                     len = unat len64
                 in if not_minimal \<and> \<not> ber_ok then (None, cbs)
                    else if too_long \<and> \<not> ber_ok then (None, cbs)
                    else if size_add (size_add len header_len) num_bytes < len then (None, cbs)
                    else result (size_add len (size_add header_len num_bytes))
                           (size_add header_len num_bytes) (not_minimal \<or> too_long) False)))"

definition CBS_get_any_asn1_element :: "asn1_element reader" where
  "CBS_get_any_asn1_element cbs = cbs_get_any_asn1_element False cbs"

definition CBS_get_any_ber_asn1_element :: "asn1_element reader" where
  "CBS_get_any_ber_asn1_element cbs = cbs_get_any_asn1_element True cbs"

text \<open>The contents and the tag of the element read.\<close>

definition CBS_get_any_asn1 :: "(cbs \<times> CBS_ASN1_TAG) reader" where
  "CBS_get_any_asn1 cbs =
     on_read (CBS_get_any_asn1_element cbs) (\<lambda>e cbs.
       case CBS_skip (element e) (out_header_len e) of
         (None, _) \<Rightarrow> (None, cbs)
       | (Some _, contents) \<Rightarrow> (Some (contents, out_tag e), cbs))"

definition cbs_get_asn1 :: "CBS_ASN1_TAG \<Rightarrow> bool \<Rightarrow> cbs reader" where
  "cbs_get_asn1 tag_value skip_header cbs =
     on_read (CBS_get_any_asn1_element cbs) (\<lambda>e cbs.
       if out_tag e \<noteq> tag_value then (None, cbs)
       else if skip_header then
         (case CBS_skip (element e) (out_header_len e) of
            (None, _) \<Rightarrow> (None, cbs)
          | (Some _, contents) \<Rightarrow> (Some contents, cbs))
       else (Some (element e), cbs))"

definition CBS_get_asn1 :: "CBS_ASN1_TAG \<Rightarrow> cbs reader" where
  "CBS_get_asn1 tag_value cbs = cbs_get_asn1 tag_value True cbs"

definition CBS_get_asn1_element :: "CBS_ASN1_TAG \<Rightarrow> cbs reader" where
  "CBS_get_asn1_element tag_value cbs = cbs_get_asn1 tag_value False cbs"

definition CBS_peek_asn1_tag :: "cbs \<Rightarrow> CBS_ASN1_TAG \<Rightarrow> bool" where
  "CBS_peek_asn1_tag cbs tag_value =
     (case fst (parse_asn1_tag cbs) of None \<Rightarrow> False | Some actual_tag \<Rightarrow> tag_value = actual_tag)"

subsection \<open>Validity checks on contents\<close>

definition CBS_is_valid_asn1_bitstring :: "cbs \<Rightarrow> bool" where
  "CBS_is_valid_asn1_bitstring cbs =
     (case CBS_get_u8 cbs of
        (None, _) \<Rightarrow> False
      | (Some num_unused_bits, in_) \<Rightarrow>
          if 7 < num_unused_bits then False
          else if num_unused_bits = 0 then True
          else
            (case CBS_get_last_u8 in_ of
               (None, _) \<Rightarrow> False
             | (Some last_byte, _) \<Rightarrow> last_byte AND (push_bit (unat num_unused_bits) 1 - 1) = 0))"

definition CBS_asn1_bitstring_has_bit :: "cbs \<Rightarrow> uint32 \<Rightarrow> bool" where
  "CBS_asn1_bitstring_has_bit cbs n =
     (if \<not> CBS_is_valid_asn1_bitstring cbs then False
      else
        (let byte_num = drop_bit 3 n + 1; bit_num = 7 - (n AND 7)
         in unat byte_num < length cbs \<and>
            (cbs ! unat byte_num) AND push_bit (unat bit_num) 1 \<noteq> 0))"

text \<open>\<open>None\<close> for an invalid INTEGER, otherwise the value stored in \<^verbatim>\<open>*out_is_negative\<close>.\<close>

definition CBS_is_valid_asn1_integer :: "cbs \<Rightarrow> bool option" where
  "CBS_is_valid_asn1_integer cbs =
     (case CBS_get_u8 cbs of
        (None, _) \<Rightarrow> None
      | (Some first_byte, copy) \<Rightarrow>
          let is_negative = (first_byte AND 0x80 \<noteq> 0)
          in (case CBS_get_u8 copy of
                (None, _) \<Rightarrow> Some is_negative
              | (Some second_byte, _) \<Rightarrow>
                  if (first_byte = 0x00 \<and> second_byte AND 0x80 = 0) \<or>
                     (first_byte = 0xff \<and> second_byte AND 0x80 \<noteq> 0)
                  then None
                  else Some is_negative))"

definition CBS_is_unsigned_asn1_integer :: "cbs \<Rightarrow> bool" where
  "CBS_is_unsigned_asn1_integer cbs =
     (case CBS_is_valid_asn1_integer cbs of None \<Rightarrow> False | Some is_negative \<Rightarrow> \<not> is_negative)"

subsection \<open>Typed readers\<close>

fun asn1_uint64_loop :: "uint64 \<Rightarrow> byte list \<Rightarrow> uint64 option" where
  "asn1_uint64_loop v [] = Some v"
| "asn1_uint64_loop v (b # data) =
     (if drop_bit 56 v \<noteq> 0 then None else asn1_uint64_loop (shift_in v b) data)"

definition CBS_get_asn1_uint64_with_tag :: "CBS_ASN1_TAG \<Rightarrow> uint64 reader" where
  "CBS_get_asn1_uint64_with_tag tag cbs =
     on_read (CBS_get_asn1 tag cbs) (\<lambda>bytes cbs.
       if \<not> CBS_is_unsigned_asn1_integer bytes then (None, cbs)
       else (asn1_uint64_loop 0 bytes, cbs))"

definition CBS_get_asn1_uint64 :: "uint64 reader" where
  "CBS_get_asn1_uint64 cbs = CBS_get_asn1_uint64_with_tag CBS_ASN1_INTEGER cbs"

text \<open>An \<^verbatim>\<open>int64_t\<close> is a 64-bit word read with \<open>sint\<close>.\<close>

definition CBS_get_asn1_int64_with_tag :: "CBS_ASN1_TAG \<Rightarrow> uint64 reader" where
  "CBS_get_asn1_int64_with_tag tag cbs =
     on_read (CBS_get_asn1 tag cbs) (\<lambda>bytes cbs.
       case CBS_is_valid_asn1_integer bytes of
         None \<Rightarrow> (None, cbs)
       | Some is_negative \<Rightarrow>
           if length bytes > 8 then (None, cbs)
           else
             (let sign_extend = replicate 8 (if is_negative then 0xff else 0)
              in (Some (CRYPTO_load_u64_be (take (8 - length bytes) sign_extend @ bytes)), cbs)))"

definition CBS_get_asn1_int64 :: "uint64 reader" where
  "CBS_get_asn1_int64 cbs = CBS_get_asn1_int64_with_tag CBS_ASN1_INTEGER cbs"

definition CBS_get_asn1_bool :: "bool reader" where
  "CBS_get_asn1_bool cbs =
     on_read (CBS_get_asn1 CBS_ASN1_BOOLEAN cbs) (\<lambda>bytes cbs.
       if length bytes \<noteq> 1 then (None, cbs)
       else
         (let v = bytes ! 0
          in if v \<noteq> 0 \<and> v \<noteq> 0xff then (None, cbs) else (Some (v \<noteq> 0), cbs)))"

text \<open>The inner option is \<open>None\<close> when the element is absent (\<^verbatim>\<open>*out_present\<close> is zero).\<close>

definition CBS_get_optional_asn1 :: "CBS_ASN1_TAG \<Rightarrow> cbs option reader" where
  "CBS_get_optional_asn1 tag cbs =
     (if CBS_peek_asn1_tag cbs tag
      then on_read (CBS_get_asn1 tag cbs) (\<lambda>out cbs. (Some (Some out), cbs))
      else (Some None, cbs))"

definition CBS_get_optional_asn1_octet_string :: "CBS_ASN1_TAG \<Rightarrow> (cbs \<times> bool) reader" where
  "CBS_get_optional_asn1_octet_string tag cbs =
     on_read (CBS_get_optional_asn1 tag cbs) (\<lambda>present cbs.
       case present of
         Some child \<Rightarrow>
           (case CBS_get_asn1 CBS_ASN1_OCTETSTRING child of
              (None, _) \<Rightarrow> (None, cbs)
            | (Some out, child) \<Rightarrow>
                if length child \<noteq> 0 then (None, cbs) else (Some (out, True), cbs))
       | None \<Rightarrow> (Some ([], False), cbs))"

definition CBS_get_optional_asn1_uint64 :: "CBS_ASN1_TAG \<Rightarrow> uint64 \<Rightarrow> uint64 reader" where
  "CBS_get_optional_asn1_uint64 tag default_value cbs =
     on_read (CBS_get_optional_asn1 tag cbs) (\<lambda>present cbs.
       case present of
         Some child \<Rightarrow>
           (case CBS_get_asn1_uint64 child of
              (None, _) \<Rightarrow> (None, cbs)
            | (Some out, child) \<Rightarrow>
                if length child \<noteq> 0 then (None, cbs) else (Some out, cbs))
       | None \<Rightarrow> (Some default_value, cbs))"

definition CBS_get_optional_asn1_bool :: "CBS_ASN1_TAG \<Rightarrow> int \<Rightarrow> int reader" where
  "CBS_get_optional_asn1_bool tag default_value cbs =
     on_read (CBS_get_optional_asn1 tag cbs) (\<lambda>present cbs.
       case present of
         Some child \<Rightarrow>
           (case CBS_get_asn1 CBS_ASN1_BOOLEAN child of
              (None, _) \<Rightarrow> (None, cbs)
            | (Some child2, child) \<Rightarrow>
                if length child2 \<noteq> 1 \<or> length child \<noteq> 0 then (None, cbs)
                else
                  (let boolean = child2 ! 0
                   in if boolean = 0 then (Some 0, cbs)
                      else if boolean = 0xff then (Some 1, cbs)
                      else (None, cbs)))
       | None \<Rightarrow> (Some default_value, cbs))"

subsection \<open>Correctness of tags\<close>

text \<open>The DER identifier octets of a tag, and the tags that have them.\<close>

definition tag_lead :: "CBS_ASN1_TAG \<Rightarrow> byte" where
  "tag_lead t = ucast (drop_bit 24 t) AND 0xe0"

definition tag_enc :: "CBS_ASN1_TAG \<Rightarrow> byte list" where
  "tag_enc t =
     (let number = unat (t AND CBS_ASN1_TAG_NUMBER_MASK)
      in if number < 31 then [tag_lead t OR of_nat number]
         else (tag_lead t OR 0x1f) # b128_enc number)"

definition valid_tag :: "CBS_ASN1_TAG \<Rightarrow> bool" where
  "valid_tag t \<longleftrightarrow> t AND NOT CBS_ASN1_CONSTRUCTED \<noteq> 0"

definition tag_join :: "byte \<Rightarrow> CBS_ASN1_TAG \<Rightarrow> CBS_ASN1_TAG" where
  "tag_join b n = push_bit 24 (ucast b AND 0xe0) OR n"

lemma tag_masks:
  "(0x1f :: byte) = mask 5" "(0xe0 :: byte) = NOT (mask 5)"
  "(0xe0 :: uint32) = NOT (mask 5) AND mask 8" "CBS_ASN1_TAG_NUMBER_MASK = mask 29"
  by (simp_all add: mask_eq_exp_minus_1 CBS_ASN1_TAG_NUMBER_MASK_def CBS_ASN1_TAG_SHIFT_def)

lemma bit_small_word: "unat (n :: 'a::len word) < 2 ^ k \<Longrightarrow> bit n i \<Longrightarrow> i < k"
proof (rule ccontr)
  assume n: "unat n < 2 ^ k" and i: "bit n i" "\<not> i < k"
  have "bit (unat n) i" using i by (simp add: bit_unsigned_iff bit_imp_le_length)
  then have "odd (unat n div 2 ^ i)" by (simp add: bit_iff_odd)
  moreover have "unat n < 2 ^ i" using n i(2) by (meson less_le_trans not_less one_le_numeral power_increasing)
  ultimately show False by simp
qed

lemma tag_join_number:
  assumes "unat n < 2 ^ 29"
  shows "tag_join b n AND mask 29 = n"
  using bit_small_word [OF assms]
  by (intro bit_word_eqI) (auto simp: tag_join_def tag_masks bit_simps)

lemma tag_join_lead:
  assumes "unat n < 2 ^ 29"
  shows "tag_lead (tag_join b n) = b AND 0xe0"
  using bit_small_word [OF assms]
  by (intro bit_word_eqI) (fastforce simp: tag_lead_def tag_join_def tag_masks bit_simps)

lemma tag_join_eq:
  assumes "b AND 0xe0 = tag_lead t"
  shows "tag_join b (t AND mask 29) = t"
proof (rule bit_word_eqI)
  fix i assume i: "i < LENGTH(32)"
  have "bit (b AND 0xe0) (i - 24) = bit (tag_lead t) (i - 24)" using assms by simp
  then show "bit (tag_join b (t AND mask 29)) i = bit t i"
    using i by (auto simp: tag_lead_def tag_join_def tag_masks bit_simps)
qed

lemma lead_split: "b = (b AND 0xe0) OR (b AND 0x1f)" for b :: byte
  by (intro bit_word_eqI) (auto simp: tag_masks bit_simps)

lemma lead_parts:
  assumes "m AND 0xe0 = 0"
  shows "(tag_lead t OR m) AND 0xe0 = tag_lead t" "(tag_lead t OR m) AND 0x1f = m"
proof -
  have *: "bit m i \<Longrightarrow> i < 5" for i
    using assms bit_imp_le_length [of m i] by (auto simp: bit_eq_iff tag_masks bit_simps)
  show "(tag_lead t OR m) AND 0xe0 = tag_lead t"
    using * by (intro bit_word_eqI) (auto simp: tag_lead_def tag_masks bit_simps)
  show "(tag_lead t OR m) AND 0x1f = m"
    using * by (intro bit_word_eqI) (auto simp: tag_lead_def tag_masks bit_simps)
qed

lemma parse_asn1_tag_Cons:
  "parse_asn1_tag (b # s) =
    (let finish = (\<lambda>n cbs. (if valid_tag (tag_join b n) then Some (tag_join b n) else None, cbs))
     in if b AND 0x1f = 0x1f
        then on_read (parse_base128_integer s) (\<lambda>v cbs.
               if 31 \<le> unat v \<and> unat v < 2 ^ 29 then finish (ucast v) cbs else (None, cbs))
        else finish (ucast (b AND 0x1f)) s)"
proof -
  have number: "(ucast (b AND 0x1f) :: uint32) = 0x1f \<longleftrightarrow> b AND 0x1f = 0x1f"
    by (simp add: word_unat_eq_iff unat_ucast_up)
  have bounds: "(if ucast CBS_ASN1_TAG_NUMBER_MASK < v \<or> v < 0x1f then x else y) =
      (if 31 \<le> unat v \<and> unat v < 2 ^ 29 then y else x)" for v :: uint64 and x y :: 'x
    by (auto simp: word_less_nat_alt CBS_ASN1_TAG_NUMBER_MASK_def CBS_ASN1_TAG_SHIFT_def)
  have finish: "(let tag = push_bit CBS_ASN1_TAG_SHIFT (ucast b AND 0xe0) OR n
      in if tag AND NOT CBS_ASN1_CONSTRUCTED = 0 then (None, cbs) else (Some tag, cbs)) =
      (if valid_tag (tag_join b n) then Some (tag_join b n) else None, cbs)" for n and cbs :: cbs
    by (simp add: valid_tag_def tag_join_def CBS_ASN1_TAG_SHIFT_def Let_def)
  show ?thesis
    unfolding parse_asn1_tag_def CBS_get_u8_Cons on_read_simps Let_def [of "push_bit _ _"]
      Let_def [of "ucast _"] Let_def [of "\<lambda>_. _"] finish number bounds
    ..
qed

lemma parse_asn1_tag_cases:
  "parse_asn1_tag (b # s) = (Some t, r) \<longleftrightarrow>
    valid_tag t \<and>
      (if b AND 0x1f = 0x1f
       then \<exists>v :: uint64. s = b128_enc (unat v) @ r \<and> 31 \<le> unat v \<and> unat v < 2 ^ 29 \<and>
              t = tag_join b (ucast v)
       else r = s \<and> t = tag_join b (ucast (b AND 0x1f)))"
  by (auto simp: parse_asn1_tag_Cons Let_def on_read_Some_iff parse_base128_integer_Some_iff
      split: if_splits)

lemma unat_and_mask: "unat ((w :: 'a::len word) AND mask k) < 2 ^ k"
  by (simp flip: take_bit_eq_mask add: unsigned_take_bit_eq)

lemma tag_enc_join:
  assumes "unat n < 2 ^ 29"
  shows "tag_enc (tag_join b n) =
    (if unat n < 31 then [(b AND 0xe0) OR of_nat (unat n)]
     else ((b AND 0xe0) OR 0x1f) # b128_enc (unat n))"
  using tag_join_number [OF assms, of b] tag_join_lead [OF assms, of b]
  by (simp add: tag_enc_def tag_masks(4) Let_def)

lemma parse_asn1_tag_sound:
  assumes "parse_asn1_tag s = (Some t, r)"
  shows "valid_tag t \<and> s = tag_enc t @ r"
proof -
  obtain b s' where s: "s = b # s'"
    using assms by (cases s) (auto simp: parse_asn1_tag_def)
  show ?thesis
  proof (cases "b AND 0x1f = 0x1f")
    case True
    then obtain v :: uint64 where v: "s' = b128_enc (unat v) @ r" "31 \<le> unat v"
        "unat v < 2 ^ 29" "t = tag_join b (ucast v)" and t: "valid_tag t"
      using assms s by (auto simp: parse_asn1_tag_cases)
    have "unat (ucast v :: uint32) = unat v"
      using v(3) by (simp add: unsigned_ucast_eq take_bit_nat_eq_self)
    with t v s True lead_split [of b] show ?thesis
      by (simp add: tag_enc_join)
  next
    case False
    define m where "m = b AND 0x1f"
    have t: "valid_tag t" "r = s'" "t = tag_join b (ucast m)"
      using False assms s by (auto simp: parse_asn1_tag_cases m_def)
    have "unat m < 2 ^ 5" unfolding m_def tag_masks(1) by (rule unat_and_mask)
    moreover have "unat m \<noteq> 31" using False by (simp add: m_def word_unat_eq_iff)
    ultimately have "unat m < 31" by simp
    moreover from this have "unat (ucast m :: uint32) = unat m"
      by (simp add: unsigned_ucast_eq take_bit_nat_eq_self)
    ultimately show ?thesis
      using t s lead_split [of b] by (simp add: tag_enc_join m_def)
  qed
qed

lemma parse_asn1_tag_complete:
  assumes "valid_tag t"
  shows "parse_asn1_tag (tag_enc t @ r) = (Some t, r)"
proof -
  define n :: CBS_ASN1_TAG where "n = t AND mask 29"
  have n: "unat n < 2 ^ 29" unfolding n_def by (rule unat_and_mask)
  show ?thesis
  proof (cases "unat n < 31")
    case True
    define m :: byte where "m = of_nat (unat n)"
    have m: "unat m = unat n" using True by (simp add: m_def unat_of_nat take_bit_nat_eq_self del: of_nat_unat)
    then have "m AND 0xe0 = 0"
      using True bit_small_word [of m 5] by (intro bit_word_eqI) (auto simp: tag_masks bit_simps)
    note parts = lead_parts [OF this, of t]
    have "ucast m = n"
      using m by (simp add: word_unat_eq_iff unat_ucast_up)
    moreover have "m \<noteq> 0x1f" using m True by auto
    moreover have "tag_enc t = [tag_lead t OR m]"
      using True by (simp add: tag_enc_def tag_masks(4) m_def n_def Let_def)
    ultimately show ?thesis
      using assms parts tag_join_eq [OF parts(1)] by (simp add: parse_asn1_tag_cases n_def)
  next
    case False
    have "(0x1f :: byte) AND 0xe0 = 0" by simp
    note parts = lead_parts [OF this, of t]
    have "unat (ucast n :: uint64) = unat n" by (simp add: unat_ucast_up)
    moreover have "ucast (ucast n :: uint64) = n"
      by (rule bit_word_eqI) (simp add: bit_simps)
    ultimately show ?thesis
      using assms False n parts tag_join_eq [OF parts(1), folded n_def]
      by (auto simp: tag_enc_def tag_masks(4) Let_def n_def [symmetric] parse_asn1_tag_cases
          intro!: exI [of _ "ucast n"])
  qed
qed

lemma tag_enc_nonempty [simp]: "tag_enc t \<noteq> []"
  by (simp add: tag_enc_def Let_def)

interpretation asn1_tag: codec parse_asn1_tag tag_enc valid_tag
  by unfold_locales (simp_all add: parse_asn1_tag_complete parse_asn1_tag_sound)

subsection \<open>Correctness of DER elements\<close>

text \<open>The DER length octets, minimal for their value, and the encoding of an element.\<close>

definition len_bytes :: "nat \<Rightarrow> nat" where
  "len_bytes n = (if n < 2 ^ 8 then 1 else if n < 2 ^ 16 then 2 else if n < 2 ^ 24 then 3 else 4)"

definition der_len :: "nat \<Rightarrow> byte list" where
  "der_len n =
     (if n < 128 then [of_nat n] else of_nat (128 + len_bytes n) # nat_be (len_bytes n) n)"

definition der_enc :: "CBS_ASN1_TAG \<Rightarrow> byte list \<Rightarrow> byte list" where
  "der_enc t c = tag_enc t @ der_len (length c) @ c"

definition der_element :: "CBS_ASN1_TAG \<Rightarrow> byte list \<Rightarrow> asn1_element" where
  "der_element t c =
     \<lparr>element = der_enc t c, out_tag = t,
      out_header_len = length (tag_enc t) + length (der_len (length c)),
      out_ber_found = False, out_indefinite = False\<rparr>"

lemma len_bytes_bounds:
  assumes "n < 2 ^ 32"
  shows "1 \<le> len_bytes n" "len_bytes n \<le> 4" "n < 256 ^ len_bytes n"
    "n = 0 \<or> 256 ^ (len_bytes n - 1) \<le> n"
  using assms by (auto simp: len_bytes_def)

lemma len_bytes_eq:
  assumes "1 \<le> k" "k \<le> 4" "256 ^ (k - 1) \<le> n" "n < 256 ^ k"
  shows "len_bytes n = k"
proof -
  have "k = 1 \<or> k = 2 \<or> k = 3 \<or> k = 4" using assms(1,2) by linarith
  then show ?thesis using assms(3,4) by (auto simp: len_bytes_def)
qed

lemma der_len_nonempty [simp]: "der_len n \<noteq> []"
  by (simp add: der_len_def)

lemma der_len_iff:
  assumes "n < 2 ^ 32"
  shows "der_len n = b # p \<longleftrightarrow>
    (if unat b < 128 then p = [] \<and> n = unat b
     else unat b = 128 + length p \<and> 1 \<le> length p \<and> length p \<le> 4 \<and> be_nat p = n \<and>
       128 \<le> n \<and> 256 ^ (length p - 1) \<le> n)"
proof
  note bounds = len_bytes_bounds [OF assms]
  have len: "unat (of_nat (128 + len_bytes n) :: byte) = 128 + len_bytes n"
    using bounds(2) by (intro unat_digit_byte) simp
  assume "der_len n = b # p"
  then show "if unat b < 128 then p = [] \<and> n = unat b
     else unat b = 128 + length p \<and> 1 \<le> length p \<and> length p \<le> 4 \<and> be_nat p = n \<and>
       128 \<le> n \<and> 256 ^ (length p - 1) \<le> n"
    using bounds len unat_digit_byte(1) [of n]
    by (auto simp: der_len_def be_nat_nat_be split: if_splits)
next
  assume R: "if unat b < 128 then p = [] \<and> n = unat b
     else unat b = 128 + length p \<and> 1 \<le> length p \<and> length p \<le> 4 \<and> be_nat p = n \<and>
       128 \<le> n \<and> 256 ^ (length p - 1) \<le> n"
  show "der_len n = b # p"
  proof (cases "unat b < 128")
    case False
    then have p: "unat b = 128 + length p" "1 \<le> length p" "length p \<le> 4" "be_nat p = n"
      "128 \<le> n" "256 ^ (length p - 1) \<le> n" using R by simp_all
    then have "len_bytes n = length p" using be_nat_bound [of p] by (intro len_bytes_eq) auto
    moreover have "b = of_nat (128 + length p)" using p(1) by (metis of_nat_unat_self)
    ultimately show ?thesis using p nat_be_be_nat [of p] by (simp add: der_len_def)
  qed (use R in \<open>simp add: der_len_def\<close>)
qed

lemma length_b128_digits: "n < 128 ^ k \<Longrightarrow> 0 < k \<Longrightarrow> length (b128_digits n) \<le> k"
proof (induction k arbitrary: n)
  case (Suc k)
  show ?case
  proof (cases "n < 128")
    case False
    then have "0 < k" using Suc.prems by (cases k) auto
    moreover have "n div 128 < 128 ^ k"
      using Suc.prems by (simp add: less_mult_imp_div_less mult.commute)
    ultimately show ?thesis
      using False Suc.IH [of "n div 128"] by (subst b128_digits.simps) simp
  qed (subst b128_digits.simps, simp)
qed simp

lemma length_tag_enc: "length (tag_enc t) \<le> 6"
proof -
  define n where "n = unat (t AND mask 29)"
  have "n < 2 ^ 29" unfolding n_def by (rule unat_and_mask)
  then have "length (b128_digits n) \<le> 5" by (intro length_b128_digits) simp_all
  moreover have "b128_digits n \<noteq> []"
    using canonical_b128_digits [of n] by (simp add: canonical_digits_def digit_list_def)
  ultimately have "length (b128_enc n) \<le> 5"
    by (simp add: b128_enc_def b128_bytes_def)
  then show ?thesis by (simp add: tag_enc_def tag_masks(4) Let_def n_def)
qed

lemma size_add_small: "a < 2 ^ 32 \<Longrightarrow> b < 2 ^ 32 \<Longrightarrow> size_add a b = a + b"
  by (rule size_add_exact) (simp add: SIZE_LIMIT_def)

lemma cbs_get_past: "cbs_get (p @ s) (k + length p) =
    (if length s < k then (None, p @ s) else (Some (p @ take k s), drop k s))"
  by (simp add: cbs_get_def)

text \<open>The two length forms, after a tag has been read.\<close>

lemma element_short_form:
  assumes "valid_tag t" "unat b < 128"
  shows "cbs_get_any_asn1_element ber_ok (tag_enc t @ b # s) =
    (if length s < unat b then (None, tag_enc t @ b # s)
     else (Some \<lparr>element = tag_enc t @ b # take (unat b) s, out_tag = t,
             out_header_len = length (tag_enc t) + 1,
             out_ber_found = False, out_indefinite = False\<rparr>, drop (unat b) s))"
proof -
  have b: "b AND 0x80 = 0" using assms(2) continuation_byte(1) [of b] by auto
  have "size_add (unat b) (length (tag_enc t) + 1) = unat b + length (tag_enc t @ [b])"
    using length_tag_enc [of t] assms(2) by (subst size_add_small) simp_all
  then show ?thesis
    using cbs_get_past [of "tag_enc t @ [b]" s "unat b"]
    by (simp add: cbs_get_any_asn1_element_def parse_asn1_tag_complete [OF assms(1)] b Let_def)
qed

lemma element_long_form:
  assumes "valid_tag t" "unat b = 128 + k" "1 \<le> k" "k \<le> 4" "length p = k"
  shows "cbs_get_any_asn1_element ber_ok (tag_enc t @ b # p @ s) =
    (let minimal = (128 \<le> be_nat p \<and> 256 ^ (k - 1) \<le> be_nat p)
     in if \<not> minimal \<and> \<not> ber_ok \<or> length s < be_nat p then (None, tag_enc t @ b # p @ s)
        else (Some \<lparr>element = tag_enc t @ b # p @ take (be_nat p) s, out_tag = t,
                out_header_len = length (tag_enc t) + 1 + k,
                out_ber_found = \<not> minimal, out_indefinite = False\<rparr>, drop (be_nat p) s))"
proof -
  define len where "len = be_nat p"
  define v :: uint64 where "v = of_nat len"
  have b: "b AND 0x80 \<noteq> 0" "unat (b AND 0x7f) = k"
    using assms(2,4) continuation_byte [of b] by simp_all
  have "len < 256 ^ k" using be_nat_bound [of p] assms(5) by (simp add: len_def)
  also have "\<dots> \<le> 256 ^ 4" using assms(4) by (intro power_increasing) simp_all
  finally have small: "len < 2 ^ 32" by simp
  then have v: "unat v = len" by (simp add: v_def unat_of_nat take_bit_nat_eq_self)
  have "unat (drop_bit ((k - 1) * 8) v) = len div 2 ^ ((k - 1) * 8)"
    by (simp only: unat_drop_bit v)
  also have "(2::nat) ^ ((k - 1) * 8) = 256 ^ (k - 1)"
    by (simp only: mult.commute [of "k - 1"] power_mult) simp
  finally have long: "drop_bit ((k - 1) * 8) v = 0 \<longleftrightarrow> \<not> 256 ^ (k - 1) \<le> len"
    by (metis div_eq_0_iff not_less power_not_zero unat_eq_zero zero_neq_numeral)
  have short: "v < 128 \<longleftrightarrow> \<not> 128 \<le> len" by (simp add: word_less_nat_alt v not_le)
  have h: "length (tag_enc t) + 1 < 2 ^ 31" "k < 2 ^ 31" "k < 2 ^ 32"
    using length_tag_enc [of t] assms(4) by simp_all
  have sizes: "size_add (length (tag_enc t) + 1) k = length (tag_enc t) + 1 + k"
    "size_add (size_add len (length (tag_enc t) + 1)) k = len + (length (tag_enc t) + 1 + k)"
    "size_add len (length (tag_enc t) + 1 + k) = len + (length (tag_enc t) + 1 + k)"
    using small h by (simp_all add: size_add_def SIZE_LIMIT_def)
  show ?thesis
    using cbs_get_past [of "tag_enc t @ b # p" s len] assms(3-5) b long short sizes v small
    by (simp add: cbs_get_any_asn1_element_def parse_asn1_tag_complete [OF assms(1)] Let_def
        flip: len_def v_def)
qed

lemma element_bad_length:
  assumes "valid_tag t" "128 \<le> unat b"
    "k = unat b - 128" "k = 0 \<and> (\<not> ber_ok \<or> t AND CBS_ASN1_CONSTRUCTED = 0) \<or> 4 < k \<or> 0 < k \<and> length s < k"
  shows "cbs_get_any_asn1_element ber_ok (tag_enc t @ b # s) = (None, tag_enc t @ b # s)"
proof -
  have b: "b AND 0x80 \<noteq> 0" using assms(2) continuation_byte(1) [of b] by simp
  have "unat (b AND 0x7f) = k"
    using assms(2,3) continuation_byte(2) [of b] byte_less [of b]
    by (simp add: le_mod_geq)
  then show ?thesis using assms(4) b
    by (auto simp: cbs_get_any_asn1_element_def parse_asn1_tag_complete [OF assms(1)] Let_def
        cbs_get_u_short)
qed

lemma CBS_get_any_asn1_element_complete:
  assumes "valid_tag t" "length c < 2 ^ 32"
  shows "CBS_get_any_asn1_element (der_enc t c @ r) = (Some (der_element t c), r)"
proof -
  obtain b p where bp: "der_len (length c) = b # p"
    by (cases "der_len (length c)") simp_all
  then have R: "if unat b < 128 then p = [] \<and> length c = unat b
     else unat b = 128 + length p \<and> 1 \<le> length p \<and> length p \<le> 4 \<and> be_nat p = length c \<and>
       128 \<le> length c \<and> 256 ^ (length p - 1) \<le> length c"
    using der_len_iff [OF assms(2)] by blast
  show ?thesis
  proof (cases "unat b < 128")
    case True
    then show ?thesis
      using R bp element_short_form [OF assms(1) True, of False "c @ r"]
      by (simp add: CBS_get_any_asn1_element_def der_enc_def der_element_def)
  next
    case False
    then show ?thesis
      using R bp element_long_form [OF assms(1), of b "length p" p False "c @ r"]
      by (simp add: CBS_get_any_asn1_element_def der_enc_def der_element_def Let_def)
  qed
qed

lemma CBS_get_any_asn1_element_sound:
  assumes "CBS_get_any_asn1_element s = (Some e, r)"
  shows "\<exists>t c. valid_tag t \<and> length c < 2 ^ 32 \<and> s = der_enc t c @ r \<and> e = der_element t c"
proof -
  obtain t h where tag: "parse_asn1_tag s = (Some t, h)"
    using assms
    by (auto simp: CBS_get_any_asn1_element_def cbs_get_any_asn1_element_def split: prod.splits option.splits)
  then have t: "valid_tag t" "s = tag_enc t @ h" by (auto dest: parse_asn1_tag_sound)
  obtain b s' where h: "h = b # s'"
    using assms tag
    by (cases h) (auto simp: CBS_get_any_asn1_element_def cbs_get_any_asn1_element_def)
  define k where "k = unat b - 128"
  have read: "cbs_get_any_asn1_element False (tag_enc t @ b # s') = (Some e, r)"
    using assms t h by (simp add: CBS_get_any_asn1_element_def)
  have ok: "1 \<le> k \<and> k \<le> 4 \<and> k \<le> length s'" if "128 \<le> unat b"
    using element_bad_length [OF t(1) that k_def, of False s'] read by force
  show ?thesis
  proof (cases "unat b < 128")
    case True
    then have "r = drop (unat b) s'" "unat b \<le> length s'"
      using element_short_form [OF t(1) True, of False s'] read by (auto split: if_splits)
    moreover have "der_len (unat b) = [b]" using True by (simp add: der_len_def)
    ultimately show ?thesis
      using True t h element_short_form [OF t(1) True, of False s'] read
      by (intro exI [of _ t] exI [of _ "take (unat b) s'"])
         (auto simp: der_enc_def der_element_def min_absorb2)
  next
    case False
    define p q where "p = take k s'" and "q = drop k s'"
    have s': "s' = p @ q" "length p = k" using ok False by (auto simp: p_def q_def)
    have long: "unat b = 128 + k" "1 \<le> k" "k \<le> 4" using ok False by (auto simp: k_def)
    note form = element_long_form [OF t(1) long s'(2), of False q]
    then have min: "128 \<le> be_nat p" "256 ^ (k - 1) \<le> be_nat p" "be_nat p \<le> length q"
      and r: "r = drop (be_nat p) q" using read s' by (auto simp: Let_def split: if_splits)
    have "be_nat p < 256 ^ k" using be_nat_bound [of p] s' by simp
    also have "\<dots> \<le> 256 ^ 4" using long by (intro power_increasing) simp_all
    finally have small: "be_nat p < 2 ^ 32" by simp
    have "der_len (be_nat p) = b # p"
      unfolding der_len_iff [OF small] using False long s' min by simp
    then show ?thesis
      using form read s' min small t h r
      by (intro exI [of _ t] exI [of _ "take (be_nat p) q"])
         (auto simp: der_enc_def der_element_def Let_def)
  qed
qed

lemma CBS_get_any_asn1_element_iff [reader_simps]:
  "CBS_get_any_asn1_element s = (Some e, r) \<longleftrightarrow>
    (\<exists>t c. valid_tag t \<and> length c < 2 ^ 32 \<and> s = der_enc t c @ r \<and> e = der_element t c)"
  using CBS_get_any_asn1_element_complete CBS_get_any_asn1_element_sound by metis

lemma der_element_simps [simp]:
  "element (der_element t c) = der_enc t c"
  "out_tag (der_element t c) = t"
  "CBS_skip (der_enc t c) (out_header_len (der_element t c)) = (Some (), c)"
  by (simp_all add: der_element_def der_enc_def CBS_skip_def cbs_get_def)

lemma on_read_element:
  "on_read (CBS_get_any_asn1_element s) f = (Some b, r) \<longleftrightarrow>
    (\<exists>t c u. valid_tag t \<and> length c < 2 ^ 32 \<and> s = der_enc t c @ u \<and>
       f (der_element t c) u = (Some b, r))"
  unfolding on_read_Some_iff CBS_get_any_asn1_element_iff by blast

lemma CBS_get_asn1_Some_iff [reader_simps]:
  "CBS_get_asn1 t s = (Some c, r) \<longleftrightarrow> valid_tag t \<and> length c < 2 ^ 32 \<and> s = der_enc t c @ r"
  by (auto simp: CBS_get_asn1_def cbs_get_asn1_def on_read_element split: if_splits)

lemma CBS_get_asn1_element_Some_iff [reader_simps]:
  "CBS_get_asn1_element t s = (Some e, r) \<longleftrightarrow>
    (\<exists>c. valid_tag t \<and> length c < 2 ^ 32 \<and> e = der_enc t c \<and> s = e @ r)"
  by (auto simp: CBS_get_asn1_element_def cbs_get_asn1_def on_read_element split: if_splits)

lemma CBS_get_any_asn1_Some_iff [reader_simps]:
  "CBS_get_any_asn1 s = (Some (c, t), r) \<longleftrightarrow>
    valid_tag t \<and> length c < 2 ^ 32 \<and> s = der_enc t c @ r"
  by (auto simp: CBS_get_any_asn1_def on_read_element)

lemma der_enc_nonempty [simp]: "der_enc t c \<noteq> []"
  by (simp add: der_enc_def)

interpretation der: codec CBS_get_any_asn1 "\<lambda>(c, t). der_enc t c"
  "\<lambda>(c, t). valid_tag t \<and> length c < 2 ^ 32"
  by unfold_locales (auto simp: CBS_get_any_asn1_Some_iff)

lemma CBS_peek_asn1_tag_iff:
  "CBS_peek_asn1_tag s t \<longleftrightarrow> valid_tag t \<and> (\<exists>r. s = tag_enc t @ r)"
proof -
  have "CBS_peek_asn1_tag s t \<longleftrightarrow> (\<exists>r. parse_asn1_tag s = (Some t, r))"
    by (cases "parse_asn1_tag s") (auto simp: CBS_peek_asn1_tag_def split: option.splits)
  then show ?thesis by (simp add: asn1_tag.read_Some_iff)
qed

text \<open>An optional field is skipped only when the next element does not carry its tag.\<close>

lemma CBS_get_optional_asn1_Some_iff:
  "CBS_get_optional_asn1 t s = (Some p, r) \<longleftrightarrow>
    (case p of
       Some c \<Rightarrow> valid_tag t \<and> length c < 2 ^ 32 \<and> s = der_enc t c @ r
     | None \<Rightarrow> r = s \<and> \<not> (valid_tag t \<and> (\<exists>u. s = tag_enc t @ u)))"
  by (auto simp: CBS_get_optional_asn1_def CBS_peek_asn1_tag_iff on_read_Some_iff
      CBS_get_asn1_Some_iff der_enc_def split: option.splits)

end
