(* ===== verification/Asn1_Integer.thy ===== *)
theory Asn1_Integer
  imports Cbs_Asn1
begin

unbundle bit_operations_syntax

text \<open>
  ASN.1 INTEGER contents: the two's complement value of a byte string, the minimality check of
  \<^verbatim>\<open>CBS_is_valid_asn1_integer\<close> and the 64-bit readers. The check is shown to single out one
  representation per integer, and the readers to return the value of the contents whenever it fits.
\<close>

subsection \<open>Two's complement values\<close>

definition sbe_int :: "byte list \<Rightarrow> int" where
  "sbe_int bs =
     (if bs \<noteq> [] \<and> 128 \<le> unat (hd bs) then int (be_nat bs) - 256 ^ length bs else int (be_nat bs))"

definition minimal_int :: "byte list \<Rightarrow> bool" where
  "minimal_int bs \<longleftrightarrow> CBS_is_valid_asn1_integer bs \<noteq> None"

lemma valid_integer_Nil [simp]: "CBS_is_valid_asn1_integer [] = None"
  by (simp add: CBS_is_valid_asn1_integer_def)

lemma valid_integer_single [simp]: "CBS_is_valid_asn1_integer [b] = Some (128 \<le> unat b)"
  by (simp add: CBS_is_valid_asn1_integer_def continuation_byte)

lemma valid_integer_Cons2:
  "CBS_is_valid_asn1_integer (a # b # bs) =
    (if a = 0 \<and> unat b < 128 \<or> a = 0xff \<and> 128 \<le> unat b then None else Some (128 \<le> unat a))"
  using continuation_byte(1) [of a] continuation_byte(1) [of b]
  by (auto simp: CBS_is_valid_asn1_integer_def not_le)

lemma sbe_int_hd: "bs \<noteq> [] \<Longrightarrow> sbe_int bs < 0 \<longleftrightarrow> 128 \<le> unat (hd bs)"
proof -
  have "int (be_nat bs) < 256 ^ length bs"
    using be_nat_bound [of bs] by (metis of_nat_less_iff of_nat_numeral of_nat_power)
  then show "bs \<noteq> [] \<Longrightarrow> ?thesis" by (simp add: sbe_int_def)
qed

lemma valid_integer_sign:
  "CBS_is_valid_asn1_integer bs = Some neg \<Longrightarrow> bs \<noteq> [] \<and> minimal_int bs \<and> (neg \<longleftrightarrow> sbe_int bs < 0)"
  by (cases bs rule: remdups_adj.cases)
     (auto simp: minimal_int_def sbe_int_hd valid_integer_Cons2 split: if_splits)

lemma minimal_int_iff_valid:
  "minimal_int bs \<longleftrightarrow> CBS_is_valid_asn1_integer bs = Some (sbe_int bs < 0)"
  using valid_integer_sign by (auto simp: minimal_int_def)

lemma sbe_int_Cons:
  "sbe_int (b # bs) = (if 128 \<le> unat b then int (unat b) - 256 else int (unat b)) * 256 ^ length bs + int (be_nat bs)"
  by (simp add: sbe_int_def be_nat_Cons algebra_simps)

text \<open>The values that need exactly \<open>n\<close> bytes.\<close>

definition fits :: "int \<Rightarrow> nat \<Rightarrow> bool" where
  "fits v n \<longleftrightarrow> - (2 ^ (8 * n)) \<le> 2 * v \<and> 2 * v < 2 ^ (8 * n)"

lemma fits_mono: "fits v m \<Longrightarrow> m \<le> n \<Longrightarrow> fits v n"
proof -
  assume "fits v m" "m \<le> n"
  moreover have "(2::int) ^ (8 * m) \<le> 2 ^ (8 * n)"
    using \<open>m \<le> n\<close> by (intro power_increasing) simp_all
  ultimately show ?thesis unfolding fits_def by linarith
qed

lemma pow256: "(256 :: int) ^ n = 2 ^ (8 * n)"
  by (simp add: power_mult)

lemma be_nat_int_bound: "int (be_nat bs) < 2 ^ (8 * length bs)"
  using be_nat_bound [of bs] unfolding pow256 [symmetric]
  by (metis of_nat_less_iff of_nat_numeral of_nat_power)

lemma sbe_int_fits:
  assumes "bs \<noteq> []"
  shows "fits (sbe_int bs) (length bs)"
proof -
  obtain b cs where bs: "bs = b # cs" using assms by (cases bs) auto
  define n where "n = unat b"
  define x y where "x = int n" and "y = int (be_nat cs)"
  define k where "k = (2::int) ^ (8 * length cs)"
  have y: "0 \<le> y" "y < k" using be_nat_int_bound [of cs] by (simp_all add: y_def k_def)
  have x: "0 \<le> x" "x \<le> 255" using byte_le [of b] unfolding x_def n_def [symmetric] by linarith+
  define s where "s = (if 128 \<le> x then x - 256 else x)"
  have s: "-128 \<le> s" "s \<le> 127" using x by (auto simp: s_def)
  have "-128 * k \<le> s * k" "s * k \<le> 127 * k"
    using s y by (intro mult_right_mono; linarith)+
  then have "- 128 * k \<le> s * k + y" "s * k + y < 128 * k" using y by linarith+
  moreover have "sbe_int bs = s * k + y"
    unfolding bs sbe_int_Cons n_def [symmetric] by (simp add: s_def x_def y_def k_def pow256)
  moreover have "(2::int) ^ (8 * length bs) = 256 * k" by (simp add: bs k_def power_add)
  ultimately show ?thesis by (simp add: fits_def)
qed

lemma minimal_not_fits:
  assumes "minimal_int bs" "2 \<le> length bs"
  shows "\<not> fits (sbe_int bs) (length bs - 1)"
proof -
  obtain a b cs where bs: "bs = a # b # cs"
    using assms(2) by (cases bs rule: remdups_adj.cases) auto
  define m n where "m = unat a" and "n = unat b"
  define x z y where "x = int m" and "z = int n" and "y = int (be_nat cs)"
  define k where "k = (2::int) ^ (8 * length cs)"
  have y: "0 \<le> y" "y < k" using be_nat_int_bound [of cs] by (simp_all add: y_def k_def)
  have xz: "0 \<le> x" "x \<le> 255" "0 \<le> z" "z \<le> 255"
    using byte_le [of a] byte_le [of b] unfolding x_def z_def m_def [symmetric] n_def [symmetric]
    by linarith+
  have "a = 0xff \<longleftrightarrow> m = 255" "a = 0 \<longleftrightarrow> m = 0" by (simp_all add: word_unat_eq_iff m_def)
  then have minimal: "\<not> (x = 0 \<and> z < 128)" "\<not> (x = 255 \<and> 128 \<le> z)"
    using assms(1)
    by (auto simp: bs minimal_int_def valid_integer_Cons2 x_def z_def n_def [symmetric]
        split: if_splits)
  define s where "s = (if 128 \<le> x then x - 256 else x)"
  define t where "t = s * 256 + z"
  have "t < -128 \<or> 128 \<le> t" using xz minimal by (auto simp: t_def s_def)
  then have "t * k \<le> - 129 * k \<or> 128 * k \<le> t * k"
    using y mult_right_mono [of t "-129" k] mult_right_mono [of 128 t k] by linarith
  then have "t * k + y < - 128 * k \<or> 128 * k \<le> t * k + y" using y by linarith
  moreover have "sbe_int bs = t * k + y"
    unfolding bs sbe_int_Cons be_nat_Cons m_def [symmetric] n_def [symmetric]
    by (simp add: t_def s_def x_def z_def y_def k_def pow256 algebra_simps)
  moreover have "(2::int) ^ (8 * (length bs - 1)) = 256 * k" by (simp add: bs k_def power_add)
  ultimately show ?thesis by (auto simp: fits_def)
qed

lemma minimal_int_length:
  assumes "minimal_int as" "minimal_int bs" "sbe_int as = sbe_int bs"
  shows "length as \<le> length bs"
proof (rule ccontr)
  assume longer: "\<not> length as \<le> length bs"
  have ne: "bs \<noteq> []" using assms(2) by (auto simp: minimal_int_def)
  then have "fits (sbe_int bs) (length as - 1)"
    using longer by (intro fits_mono [OF sbe_int_fits]) auto
  moreover have "2 \<le> length as" using longer ne by (cases bs) auto
  ultimately show False using minimal_not_fits [OF assms(1)] assms(3) by simp
qed

lemma sbe_int_mod: "sbe_int bs mod 256 ^ length bs = int (be_nat bs)"
proof -
  have "sbe_int bs mod 256 ^ length bs = int (be_nat bs) mod 256 ^ length bs"
    by (simp add: sbe_int_def)
  then show ?thesis using be_nat_int_bound [of bs] by (simp add: pow256)
qed

lemma minimal_int_unique:
  assumes "minimal_int as" "minimal_int bs" "sbe_int as = sbe_int bs"
  shows "as = bs"
proof -
  have "length as = length bs"
    using minimal_int_length [OF assms] minimal_int_length [OF assms(2,1) assms(3) [symmetric]] by simp
  moreover from this have "be_nat as = be_nat bs"
    using sbe_int_mod [of as] sbe_int_mod [of bs] assms(3) by simp
  ultimately show ?thesis by (rule be_nat_inj)
qed

subsection \<open>The 64-bit readers\<close>

lemma shift_in_exact:
  assumes "drop_bit 56 v = (0 :: uint64)"
  shows "unat (shift_in v b) = unat v * 256 + unat b"
proof -
  have "unat v div 2 ^ 56 = 0" using assms unat_drop_bit [of 56 v] by simp
  then have v: "unat v < 2 ^ 56" by (simp add: div_eq_0_iff)
  have small: "unat v * 256 + unat b < 2 ^ 64"
  proof -
    have "unat v * 256 + 256 \<le> 2 ^ 64" using v by simp
    then show ?thesis using byte_less [of b] by linarith
  qed
  have "shift_in v b = of_nat (unat v * 256 + unat b)" by (simp add: shift_in_eq)
  then show ?thesis using small by (simp only: unat_of_nat) (simp add: take_bit_nat_eq_self)
qed

lemma asn1_uint64_loop_iff:
  "asn1_uint64_loop v bs = Some w \<longleftrightarrow> unat w = unat v * 256 ^ length bs + be_nat bs"
proof (induction bs arbitrary: v)
  case Nil
  then show ?case by (auto simp: word_unat_eq_iff)
next
  case (Cons b bs)
  show ?case
  proof (cases "drop_bit 56 v = 0")
    case True
    then show ?thesis
      using Cons.IH [of "shift_in v b"]
      by (simp add: shift_in_exact be_nat_Cons algebra_simps)
  next
    case False
    then have "unat (drop_bit 56 v) \<noteq> 0" by (simp only: unat_eq_zero not_False_eq_True)
    then have "2 ^ 56 \<le> unat v" by (simp only: unat_drop_bit) (simp add: div_eq_0_iff)
    then have "2 ^ 64 \<le> unat v * 256" by simp
    also have "\<dots> \<le> unat v * 256 ^ length (b # bs)" by simp
    finally have "2 ^ 64 \<le> unat v * 256 ^ length (b # bs) + be_nat (b # bs)" by linarith
    moreover have "unat w < 2 ^ 64" using unsigned_less [where 'a = nat, of w] by simp
    ultimately show ?thesis using False by auto
  qed
qed

lemma CBS_is_unsigned_asn1_integer_iff:
  "CBS_is_unsigned_asn1_integer bs \<longleftrightarrow> minimal_int bs \<and> 0 \<le> sbe_int bs"
  by (cases "CBS_is_valid_asn1_integer bs")
     (auto simp: CBS_is_unsigned_asn1_integer_def minimal_int_def dest: valid_integer_sign)

lemma sbe_int_nonneg: "0 \<le> sbe_int bs \<Longrightarrow> sbe_int bs = int (be_nat bs)"
  using sbe_int_hd [of bs] by (cases "bs = []") (auto simp: sbe_int_def)

lemma CBS_get_asn1_uint64_with_tag_iff [reader_simps]:
  "CBS_get_asn1_uint64_with_tag t s = (Some w, r) \<longleftrightarrow>
    valid_tag t \<and>
    (\<exists>c. minimal_int c \<and> sbe_int c = int (unat w) \<and> length c < 2 ^ 32 \<and> s = der_enc t c @ r)"
proof -
  have "CBS_is_unsigned_asn1_integer c \<and> asn1_uint64_loop 0 c = Some w \<longleftrightarrow>
      minimal_int c \<and> sbe_int c = int (unat w)" for c
    using sbe_int_nonneg [of c]
    by (auto simp: CBS_is_unsigned_asn1_integer_iff asn1_uint64_loop_iff simp del: of_nat_unat)
  then show ?thesis
    by (auto simp: CBS_get_asn1_uint64_with_tag_def on_read_Some_iff CBS_get_asn1_Some_iff
        split: if_splits)
qed

lemma be_nat_replicate_ff: "int (be_nat (replicate m 0xff)) = 256 ^ m - 1"
  by (induction m) (simp_all add: be_nat_Cons)

lemma be_nat_replicate_0: "be_nat (replicate m 0) = 0"
  by (induction m) (simp_all add: be_nat_Cons)

lemma sign_extend_value:
  assumes "c \<noteq> []" "length c \<le> 8"
  shows "(of_nat (be_nat (replicate (8 - length c) (if sbe_int c < 0 then 0xff else 0) @ c)) :: uint64)
    = of_int (sbe_int c)"
proof (cases "sbe_int c < 0")
  case True
  define n m where "n = length c" and "m = 8 - length c"
  have mn: "m + n = 8" using assms(2) by (simp add: m_def n_def)
  have "int (be_nat (replicate m 0xff @ c)) = (256 ^ m - 1) * 256 ^ n + int (be_nat c)"
    by (simp add: be_nat_append n_def be_nat_replicate_ff)
  also have "\<dots> = 256 ^ (m + n) - 256 ^ n + int (be_nat c)"
    by (simp add: algebra_simps power_add)
  also have "\<dots> = 2 ^ 64 + sbe_int c"
    unfolding mn using True sbe_int_hd [OF assms(1)] assms(1) by (simp add: sbe_int_def n_def)
  finally have "(of_int (int (be_nat (replicate m 0xff @ c))) :: uint64) = of_int (2 ^ 64 + sbe_int c)"
    by simp
  then show ?thesis using True by (simp add: m_def)
next
  case False
  then show ?thesis
    using sbe_int_nonneg [of c] by (simp add: be_nat_append be_nat_replicate_0)
qed

lemma fits_8_iff: "fits v 8 \<longleftrightarrow> - (2 ^ 63) \<le> v \<and> v < 2 ^ 63"
  by (auto simp: fits_def)

lemma minimal_int_fits_length:
  assumes "minimal_int c" "fits (sbe_int c) n" "0 < n"
  shows "length c \<le> n"
proof (rule ccontr)
  assume "\<not> length c \<le> n"
  then have "fits (sbe_int c) (length c - 1)" using assms(2) by (intro fits_mono [OF assms(2)]) simp
  then show False
    using minimal_not_fits [OF assms(1)] \<open>\<not> length c \<le> n\<close> assms(3) by simp
qed

lemma sint_of_int_fits:
  "fits v 8 \<Longrightarrow> sint (of_int v :: uint64) = v"
  by (simp add: fits_8_iff signed_of_int signed_take_bit_int_eq_self)

lemma sint_fits: "fits (sint (w :: uint64)) 8"
  using sint_ge [of w] sint_lt [of w] by (simp add: fits_8_iff)

lemma int64_contents_iff:
  assumes "minimal_int c"
  shows "length c \<le> 8 \<and>
      (of_nat (be_nat (replicate (8 - length c) (if sbe_int c < 0 then 0xff else 0) @ c)) :: uint64) = w
    \<longleftrightarrow> sbe_int c = sint w"
proof -
  have ne: "c \<noteq> []" using assms by (auto simp: minimal_int_def)
  show ?thesis
  proof
    assume L: "length c \<le> 8 \<and>
      (of_nat (be_nat (replicate (8 - length c) (if sbe_int c < 0 then 0xff else 0) @ c)) :: uint64) = w"
    then have "fits (sbe_int c) 8" using sbe_int_fits [OF ne] fits_mono by blast
    with L ne show "sbe_int c = sint w" by (auto simp: sign_extend_value sint_of_int_fits)
  next
    assume R: "sbe_int c = sint w"
    then have "length c \<le> 8"
      using minimal_int_fits_length [OF assms, of 8] sint_fits [of w] by simp
    then show "length c \<le> 8 \<and>
      (of_nat (be_nat (replicate (8 - length c) (if sbe_int c < 0 then 0xff else 0) @ c)) :: uint64) = w"
      by (simp only: sign_extend_value [OF ne]) (simp add: R)
  qed
qed

lemma CBS_get_asn1_int64_with_tag_iff [reader_simps]:
  "CBS_get_asn1_int64_with_tag t s = (Some w, r) \<longleftrightarrow>
    valid_tag t \<and> (\<exists>c. minimal_int c \<and> sbe_int c = sint w \<and> s = der_enc t c @ r)"
proof -
  let ?body = "\<lambda>c u. case CBS_is_valid_asn1_integer c of
         None \<Rightarrow> (None, u)
       | Some is_negative \<Rightarrow>
           if length c > 8 then (None, u)
           else
             (let sign_extend = replicate 8 (if is_negative then 0xff else 0)
              in (Some (CRYPTO_load_u64_be (take (8 - length c) sign_extend @ c)), u))"
  have body: "?body c u = (Some w, r) \<longleftrightarrow> u = r \<and> minimal_int c \<and> sbe_int c = sint w" for c u
  proof (cases "minimal_int c")
    case True
    then have "CBS_is_valid_asn1_integer c = Some (sbe_int c < 0)"
      by (simp add: minimal_int_iff_valid)
    then have "?body c u = (Some w, r) \<longleftrightarrow> u = r \<and> length c \<le> 8 \<and>
      of_nat (be_nat (replicate (8 - length c) (if sbe_int c < 0 then 0xff else 0) @ c)) = w"
      by (auto simp: load_be_eq Let_def)
    then show ?thesis using True by (simp only: int64_contents_iff [OF True]) simp
  qed (simp add: minimal_int_def)
  have "length c < 2 ^ 32" if "minimal_int c" "sbe_int c = sint w" for c
    using int64_contents_iff [OF that(1), of w] that(2) by simp
  then show ?thesis
    unfolding CBS_get_asn1_int64_with_tag_def on_read_Some_iff CBS_get_asn1_Some_iff body by blast
qed

lemma CBS_get_asn1_bool_iff [reader_simps]:
  "CBS_get_asn1_bool s = (Some v, r) \<longleftrightarrow>
    s = der_enc CBS_ASN1_BOOLEAN [if v then 0xff else 0] @ r"
proof -
  have "valid_tag CBS_ASN1_BOOLEAN"
    by (simp add: valid_tag_def CBS_ASN1_BOOLEAN_def CBS_ASN1_CONSTRUCTED_def CBS_ASN1_TAG_SHIFT_def)
  then have read: "CBS_get_asn1 CBS_ASN1_BOOLEAN s = (Some c, r) \<longleftrightarrow>
      length c < 2 ^ 32 \<and> s = der_enc CBS_ASN1_BOOLEAN c @ r" for c
    by (simp add: CBS_get_asn1_Some_iff)
  show ?thesis
  proof
    assume "CBS_get_asn1_bool s = (Some v, r)"
    then obtain c where "CBS_get_asn1 CBS_ASN1_BOOLEAN s = (Some c, r)"
        "c = [if v then 0xff else 0]"
      by (auto simp: CBS_get_asn1_bool_def on_read_Some_iff Let_def length_Suc_conv
          split: if_splits)
    then show "s = der_enc CBS_ASN1_BOOLEAN [if v then 0xff else 0] @ r" by (simp add: read)
  next
    assume "s = der_enc CBS_ASN1_BOOLEAN [if v then 0xff else 0] @ r"
    then have "CBS_get_asn1 CBS_ASN1_BOOLEAN s = (Some [if v then 0xff else 0], r)"
      unfolding read by simp
    then show "CBS_get_asn1_bool s = (Some v, r)"
      by (simp add: CBS_get_asn1_bool_def Let_def)
  qed
qed

subsection \<open>Bit strings\<close>

lemma CBS_is_valid_asn1_bitstring_iff:
  "CBS_is_valid_asn1_bitstring s \<longleftrightarrow>
    (\<exists>u bs. s = u # bs \<and> unat u \<le> 7 \<and>
       (u \<noteq> 0 \<longrightarrow> bs \<noteq> [] \<and> (\<forall>i < unat u. \<not> bit (last bs) i)))"
proof (cases s)
  case Nil
  then show ?thesis by (simp add: CBS_is_valid_asn1_bitstring_def)
next
  case (Cons u bs)
  have low: "(x AND (push_bit k 1 - 1) = 0) \<longleftrightarrow> (\<forall>i<k. \<not> bit x i)" if "k \<le> 7" for x :: byte and k
  proof -
    have "push_bit k 1 - 1 = (mask k :: byte)" by (simp add: mask_eq_exp_minus_1 push_bit_eq_mult)
    moreover have "i < k \<Longrightarrow> i < 8" for i using that by simp
    ultimately show ?thesis by (simp only: bit_eq_iff) (auto simp: bit_simps)
  qed
  have u: "7 < u \<longleftrightarrow> \<not> unat u \<le> 7" by (simp add: word_less_nat_alt not_le)
  show ?thesis
    using Cons low [of "unat u"]
    by (cases bs rule: rev_cases) (auto simp: CBS_is_valid_asn1_bitstring_def u CBS_get_last_u8_def)
qed

lemma CBS_asn1_bitstring_has_bit_iff:
  "CBS_asn1_bitstring_has_bit s n \<longleftrightarrow>
    CBS_is_valid_asn1_bitstring s \<and> unat n div 8 + 1 < length s \<and>
    bit (s ! (unat n div 8 + 1)) (7 - unat n mod 8)"
proof -
  have "unat (drop_bit 3 n) = unat n div 8" by (simp only: unat_drop_bit) simp
  moreover have "unat n < 2 ^ 32" using unsigned_less [where 'a = nat, of n] by simp
  ultimately have b: "unat (drop_bit 3 n + 1) = unat n div 8 + 1"
    by (subst unat_word_ariths) simp
  have "n AND 7 = take_bit 3 n" by (simp add: take_bit_eq_mask mask_eq_exp_minus_1)
  then have m: "unat (n AND 7) = unat n mod 8" by (simp add: take_bit_eq_mod unat_mod)
  then have i: "unat (7 - (n AND 7)) = 7 - unat n mod 8"
    by (subst unat_sub) (simp_all add: word_le_nat_alt)
  have "x AND push_bit k 1 \<noteq> 0 \<longleftrightarrow> bit x k" if "k < 8" for x :: byte and k
    using and_exp_eq_0_iff_not_bit [of x k] by (simp add: push_bit_eq_mult)
  then show ?thesis
    by (auto simp: CBS_asn1_bitstring_has_bit_def Let_def b i)
qed

end
