(* ===== verification/Cbb_Correct.thy ===== *)
theory Cbb_Correct
  imports Cbb
begin

unbundle bit_operations_syntax

text \<open>
  Correctness of the builder: the invariant of the chain of open children, the exact effect of
  reserving, appending and flushing, and the refinement of the shared buffer to a stack of
  open frames whose encodings are nested when they are closed.
\<close>

subsection \<open>Reserving space\<close>

definition cbb_room :: "cbb_st \<Rightarrow> bool" where
  "cbb_room c \<longleftrightarrow> length (buf c) \<le> cap c \<and> cap c < SIZE_LIMIT"

lemma reserve_fails:
  "cbb_buffer_reserve heap n c = (False, c') \<Longrightarrow> c' = c\<lparr>cbb_error := True\<rparr>"
  by (auto simp: cbb_buffer_reserve_def Let_def split: if_splits)

lemma reserve_succeeds:
  assumes "cbb_buffer_reserve heap n c = (True, c')" "cbb_room c" "n < SIZE_LIMIT"
  shows "\<exists>m. c' = c\<lparr>cap := m\<rparr> \<and> length (buf c) + n \<le> m \<and> cap c \<le> m \<and> m < SIZE_LIMIT"
proof -
  have len: "length (buf c) < SIZE_LIMIT" using assms(2) by (auto simp: cbb_room_def)
  have newlen: "size_add (length (buf c)) n = length (buf c) + n" "length (buf c) + n < SIZE_LIMIT"
    using assms(1) size_add_wraps_iff [OF len assms(3)]
    by (auto simp: cbb_buffer_reserve_def Let_def size_add_exact split: if_splits)
  have "x mod SIZE_LIMIT < SIZE_LIMIT" for x by (simp add: SIZE_LIMIT_def)
  moreover have "c = c\<lparr>cap := cap c\<rparr>" by simp
  ultimately show ?thesis
    using assms(1,2) newlen
    by (cases "length (buf c) + n \<le> cap c")
       (auto simp: cbb_buffer_reserve_def cbb_room_def Let_def intro: exI [of _ "cap c"]
         split: if_splits)
qed

text \<open>Growing succeeds whenever the allocator does and the sizes stay clear of the limit.\<close>

lemma reserve_total:
  assumes "\<forall>m. heap m" "can_resize c" "cbb_room c" "length (buf c) + n < 2 ^ 62" "cap c < 2 ^ 62"
  shows "\<exists>m. cbb_buffer_reserve heap n c = (True, c\<lparr>cap := m\<rparr>) \<and> m < 2 ^ 63"
proof -
  have "size_add (length (buf c)) n = length (buf c) + n"
    using assms(4) by (simp add: size_add_exact SIZE_LIMIT_def)
  moreover have "OPENSSL_malloc heap m" if "m < 2 ^ 63" for m
    using that assms(1) by (simp add: OPENSSL_malloc_def size_add_def SIZE_LIMIT_def OPENSSL_MALLOC_PREFIX_def)
  moreover have "(cap c * 2) mod SIZE_LIMIT = cap c * 2"
    using assms(5) by (simp add: SIZE_LIMIT_def)
  moreover have "c\<lparr>cap := cap c\<rparr> = c" by simp
  ultimately show ?thesis
    using assms(2-5)
    by (cases "length (buf c) + n \<le> cap c")
       (auto simp: cbb_buffer_reserve_def Let_def cbb_room_def intro: exI [of _ "cap c"])
qed

lemma add_fails:
  "cbb_buffer_add heap bytes c = (False, c') \<Longrightarrow> c' = c\<lparr>cbb_error := True\<rparr>"
  by (auto simp: cbb_buffer_add_def dest: reserve_fails split: prod.splits bool.splits)

lemma add_succeeds:
  assumes "cbb_buffer_add heap bytes c = (True, c')" "cbb_room c" "length bytes < SIZE_LIMIT"
  shows "\<exists>m. c' = c\<lparr>buf := buf c @ bytes, cap := m\<rparr> \<and> cbb_room c' \<and> cap c \<le> m"
proof -
  obtain c1 where r: "cbb_buffer_reserve heap (length bytes) c = (True, c1)"
      and c': "c' = c1\<lparr>buf := buf c1 @ bytes\<rparr>"
    using assms(1) by (auto simp: cbb_buffer_add_def split: prod.splits bool.splits)
  from reserve_succeeds [OF r assms(2,3)] obtain m where
    "c1 = c\<lparr>cap := m\<rparr>" "length (buf c) + length bytes \<le> m" "cap c \<le> m" "m < SIZE_LIMIT" by blast
  then show ?thesis using c' by (auto simp: cbb_room_def intro!: exI [of _ m])
qed

subsection \<open>Writing one length prefix\<close>

definition frame_fits :: "cbb_child_st \<Rightarrow> byte list \<Rightarrow> bool" where
  "frame_fits ch s \<longleftrightarrow>
     (if pending_is_asn1 ch then length s \<le> 0xfffffffe else length s < 256 ^ pending_len_len ch)"

definition close_frame :: "cbb_child_st \<Rightarrow> byte list \<Rightarrow> byte list" where
  "close_frame ch s =
     (if pending_is_asn1 ch then der_len (length s) @ s
      else nat_be (pending_len_len ch) (length s) @ s)"

definition child_ok :: "cbb_child_st \<Rightarrow> bool" where
  "child_ok ch \<longleftrightarrow> pending_len_len ch \<le> 8 \<and> (pending_is_asn1 ch \<longrightarrow> pending_len_len ch = 1)"

lemma buf_store_mid:
  "length pre = n \<Longrightarrow> length x = length y \<Longrightarrow> buf_store n x (pre @ y @ post) = pre @ x @ post"
  by (simp add: buf_store_def)

lemma of_nat_u64_eq_0_iff: "n < 2 ^ 64 \<Longrightarrow> (of_nat n :: uint64) = 0 \<longleftrightarrow> n = 0"
  by (simp add: word_unat_eq_iff unat_of_nat take_bit_nat_eq_self)

lemma flush_prefix_eq:
  assumes "buf c = pre @ z @ s" "length pre = off" "length z = k" "len < 2 ^ 64"
  shows "cbb_flush_prefix d off k len c =
    (let c = c\<lparr>buf := pre @ nat_be k len @ s\<rparr>
     in if len < 256 ^ k then (True, c\<lparr>children := take d (children c)\<rparr>)
        else (False, cbb_on_error d c))"
proof -
  have len: "unat (of_nat len :: uint64) = len"
    using assms(4) by (simp add: unat_of_nat take_bit_nat_eq_self)
  have "len div 256 ^ k < 2 ^ 64" using assms(4) div_le_dividend [of len "256 ^ k"] by linarith
  then have "(of_nat (len div 256 ^ k) :: uint64) = 0 \<longleftrightarrow> len < 256 ^ k"
    by (simp add: of_nat_u64_eq_0_iff div_eq_0_iff)
  then show ?thesis
    using assms(1-3) by (simp add: cbb_flush_prefix_def shift_out_eq len buf_store_mid Let_def)
qed

text \<open>
  A child with contents \<open>s\<close>, whose prefix bytes \<open>z\<close> follow \<open>pre\<close>: the three ways its length is
  written. A long ASN.1 length moves the contents along.
\<close>

lemma flush_child_fixed:
  assumes "buf c = pre @ z @ s" "length pre = offset ch" "length z = pending_len_len ch"
    "length (buf c) < SIZE_LIMIT" "\<not> pending_is_asn1 ch"
  shows "cbb_flush_child heap d ch c =
    (let c = c\<lparr>buf := pre @ close_frame ch s\<rparr>
     in if frame_fits ch s then (True, c\<lparr>children := take d (children c)\<rparr>)
        else (False, cbb_on_error d c))"
proof -
  have "size_add (offset ch) (pending_len_len ch) = offset ch + pending_len_len ch"
    using assms(1-4) by (intro size_add_exact) simp
  moreover have "length s < 2 ^ 64" using assms(1,4) by (simp add: SIZE_LIMIT_def)
  ultimately show ?thesis
    using assms(1-3,5) flush_prefix_eq [OF assms(1-3)]
    by (simp add: cbb_flush_child_def close_frame_def frame_fits_def Let_def)
qed

lemma flush_child_short:
  assumes "buf c = pre @ z @ s" "length pre = offset ch" "length z = pending_len_len ch"
    "length (buf c) < SIZE_LIMIT" "pending_is_asn1 ch" "pending_len_len ch = 1" "length s < 128"
  shows "cbb_flush_child heap d ch c =
    (True, c\<lparr>buf := pre @ close_frame ch s, children := take d (children c)\<rparr>)"
proof -
  have "size_add (offset ch) 1 = offset ch + 1"
    using assms(1-4,6) by (intro size_add_exact) simp
  moreover have "buf_store (offset ch) [of_nat (length s)] (buf c) =
      (pre @ [of_nat (length s)]) @ [] @ s"
    using assms(1-3,6) buf_store_mid [of pre "offset ch" "[of_nat (length s)]" z s] by simp
  ultimately show ?thesis
    using assms flush_prefix_eq [of "c\<lparr>buf := (pre @ [of_nat (length s)]) @ [] @ s\<rparr>"
        "pre @ [of_nat (length s)]" "[]" s "offset ch + 1" 0 0 d]
    by (simp add: cbb_flush_child_def close_frame_def der_len_def Let_def)
qed

lemma flush_child_too_long:
  assumes "buf c = pre @ z @ s" "length pre = offset ch" "length z = pending_len_len ch"
    "length (buf c) < SIZE_LIMIT" "pending_is_asn1 ch" "\<not> length s \<le> 0xfffffffe"
  shows "cbb_flush_child heap d ch c = (False, cbb_on_error d c)"
proof -
  have "size_add (offset ch) (pending_len_len ch) = offset ch + pending_len_len ch"
    using assms(1-4) by (intro size_add_exact) simp
  with assms show ?thesis by (simp add: cbb_flush_child_def Let_def)
qed

lemma memmove_gap:
  assumes "length pre = n" "length g = k"
  shows "buf_memmove (n + k) n (length s) (pre @ s @ g) = pre @ take k (s @ g) @ s"
  using assms by (simp add: buf_memmove_def buf_store_def)

lemma flush_child_long:
  assumes c: "buf c = pre @ z @ s" "length pre = offset ch" "length z = pending_len_len ch"
    and room: "length (buf c) < SIZE_LIMIT" "cbb_room c"
    and ch: "pending_is_asn1 ch" "pending_len_len ch = 1"
    and len: "128 \<le> length s" "length s \<le> 0xfffffffe"
  shows "cbb_flush_child heap d ch c =
    (case cbb_buffer_add heap (replicate (len_bytes (length s)) 0) c of
       (False, c') \<Rightarrow> (False, cbb_on_error d c')
     | (True, c') \<Rightarrow>
         (True, c'\<lparr>buf := pre @ close_frame ch s, children := take d (children c')\<rparr>))"
proof -
  define k where "k = len_bytes (length s)"
  have k: "1 \<le> k" "k \<le> 4" "length s < 256 ^ k"
    using len_bytes_bounds [of "length s"] len by (simp_all add: k_def)
  have start: "size_add (offset ch) 1 = offset ch + 1"
    using assms(1-4,7) by (intro size_add_exact) simp
  have choice: "(if length s > 0xffffff then (5, 0x80 OR 4, length s)
      else if length s > 0xffff then (4, 0x80 OR 3, length s)
      else if length s > 0xff then (3, 0x80 OR 2, length s)
      else if length s > 0x7f then (2, 0x80 OR 1, length s)
      else (1, of_nat (length s), 0)) = (k + 1, of_nat (128 + k) :: byte, length s)"
    using len by (simp add: k_def len_bytes_def)
  show ?thesis
  proof (cases "cbb_buffer_add heap (replicate k 0) c")
    case (Pair ok c')
    show ?thesis
    proof (cases ok)
      case False
      with Pair show ?thesis
        using c ch start choice len k
        by (simp add: cbb_flush_child_def Let_def k_def [symmetric])
    next
      case True
      have "k < SIZE_LIMIT" using k by (simp add: SIZE_LIMIT_def)
      then obtain m where c': "c' = c\<lparr>buf := buf c @ replicate k 0, cap := m\<rparr>"
        using add_succeeds [of heap "replicate k 0" c c'] Pair True room by auto
      define g where "g = take k (s @ replicate k (0 :: byte))"
      have "buf_memmove (offset ch + 1 + k) (offset ch + 1) (length s) (buf c') = pre @ z @ g @ s"
        using memmove_gap [of "pre @ z" "offset ch + 1" "replicate k 0" k s] c ch
        by (simp add: c' g_def)
      moreover have "buf_store (offset ch) [of_nat (128 + k)] (pre @ z @ g @ s) =
          (pre @ [of_nat (128 + k)]) @ g @ s"
        using buf_store_mid [of pre "offset ch" "[of_nat (128 + k)]" z "g @ s"] c ch by simp
      moreover have "length g = k" by (simp add: g_def)
      moreover have "length s < 2 ^ 64" using len by simp
      ultimately show ?thesis
        using Pair True c ch start choice len k
          flush_prefix_eq [of "c'\<lparr>buf := (pre @ [of_nat (128 + k)]) @ g @ s\<rparr>"
            "pre @ [of_nat (128 + k)]" g s "offset ch + 1" k "length s" d]
        by (simp add: cbb_flush_child_def close_frame_def der_len_def Let_def k_def [symmetric])
    qed
  qed
qed

lemma len_bytes_small [simp]: "len_bytes n < SIZE_LIMIT"
  by (simp add: len_bytes_def SIZE_LIMIT_def)

lemma flush_child_ok:
  assumes c: "buf c = pre @ z @ s" "length pre = offset ch" "length z = pending_len_len ch"
    and inv: "cbb_room c" "child_ok ch"
    and run: "cbb_flush_child heap d ch c = (True, c')"
  shows "frame_fits ch s \<and> cbb_room c' \<and>
    (\<exists>m. c' = c\<lparr>buf := pre @ close_frame ch s, cap := m, children := take d (children c)\<rparr>)"
proof -
  have small: "length (buf c) < SIZE_LIMIT" using inv(1) by (simp add: cbb_room_def)
  have same: "c1 = c1\<lparr>cap := cap c1\<rparr>" for c1 :: cbb_st by simp
  consider (fixed) "\<not> pending_is_asn1 ch"
    | (short) "pending_is_asn1 ch" "length s < 128"
    | (long) "pending_is_asn1 ch" "128 \<le> length s" "length s \<le> 0xfffffffe"
    | (too_long) "pending_is_asn1 ch" "\<not> length s \<le> 0xfffffffe" by linarith
  then show ?thesis
  proof cases
    case fixed
    then have "length (close_frame ch s) = length (z @ s)" using c by (simp add: close_frame_def)
    with fixed inv run show ?thesis
      using flush_child_fixed [OF c small fixed, of heap d] c
      by (auto simp: Let_def cbb_room_def intro!: exI [of _ "cap c"] split: if_splits)
  next
    case short
    then have p: "pending_len_len ch = 1" using inv(2) by (simp add: child_ok_def)
    have "length (close_frame ch s) = length (z @ s)"
      using c p short by (simp add: close_frame_def der_len_def)
    with short inv run show ?thesis
      using flush_child_short [OF c small short(1) p short(2), of heap d] c
      by (auto simp: cbb_room_def frame_fits_def intro!: exI [of _ "cap c"])
  next
    case long
    then have p: "pending_len_len ch = 1" using inv(2) by (simp add: child_ok_def)
    from run obtain c1 where add: "cbb_buffer_add heap (replicate (len_bytes (length s)) 0) c = (True, c1)"
      and c': "c' = c1\<lparr>buf := pre @ close_frame ch s, children := take d (children c1)\<rparr>"
      using flush_child_long [OF c small inv(1) long(1) p long(2,3), of heap d]
      by (auto split: prod.splits bool.splits)
    then obtain m where "c1 = c\<lparr>buf := buf c @ replicate (len_bytes (length s)) 0, cap := m\<rparr>"
      "cbb_room c1" using add_succeeds [OF add inv(1)] by auto
    then show ?thesis using c' long p c
      by (auto simp: frame_fits_def close_frame_def der_len_def cbb_room_def intro!: exI [of _ m])
  next
    case too_long
    then show ?thesis using run flush_child_too_long [OF c small too_long] by simp
  qed
qed

subsection \<open>The chain of open children\<close>

fun chain_ok :: "nat \<Rightarrow> cbb_child_st list \<Rightarrow> nat \<Rightarrow> bool" where
  "chain_ok start [] n \<longleftrightarrow> start \<le> n"
| "chain_ok start (ch # chs) n \<longleftrightarrow>
     start \<le> offset ch \<and> child_ok ch \<and> chain_ok (offset ch + pending_len_len ch) chs n"

definition cbb_inv :: "cbb_st \<Rightarrow> bool" where
  "cbb_inv c \<longleftrightarrow> cbb_room c \<and> chain_ok 0 (children c) (length (buf c))"

text \<open>
  The stack of open frames: what has been written at each level since its prefix, and before
  the prefix of the next level.
\<close>

fun segs :: "byte list \<Rightarrow> nat \<Rightarrow> cbb_child_st list \<Rightarrow> byte list list" where
  "segs b start [] = [drop start b]"
| "segs b start (ch # chs) =
     take (offset ch - start) (drop start b) # segs b (offset ch + pending_len_len ch) chs"

definition frames :: "cbb_st \<Rightarrow> byte list list" where
  "frames c = segs (buf c) 0 (children c)"

text \<open>Closing the inner frames of a stack: each one is prefixed by its length.\<close>

fun nest :: "cbb_child_st list \<Rightarrow> byte list list \<Rightarrow> byte list" where
  "nest [] ss = hd ss"
| "nest (ch # chs) ss = hd ss @ close_frame ch (nest chs (tl ss))"

fun nest_fits :: "cbb_child_st list \<Rightarrow> byte list list \<Rightarrow> bool" where
  "nest_fits [] ss \<longleftrightarrow> True"
| "nest_fits (ch # chs) ss \<longleftrightarrow> nest_fits chs (tl ss) \<and> frame_fits ch (nest chs (tl ss))"

lemma length_segs [simp]: "length (segs b start chs) = Suc (length chs)"
  by (induction chs arbitrary: start) simp_all

lemma chain_ok_le: "chain_ok start chs n \<Longrightarrow> start \<le> n"
proof (induction chs arbitrary: start)
  case (Cons ch chs)
  then have "offset ch + pending_len_len ch \<le> n" "start \<le> offset ch" by simp_all
  then show ?case by simp
qed simp

lemma chain_ok_snoc:
  "chain_ok start (chs @ [ch]) n \<longleftrightarrow>
    chain_ok start chs (offset ch) \<and> child_ok ch \<and> offset ch + pending_len_len ch \<le> n"
  by (induction chs arbitrary: start) auto

lemma chain_ok_mono: "chain_ok start chs m \<Longrightarrow> m \<le> n \<Longrightarrow> chain_ok start chs n"
  by (induction chs arbitrary: start) auto

lemma chain_ok_take: "chain_ok start chs n \<Longrightarrow> chain_ok start (take d chs) n"
proof (induction chs arbitrary: d start)
  case (Cons ch chs)
  then show ?case using chain_ok_le [of start "ch # chs" n] by (cases d) auto
qed simp

lemma segs_snoc:
  "chain_ok start (chs @ [ch]) (length b) \<Longrightarrow>
   segs b start (chs @ [ch]) =
     segs (take (offset ch) b) start chs @ [drop (offset ch + pending_len_len ch) b]"
proof (induction chs arbitrary: start)
  case Nil
  then show ?case by (simp add: drop_take)
next
  case (Cons x chs)
  then have "offset x \<le> offset ch"
    using chain_ok_le [of "offset x + pending_len_len x" chs "offset ch"]
    by (auto simp: chain_ok_snoc)
  then have "take (offset x - start) (drop start (take (offset ch) b)) =
      take (offset x - start) (drop start b)"
    by (simp add: drop_take min_absorb1 diff_le_mono)
  then show ?case using Cons by simp
qed

lemma segs_append:
  "chain_ok start chs (length b) \<Longrightarrow>
   segs (b @ t) start chs = butlast (segs b start chs) @ [last (segs b start chs) @ t]"
proof (induction chs arbitrary: start)
  case (Cons ch chs)
  then have "offset ch \<le> length b" "start \<le> offset ch"
    using chain_ok_le [of "offset ch + pending_len_len ch" chs "length b"] by auto
  moreover have "segs b (offset ch + pending_len_len ch) chs \<noteq> []"
    by (metis length_0_conv length_segs nat.distinct(1))
  ultimately show ?case using Cons by simp
qed simp

lemma frames_nonempty [simp]: "segs b start chs \<noteq> []"
  by (metis length_0_conv length_segs nat.distinct(1))

lemma flush_top_frame:
  assumes inv: "cbb_inv c" and chs: "children c = chs @ [ch]" and G: "frames c = G @ [N]"
    and run: "cbb_flush_child heap (length chs) ch c = (True, c')"
  shows "frame_fits ch N \<and> cbb_inv c' \<and> cbb_error c' = cbb_error c \<and>
    can_resize c' = can_resize c \<and> children c' = chs \<and>
    frames c' = butlast G @ [last G @ close_frame ch N]"
proof -
  define pre where "pre = take (offset ch) (buf c)"
  define z where "z = take (pending_len_len ch) (drop (offset ch) (buf c))"
  have ok: "chain_ok 0 chs (offset ch)" "child_ok ch"
      "offset ch + pending_len_len ch \<le> length (buf c)" and room: "cbb_room c"
    using inv chs by (auto simp: cbb_inv_def chain_ok_snoc)
  have "frames c = segs pre 0 chs @ [drop (offset ch + pending_len_len ch) (buf c)]"
    using inv chs segs_snoc [of 0 chs ch "buf c"] by (simp add: cbb_inv_def frames_def pre_def)
  then have G': "G = segs pre 0 chs" and N: "N = drop (offset ch + pending_len_len ch) (buf c)"
    using G by simp_all
  have "buf c = pre @ z @ N"
    by (simp add: pre_def z_def N) (metis add.commute append_take_drop_id drop_drop)
  moreover have "length pre = offset ch" "length z = pending_len_len ch"
    using ok(3) by (simp_all add: pre_def z_def)
  ultimately have fits: "frame_fits ch N" "cbb_room c'" and
    "\<exists>m. c' = c\<lparr>buf := pre @ close_frame ch N, cap := m, children := take (length chs) (children c)\<rparr>"
    using flush_child_ok [OF _ _ _ room ok(2) run, of pre z N] by simp_all
  then obtain m where
    c': "c' = c\<lparr>buf := pre @ close_frame ch N, cap := m, children := take (length chs) (children c)\<rparr>"
    by blast
  have "chain_ok 0 chs (length pre)" using ok \<open>length pre = offset ch\<close> by simp
  moreover from this have "chain_ok 0 chs (length (pre @ close_frame ch N))"
    by (rule chain_ok_mono) simp
  ultimately show ?thesis
    using fits c' chs G' segs_append [of 0 chs pre] by (simp add: cbb_inv_def frames_def)
qed

text \<open>Flushing at depth \<open>d\<close> closes the frames above it.\<close>

lemma CBB_flush_live:
  "CBB_flush heap d c = (True, c') \<Longrightarrow> d \<le> length (children c) \<and> \<not> cbb_error c"
  by (auto simp: CBB_flush.simps [of heap d c] split: if_splits)

lemma drop_frames:
  assumes "d < length F"
  shows "drop d F = F ! d # drop (Suc d) F"
  using assms by (rule Cons_nth_drop_Suc [symmetric])

lemma CBB_flush_frames:
  assumes "CBB_flush heap d c = (True, c')" "cbb_inv c"
  shows "cbb_inv c' \<and> \<not> cbb_error c' \<and> can_resize c' = can_resize c \<and>
    children c' = take d (children c) \<and>
    nest_fits (drop d (children c)) (drop d (frames c)) \<and>
    frames c' = take d (frames c) @ [nest (drop d (children c)) (drop d (frames c))]"
  using assms
proof (induction heap d c arbitrary: c' rule: CBB_flush.induct)
  case (1 heap d c)
  have live: "d \<le> length (children c)" "\<not> cbb_error c"
    using CBB_flush_live "1.prems"(1) by blast+
  have F: "length (frames c) = Suc (length (children c))" by (simp add: frames_def)
  show ?case
  proof (cases "d = length (children c)")
    case True
    then have "CBB_flush heap d c = (True, c)"
      using live by (subst CBB_flush.simps) simp
    then have "c' = c" using "1.prems"(1) by simp
    moreover have "take d (frames c) @ [hd (drop d (frames c))] = frames c"
      using F True by (simp add: hd_drop_conv_nth flip: take_Suc_conv_app_nth)
    ultimately show ?thesis using True live "1.prems"(2) by simp
  next
    case False
    with live have d: "d < length (children c)" by simp
    define ch where "ch = children c ! d"
    define N where "N = nest (drop (Suc d) (children c)) (drop (Suc d) (frames c))"
    from "1.prems"(1) live d obtain c1 where
      c1: "CBB_flush heap (Suc d) c = (True, c1)" and run: "cbb_flush_child heap d ch c1 = (True, c')"
      by (auto simp: CBB_flush.simps [of heap d c] ch_def split: prod.splits bool.splits if_splits)
    have IH: "cbb_inv c1" "\<not> cbb_error c1" "can_resize c1 = can_resize c"
      "children c1 = take d (children c) @ [ch]"
      "nest_fits (drop (Suc d) (children c)) (drop (Suc d) (frames c))"
      "frames c1 = take (Suc d) (frames c) @ [N]"
      using "1.IH" [OF _ False c1 "1.prems"(2)] live d
      by (simp_all add: ch_def N_def take_Suc_conv_app_nth)
    have top: "take (Suc d) (frames c) = take d (frames c) @ [frames c ! d]"
      using d F by (simp add: take_Suc_conv_app_nth)
    have len: "length (take d (children c)) = d" using d by simp
    have "drop d (children c) = ch # drop (Suc d) (children c)"
      "drop d (frames c) = frames c ! d # drop (Suc d) (frames c)"
      using d F by (simp_all add: ch_def Cons_nth_drop_Suc)
    then show ?thesis
      using flush_top_frame [OF IH(1,4,6), of heap c'] run len IH top by (simp add: N_def)
  qed
qed

subsection \<open>Failures\<close>

text \<open>A failing flush of a live object leaves the error flag set, and the flag is final.\<close>

lemma flush_child_fails:
  "cbb_flush_child heap d ch c = (False, c') \<Longrightarrow> cbb_error c'"
  by (auto simp: cbb_flush_child_def cbb_flush_prefix_def cbb_on_error_def Let_def
      split: if_splits prod.splits bool.splits)

lemma CBB_flush_fails:
  assumes "CBB_flush heap d c = (False, c')" "d \<le> length (children c)"
  shows "cbb_error c'"
proof (cases "cbb_error c \<or> d = length (children c)")
  case True
  then show ?thesis using assms by (auto simp: CBB_flush.simps [of heap d c] split: if_splits)
next
  case False
  then show ?thesis
    using assms flush_child_fails
    by (auto simp: CBB_flush.simps [of heap d c] cbb_on_error_def split: prod.splits bool.splits if_splits)
qed

lemma CBB_flush_error: "cbb_error c \<Longrightarrow> CBB_flush heap d c = (False, c)"
  by (simp add: CBB_flush.simps [of heap d c])

subsection \<open>Success\<close>

text \<open>
  The buffer can hold \<open>n\<close> bytes: it is already large enough, or it may grow and the allocator
  does not fail. The bounds keep capacity doubling clear of the size limit.
\<close>

definition can_grow :: "heap \<Rightarrow> cbb_st \<Rightarrow> nat \<Rightarrow> bool" where
  "can_grow heap c n \<longleftrightarrow>
     n < 2 ^ 61 \<and> cap c < 2 ^ 62 \<and> (n \<le> cap c \<or> can_resize c \<and> (\<forall>m. heap m))"

lemma reserve_grow:
  assumes "can_grow heap c n" "length (buf c) + k \<le> n"
  shows "\<exists>m. cbb_buffer_reserve heap k c = (True, c\<lparr>cap := m\<rparr>) \<and> can_grow heap (c\<lparr>cap := m\<rparr>) n"
proof -
  define newcap where "newcap = (if cap c * 2 < length (buf c) + k then length (buf c) + k else cap c * 2)"
  have newlen: "size_add (length (buf c)) k = length (buf c) + k"
    using assms by (simp add: size_add_exact SIZE_LIMIT_def can_grow_def)
  have same: "c\<lparr>cap := cap c\<rparr> = c" by simp
  show ?thesis
  proof (cases "length (buf c) + k \<le> cap c")
    case True
    then show ?thesis
      using assms(1) newlen by (intro exI [of _ "cap c"]) (simp add: cbb_buffer_reserve_def Let_def)
  next
    case False
    then have grow: "can_resize c" "\<forall>m. heap m" "n < 2 ^ 61"
      using assms by (auto simp: can_grow_def)
    have double: "(cap c * 2) mod SIZE_LIMIT = cap c * 2"
      using assms(1) by (simp add: SIZE_LIMIT_def can_grow_def)
    have newcap: "newcap < 2 ^ 62" using False assms(2) grow(3) by (auto simp: newcap_def)
    then have "OPENSSL_malloc heap newcap"
      using grow(2) by (simp add: OPENSSL_malloc_def size_add_def SIZE_LIMIT_def OPENSSL_MALLOC_PREFIX_def)
    then show ?thesis
      using False newlen double grow newcap
      by (intro exI [of _ newcap])
         (auto simp: cbb_buffer_reserve_def Let_def newcap_def can_grow_def)
  qed
qed

lemma add_grow:
  assumes "can_grow heap c n" "length (buf c) + length bytes \<le> n"
  shows "\<exists>m. cbb_buffer_add heap bytes c = (True, c\<lparr>buf := buf c @ bytes, cap := m\<rparr>) \<and>
    can_grow heap (c\<lparr>cap := m\<rparr>) n"
proof -
  obtain m where "cbb_buffer_reserve heap (length bytes) c = (True, c\<lparr>cap := m\<rparr>)"
    "can_grow heap (c\<lparr>cap := m\<rparr>) n" using reserve_grow [OF assms] by blast
  then show ?thesis by (intro exI [of _ m]) (simp add: cbb_buffer_add_def)
qed

lemma can_grow_cong:
  "cap c' = cap c \<Longrightarrow> can_resize c' = can_resize c \<Longrightarrow> can_grow heap c' n = can_grow heap c n"
  by (simp add: can_grow_def)

lemma flush_child_grow:
  assumes c: "buf c = pre @ z @ s" "length pre = offset ch" "length z = pending_len_len ch"
    and inv: "cbb_room c" "child_ok ch" and fits: "frame_fits ch s"
    and grow: "can_grow heap c n" "length (buf c) + 4 \<le> n"
  shows "\<exists>m. cbb_flush_child heap d ch c =
      (True, c\<lparr>buf := pre @ close_frame ch s, cap := m, children := take d (children c)\<rparr>) \<and>
    can_grow heap (c\<lparr>cap := m\<rparr>) n"
proof -
  have small: "length (buf c) < SIZE_LIMIT" using inv(1) by (simp add: cbb_room_def)
  have same: "c\<lparr>buf := x, cap := cap c, children := y\<rparr> = c\<lparr>buf := x, children := y\<rparr>" for x y by simp
  consider (fixed) "\<not> pending_is_asn1 ch"
    | (short) "pending_is_asn1 ch" "length s < 128"
    | (long) "pending_is_asn1 ch" "128 \<le> length s" "length s \<le> 0xfffffffe"
    using fits by (auto simp: frame_fits_def) linarith
  then show ?thesis
  proof cases
    case fixed
    then show ?thesis
      using flush_child_fixed [OF c small fixed, of heap d] fits grow(1)
      by (intro exI [of _ "cap c"]) (simp add: Let_def same)
  next
    case short
    then have p: "pending_len_len ch = 1" using inv(2) by (simp add: child_ok_def)
    then show ?thesis
      using flush_child_short [OF c small short(1) p short(2), of heap d] grow(1)
      by (intro exI [of _ "cap c"]) (simp add: same)
  next
    case long
    then have p: "pending_len_len ch = 1" using inv(2) by (simp add: child_ok_def)
    have "len_bytes (length s) \<le> 4" by (simp add: len_bytes_def)
    then obtain m where
      "cbb_buffer_add heap (replicate (len_bytes (length s)) 0) c =
         (True, c\<lparr>buf := buf c @ replicate (len_bytes (length s)) 0, cap := m\<rparr>)"
      "can_grow heap (c\<lparr>cap := m\<rparr>) n"
      using add_grow [OF grow(1), of "replicate (len_bytes (length s)) 0"] grow(2) by auto
    then show ?thesis
      using flush_child_long [OF c small inv(1) long(1) p long(2,3), of heap d]
      by (intro exI [of _ m]) simp
  qed
qed

lemma length_close_frame:
  "child_ok ch \<Longrightarrow> length (close_frame ch s) \<le> pending_len_len ch + length s + 4"
  by (auto simp: close_frame_def child_ok_def der_len_def len_bytes_def)

lemma flush_top_frame_grow:
  assumes inv: "cbb_inv c" and chs: "children c = chs @ [ch]" and G: "frames c = G @ [N]"
    and fits: "frame_fits ch N" and grow: "can_grow heap c n" "length (buf c) + 4 \<le> n"
  shows "\<exists>c'. cbb_flush_child heap (length chs) ch c = (True, c') \<and> can_grow heap c' n \<and>
    length (buf c') \<le> length (buf c) + 4"
proof -
  define pre where "pre = take (offset ch) (buf c)"
  define z where "z = take (pending_len_len ch) (drop (offset ch) (buf c))"
  have ok: "child_ok ch" "offset ch + pending_len_len ch \<le> length (buf c)" and room: "cbb_room c"
    using inv chs by (auto simp: cbb_inv_def chain_ok_snoc)
  have N: "N = drop (offset ch + pending_len_len ch) (buf c)"
    using G inv chs segs_snoc [of 0 chs ch "buf c"] by (simp add: cbb_inv_def frames_def)
  have split: "buf c = pre @ z @ N"
    by (simp add: pre_def z_def N) (metis add.commute append_take_drop_id drop_drop)
  have len: "length pre = offset ch" "length z = pending_len_len ch"
    using ok(2) by (simp_all add: pre_def z_def)
  obtain m where run: "cbb_flush_child heap (length chs) ch c =
      (True, c\<lparr>buf := pre @ close_frame ch N, cap := m, children := take (length chs) (children c)\<rparr>)"
    and m: "can_grow heap (c\<lparr>cap := m\<rparr>) n"
    using flush_child_grow [OF split len room ok(1) fits grow] by blast
  have "length (pre @ close_frame ch N) \<le> length (buf c) + 4"
    using length_close_frame [OF ok(1), of N] split len by simp
  with run m show ?thesis by (auto simp: can_grow_def)
qed

lemma CBB_flush_grow:
  assumes "cbb_inv c" "\<not> cbb_error c" "d \<le> length (children c)"
    "nest_fits (drop d (children c)) (drop d (frames c))"
    "can_grow heap c n" "length (buf c) + 4 * (length (children c) - d) \<le> n"
  shows "\<exists>c'. CBB_flush heap d c = (True, c') \<and> can_grow heap c' n \<and>
    length (buf c') \<le> length (buf c) + 4 * (length (children c) - d)"
  using assms
proof (induction heap d c rule: CBB_flush.induct)
  case (1 heap d c)
  have F: "length (frames c) = Suc (length (children c))" by (simp add: frames_def)
  show ?case
  proof (cases "d = length (children c)")
    case True
    then have "CBB_flush heap d c = (True, c)"
      using "1.prems"(2) by (subst CBB_flush.simps) simp
    then show ?thesis using "1.prems"(5) by auto
  next
    case False
    with "1.prems"(3) have d: "d < length (children c)" by simp
    define ch where "ch = children c ! d"
    define N where "N = nest (drop (Suc d) (children c)) (drop (Suc d) (frames c))"
    have drops: "drop d (children c) = ch # drop (Suc d) (children c)"
      "drop d (frames c) = frames c ! d # drop (Suc d) (frames c)"
      using d F by (simp_all add: ch_def Cons_nth_drop_Suc)
    have fits: "nest_fits (drop (Suc d) (children c)) (drop (Suc d) (frames c))" "frame_fits ch N"
      using "1.prems"(4) by (simp_all add: drops N_def)
    have "length (buf c) + 4 * (length (children c) - Suc d) \<le> n"
      using "1.prems"(6) d by linarith
    then obtain c1 where c1: "CBB_flush heap (Suc d) c = (True, c1)" "can_grow heap c1 n"
      "length (buf c1) \<le> length (buf c) + 4 * (length (children c) - Suc d)"
      using "1.IH" [OF _ False "1.prems"(1,2) _ fits(1) "1.prems"(5)] "1.prems"(2) d by auto
    have top: "children c1 = take d (children c) @ [ch]" "frames c1 = take (Suc d) (frames c) @ [N]"
      "cbb_inv c1"
      using CBB_flush_frames [OF c1(1) "1.prems"(1)] d
      by (simp_all add: ch_def N_def take_Suc_conv_app_nth)
    have room: "length (buf c1) + 4 \<le> n" "length (take d (children c)) = d"
      using c1(3) "1.prems"(6) d by simp_all
    obtain c' where "cbb_flush_child heap d ch c1 = (True, c')" "can_grow heap c' n"
      "length (buf c') \<le> length (buf c1) + 4"
      using flush_top_frame_grow [OF top(3,1,2) fits(2) c1(2) room(1)] room(2) by auto
    then show ?thesis
      using c1 d "1.prems"(2) by (subst CBB_flush.simps) (auto simp: ch_def)
  qed
qed

subsection \<open>The appending operations on frames\<close>

text \<open>
  What one appending call makes of the stack: the frames above depth \<open>d\<close> are closed and the
  bytes are added to the frame at \<open>d\<close>.
\<close>

definition append_frames ::
    "nat \<Rightarrow> byte list \<Rightarrow> cbb_child_st list \<Rightarrow> byte list list \<Rightarrow> byte list list" where
  "append_frames d bytes chs F = take d F @ [nest (drop d chs) (drop d F) @ bytes]"

lemma add_frames:
  assumes "cbb_buffer_add heap bytes c = (True, c')" "cbb_inv c" "length bytes < SIZE_LIMIT"
  shows "cbb_inv c' \<and> cbb_error c' = cbb_error c \<and> can_resize c' = can_resize c \<and>
    children c' = children c \<and> buf c' = buf c @ bytes \<and>
    frames c' = butlast (frames c) @ [last (frames c) @ bytes]"
proof -
  have room: "cbb_room c" and chain: "chain_ok 0 (children c) (length (buf c))"
    using assms(2) by (simp_all add: cbb_inv_def)
  obtain m where "c' = c\<lparr>buf := buf c @ bytes, cap := m\<rparr>" "cbb_room c'"
    using add_succeeds [OF assms(1) room assms(3)] by blast
  then show ?thesis
    using segs_append [OF chain, of bytes] chain_ok_mono [OF chain, of "length (buf c) + length bytes"]
    by (simp add: cbb_inv_def frames_def)
qed

lemma CBB_add_space_frames:
  assumes "CBB_add_space heap d bytes c = (True, c')" "cbb_inv c" "length bytes < SIZE_LIMIT"
  shows "cbb_inv c' \<and> \<not> cbb_error c' \<and> can_resize c' = can_resize c \<and>
    children c' = take d (children c) \<and>
    nest_fits (drop d (children c)) (drop d (frames c)) \<and>
    frames c' = append_frames d bytes (children c) (frames c)"
proof -
  obtain c1 where c1: "CBB_flush heap d c = (True, c1)" "cbb_buffer_add heap bytes c1 = (True, c')"
    using assms(1) by (auto simp: CBB_add_space_def split: prod.splits bool.splits)
  note flushed = CBB_flush_frames [OF c1(1) assms(2)]
  from flushed add_frames [OF c1(2) _ assms(3)] show ?thesis
    by (simp add: append_frames_def)
qed

lemma CBB_add_space_grow:
  assumes "cbb_inv c" "\<not> cbb_error c" "d \<le> length (children c)"
    "nest_fits (drop d (children c)) (drop d (frames c))"
    "can_grow heap c n" "length (buf c) + 4 * (length (children c) - d) + length bytes \<le> n"
  shows "\<exists>c'. CBB_add_space heap d bytes c = (True, c') \<and> can_grow heap c' n \<and>
    length (buf c') \<le> length (buf c) + 4 * (length (children c) - d) + length bytes"
proof -
  obtain c1 where c1: "CBB_flush heap d c = (True, c1)" "can_grow heap c1 n"
      "length (buf c1) \<le> length (buf c) + 4 * (length (children c) - d)"
    using CBB_flush_grow [OF assms(1-5)] assms(6) by auto
  then obtain m where "cbb_buffer_add heap bytes c1 = (True, c1\<lparr>buf := buf c1 @ bytes, cap := m\<rparr>)"
      "can_grow heap (c1\<lparr>cap := m\<rparr>) n"
    using add_grow [OF c1(2), of bytes] assms(6) by auto
  then show ?thesis using c1 by (auto simp: CBB_add_space_def can_grow_def)
qed

lemma shift_out_fits:
  "shift_out n v = (nat_be n (unat v), r) \<Longrightarrow> r = 0 \<longleftrightarrow> unat v < 256 ^ n"
proof -
  assume "shift_out n v = (nat_be n (unat v), r)"
  then have "r = of_nat (unat v div 256 ^ n)" by (simp add: shift_out_eq)
  moreover have "unat v div 256 ^ n < 2 ^ 64"
    using uint64_less [of v] div_le_dividend [of "unat v" "256 ^ n"] by linarith
  ultimately show ?thesis by (simp add: of_nat_u64_eq_0_iff div_eq_0_iff)
qed

lemma cbb_add_u_eq:
  "cbb_add_u heap d v k c =
    (case CBB_add_space heap d (nat_be k (unat v)) c of
       (False, c) \<Rightarrow> (False, c)
     | (True, c) \<Rightarrow> if unat v < 256 ^ k then (True, c) else (False, cbb_on_error d c))"
  using shift_out_fits [of k v]
  by (auto simp: cbb_add_u_def shift_out_eq Let_def split: prod.splits bool.splits)

lemma CBB_add_u8_eq: "CBB_add_u8 heap d v c = CBB_add_space heap d [v] c"
proof -
  have v: "unat (ucast v :: uint64) = unat v" by (simp add: unat_ucast_up)
  then have "nat_be 1 (unat (ucast v :: uint64)) = [v]" by simp
  then show ?thesis using v by (auto simp: CBB_add_u8_def cbb_add_u_eq split: prod.splits bool.splits)
qed

end
