(* ===== verification/Cbb_Wire.thy ===== *)
theory Cbb_Wire
  imports Cbb_Correct
begin

unbundle bit_operations_syntax

text \<open>
  The contract of an appending operation of the builder, and of an operation paired with a
  reader. An \<open>appender\<close> closes the frames above its depth and adds one encoding to the frame at
  that depth; a \<open>wire_format\<close> adds that a codec reads this encoding. The clients' facts, that
  sequences of calls produce concatenated encodings and that a finished buffer reads back, are
  proved once in the locales and reached through the interpretations on the operations.
\<close>

subsection \<open>Opening a child\<close>

definition cbb_open :: "nat \<Rightarrow> nat \<Rightarrow> bool \<Rightarrow> cbb_child_st" where
  "cbb_open off k asn1 = \<lparr>offset = off, pending_len_len = k, pending_is_asn1 = asn1\<rparr>"

lemma cbb_add_child_frames:
  assumes "cbb_add_child heap k asn1 c = (True, c')" "cbb_inv c" "k \<le> 8" "asn1 \<longrightarrow> k = 1"
  shows "cbb_inv c' \<and> cbb_error c' = cbb_error c \<and> can_resize c' = can_resize c \<and>
    children c' = children c @ [cbb_open (length (buf c)) k asn1] \<and>
    frames c' = frames c @ [[]]"
proof -
  let ?ch = "cbb_open (length (buf c)) k asn1"
  obtain c1 where c1: "cbb_buffer_add heap (replicate k 0) c = (True, c1)"
      and c': "c' = c1\<lparr>children := children c1 @ [?ch]\<rparr>"
    using assms(1) by (auto simp: cbb_add_child_def cbb_open_def split: prod.splits bool.splits)
  have "length (replicate k (0 :: byte)) < SIZE_LIMIT" using assms(3) by (simp add: SIZE_LIMIT_def)
  note added = add_frames [OF c1 assms(2) this]
  have chain: "chain_ok 0 (children c @ [?ch]) (length (buf c1))"
    using assms(2-4) added by (simp add: cbb_inv_def chain_ok_snoc cbb_open_def child_ok_def)
  then have "segs (buf c1) 0 (children c @ [?ch]) = frames c @ [[]]"
    using segs_snoc [OF chain] added by (simp add: cbb_open_def frames_def)
  then show ?thesis using added c' chain by (auto simp: cbb_inv_def frames_def cbb_room_def)
qed

lemma cbb_add_length_prefixed_frames:
  assumes "cbb_add_length_prefixed heap d k c = (True, c')" "cbb_inv c" "k \<le> 8"
  shows "cbb_inv c' \<and> \<not> cbb_error c' \<and> length (children c') = Suc d \<and>
    take d (children c') = take d (children c) \<and>
    pending_len_len (last (children c')) = k \<and> \<not> pending_is_asn1 (last (children c')) \<and>
    frames c' = append_frames d [] (children c) (frames c) @ [[]]"
proof -
  obtain c1 where c1: "CBB_flush heap d c = (True, c1)" "cbb_add_child heap k False c1 = (True, c')"
    using assms(1) by (auto simp: cbb_add_length_prefixed_def split: prod.splits bool.splits)
  show ?thesis
    using CBB_flush_frames [OF c1(1) assms(2)] CBB_flush_live [OF c1(1)]
      cbb_add_child_frames [OF c1(2) _ assms(3)]
    by (simp add: append_frames_def cbb_open_def)
qed

lemma CBB_finish_frames:
  assumes "CBB_finish heap has_out 0 c = (Some bytes, c')" "cbb_inv c"
  shows "nest_fits (children c) (frames c) \<and> bytes = nest (children c) (frames c)"
proof -
  have run: "CBB_flush heap 0 c = (True, c')" "bytes = buf c'"
    using assms(1) by (auto simp: CBB_finish_def split: prod.splits bool.splits if_splits)
  then show ?thesis
    using CBB_flush_frames [OF run(1) assms(2)] by (auto simp: frames_def)
qed

subsection \<open>Fresh builders\<close>

lemma cbb_init_inv: "n < SIZE_LIMIT \<Longrightarrow> cbb_inv (cbb_init n resize)"
  by (simp add: cbb_init_def cbb_inv_def cbb_room_def)

lemma cbb_init_frames [simp]:
  "frames (cbb_init n resize) = [[]]" "children (cbb_init n resize) = []"
  "\<not> cbb_error (cbb_init n resize)" "buf (cbb_init n resize) = []"
  by (simp_all add: cbb_init_def frames_def)

lemma CBB_init_eq: "CBB_init heap n = Some c \<Longrightarrow> c = cbb_init n True"
  by (auto simp: CBB_init_def split: if_splits)

subsection \<open>The contract of an appending operation\<close>

definition appended :: "nat \<Rightarrow> byte list \<Rightarrow> cbb_st \<Rightarrow> cbb_st \<Rightarrow> bool" where
  "appended d bytes c c' \<longleftrightarrow>
     d \<le> length (children c) \<and> cbb_inv c' \<and> \<not> cbb_error c' \<and> can_resize c' = can_resize c \<and>
     children c' = take d (children c) \<and>
     nest_fits (drop d (children c)) (drop d (frames c)) \<and>
     frames c' = append_frames d bytes (children c) (frames c)"

text \<open>The state lets an operation at depth \<open>d\<close> add \<open>k\<close> bytes within a buffer of \<open>n\<close>.\<close>

definition ready :: "heap \<Rightarrow> nat \<Rightarrow> nat \<Rightarrow> nat \<Rightarrow> cbb_st \<Rightarrow> bool" where
  "ready heap d k n c \<longleftrightarrow>
     cbb_inv c \<and> \<not> cbb_error c \<and> d \<le> length (children c) \<and>
     nest_fits (drop d (children c)) (drop d (frames c)) \<and> can_grow heap c n \<and>
     length (buf c) + 4 * (length (children c) - d) + k + 4 \<le> n"

fun add_all :: "(heap \<Rightarrow> nat \<Rightarrow> 'a \<Rightarrow> cbb_st \<Rightarrow> bool \<times> cbb_st) \<Rightarrow> heap \<Rightarrow> nat \<Rightarrow> 'a list \<Rightarrow>
    cbb_st \<Rightarrow> bool \<times> cbb_st" where
  "add_all app heap d [] c = (True, c)"
| "add_all app heap d (x # xs) c =
     (case app heap d x c of (False, c) \<Rightarrow> (False, c) | (True, c) \<Rightarrow> add_all app heap d xs c)"

lemma appended_top:
  assumes "appended 0 bytes c c'" "children c = []"
  shows "cbb_inv c' \<and> \<not> cbb_error c' \<and> children c' = [] \<and> buf c' = buf c @ bytes"
  using assms by (auto simp: appended_def append_frames_def frames_def)

text \<open>The buffer is the frames with the prefixes between them, so its length is determined.\<close>

lemma length_chain:
  "chain_ok start chs (length b) \<Longrightarrow>
   length b = start + sum_list (map length (segs b start chs)) + sum_list (map pending_len_len chs)"
proof (induction chs arbitrary: start)
  case (Cons ch chs)
  let ?next = "offset ch + pending_len_len ch"
  have "?next \<le> length b" "start \<le> offset ch"
    using Cons.prems chain_ok_le [of ?next chs "length b"] by auto
  then show ?case using Cons.IH [of ?next] Cons.prems by simp
qed simp

lemma length_nest:
  assumes "\<forall>ch\<in>set chs. child_ok ch" "length ss = Suc (length chs)"
  shows "length (nest chs ss) \<le>
    sum_list (map length ss) + sum_list (map pending_len_len chs) + 4 * length chs"
  using assms
proof (induction chs arbitrary: ss)
  case (Cons ch chs)
  then obtain s ss' where ss: "ss = s # ss'" by (cases ss) auto
  have "length (close_frame ch (nest chs ss')) \<le> pending_len_len ch + length (nest chs ss') + 4"
    using Cons.prems by (intro length_close_frame) simp
  then show ?case using Cons.IH [of ss'] Cons.prems ss by simp
qed (auto simp: length_Suc_conv)

lemma chain_children_ok: "chain_ok start chs n \<Longrightarrow> \<forall>ch\<in>set chs. child_ok ch"
  by (induction chs arbitrary: start) auto

lemma appended_length:
  assumes "appended d bytes c c'" "cbb_inv c"
  shows "length (buf c') \<le> length (buf c) + 4 * (length (children c) - d) + length bytes"
proof -
  let ?F = "frames c" and ?C = "children c"
  have d: "d \<le> length ?C" using assms(1) by (simp add: appended_def)
  have len: "length (buf x) = sum_list (map length (frames x)) + sum_list (map pending_len_len (children x))"
    if "cbb_inv x" for x
    using that length_chain [of 0 "children x" "buf x"] by (simp add: cbb_inv_def frames_def)
  have F: "length ?F = Suc (length ?C)" by (simp add: frames_def)
  have "\<forall>ch\<in>set (drop d ?C). child_ok ch"
    using assms(2) chain_children_ok [of 0 ?C] by (auto simp: cbb_inv_def dest: in_set_dropD)
  then have nest: "length (nest (drop d ?C) (drop d ?F)) \<le>
      sum_list (map length (drop d ?F)) + sum_list (map pending_len_len (drop d ?C)) +
      4 * (length ?C - d)"
    using length_nest [of "drop d ?C" "drop d ?F"] F d by (simp add: Suc_diff_le)
  have "sum_list (map g xs) = sum_list (map g (take d xs)) + sum_list (map g (drop d xs))"
    for g :: "'z \<Rightarrow> nat" and xs by (metis append_take_drop_id map_append sum_list_append)
  from this [of length ?F] this [of pending_len_len ?C] nest show ?thesis
    using len [OF assms(2)] len [of c'] assms(1) by (simp add: appended_def append_frames_def)
qed

lemma appended_trans:
  assumes "appended d a c c1" "appended d b c1 c2"
  shows "appended d (a @ b) c c2"
proof -
  have "length (frames c) = Suc (length (children c))" by (simp add: frames_def)
  with assms show ?thesis by (simp add: appended_def append_frames_def)
qed

lemma finish_top:
  assumes "CBB_finish heap has_out 0 c = (Some bytes, c')" "cbb_inv c" "children c = []"
  shows "bytes = buf c"
  using CBB_finish_frames [OF assms(1,2)] assms(3) by (simp add: frames_def)

text \<open>
  \<open>arg\<close> says which arguments the C types can express (a \<^verbatim>\<open>size_t\<close> length), \<open>fits\<close> which of them the
  operation accepts.
\<close>

locale appender =
  fixes app :: "heap \<Rightarrow> nat \<Rightarrow> 'a \<Rightarrow> cbb_st \<Rightarrow> bool \<times> cbb_st"
    and enc :: "'a \<Rightarrow> byte list"
    and arg :: "'a \<Rightarrow> bool"
    and fits :: "'a \<Rightarrow> bool"
  assumes appends: "app heap d x c = (True, c') \<Longrightarrow> arg x \<Longrightarrow> cbb_inv c \<Longrightarrow>
      fits x \<and> appended d (enc x) c c'"
    and succeeds: "fits x \<Longrightarrow> arg x \<Longrightarrow> ready heap d (length (enc x)) n c \<Longrightarrow>
      \<exists>c'. app heap d x c = (True, c') \<and> can_grow heap c' n"
begin

lemma add_all_top:
  assumes "add_all app heap 0 xs c = (True, c')" "\<forall>x\<in>set xs. arg x" "cbb_inv c" "children c = []"
  shows "cbb_inv c' \<and> children c' = [] \<and> buf c' = buf c @ concat (map enc xs)"
  using assms
proof (induction xs arbitrary: c)
  case (Cons x xs)
  then obtain c1 where c1: "app heap 0 x c = (True, c1)" "add_all app heap 0 xs c1 = (True, c')"
    by (auto split: prod.splits bool.splits)
  have "appended 0 (enc x) c c1" using appends [OF c1(1) _ Cons.prems(3)] Cons.prems(2) by simp
  from appended_top [OF this Cons.prems(4)] Cons.IH [OF c1(2)] Cons.prems(2) show ?case by simp
qed simp

lemma add_all_appended:
  assumes "add_all app heap d xs c = (True, c')" "xs \<noteq> []" "\<forall>x\<in>set xs. arg x" "cbb_inv c"
  shows "appended d (concat (map enc xs)) c c'"
  using assms
proof (induction xs arbitrary: c)
  case (Cons x xs)
  then obtain c1 where c1: "app heap d x c = (True, c1)" "add_all app heap d xs c1 = (True, c')"
    by (auto split: prod.splits bool.splits)
  have step: "appended d (enc x) c c1" using appends [OF c1(1) _ Cons.prems(4)] Cons.prems(3) by simp
  then have "cbb_inv c1" by (simp add: appended_def)
  then show ?case
    using step c1 Cons.IH [OF c1(2)] Cons.prems(3) appended_trans [OF step]
    by (cases "xs = []") simp_all
qed simp

lemma add_all_ready:
  assumes "\<forall>x\<in>set xs. fits x \<and> arg x" "ready heap d (length (concat (map enc xs))) n c" "xs \<noteq> []"
  shows "\<exists>c'. add_all app heap d xs c = (True, c') \<and> can_grow heap c' n"
  using assms
proof (induction xs arbitrary: c)
  case (Cons x xs)
  have "ready heap d (length (enc x)) n c" using Cons.prems(2) by (simp add: ready_def)
  then obtain c1 where c1: "app heap d x c = (True, c1)" "can_grow heap c1 n"
    using succeeds [of x heap d n c] Cons.prems(1) by auto
  have step: "appended d (enc x) c c1" "cbb_inv c"
    using appends [OF c1(1)] Cons.prems(1,2) by (simp_all add: ready_def)
  have d: "length (children c1) = d" "length (frames c1) = Suc d" "drop d (children c1) = []"
    using step by (auto simp: appended_def frames_def)
  show ?case
  proof (cases "xs = []")
    case False
    have "ready heap d (length (concat (map enc xs))) n c1"
      using step c1 d Cons.prems(2) appended_length [OF step] by (simp add: ready_def appended_def)
    then show ?thesis using Cons.IH [of c1] Cons.prems(1) False c1 by auto
  qed (use c1 in simp)
qed simp

lemma finished_bytes:
  assumes "CBB_init heap n = Some c0" "n < SIZE_LIMIT"
    "add_all app heap 0 xs c0 = (True, c1)" "CBB_finish heap True 0 c1 = (Some bytes, c2)" "\<forall>x\<in>set xs. arg x"
  shows "bytes = concat (map enc xs)"
proof -
  have "c0 = cbb_init n True" using assms(1) by (rule CBB_init_eq)
  then have "cbb_inv c0" "children c0 = []" "buf c0 = []" using assms(2) by (simp_all add: cbb_init_inv)
  with add_all_top [OF assms(3,5)] finish_top [OF assms(4)] show ?thesis by simp
qed

text \<open>Enough memory: every call succeeds and so does finishing.\<close>

lemma add_all_succeeds:
  assumes "\<forall>x\<in>set xs. fits x \<and> arg x" "cbb_inv c" "\<not> cbb_error c" "children c = []" "can_grow heap c n"
    "length (buf c) + length (concat (map enc xs)) + 4 \<le> n"
  shows "\<exists>c'. add_all app heap 0 xs c = (True, c') \<and> \<not> cbb_error c'"
  using assms
proof (induction xs arbitrary: c)
  case (Cons x xs)
  have "ready heap 0 (length (enc x)) n c"
    using Cons.prems by (simp add: ready_def)
  then obtain c1 where c1: "app heap 0 x c = (True, c1)" "can_grow heap c1 n"
    using succeeds [of x heap 0 n c] Cons.prems(1) by auto
  have "appended 0 (enc x) c c1" using appends [OF c1(1) _ Cons.prems(2)] Cons.prems(1) by simp
  note c1_top = appended_top [OF this Cons.prems(4)]
  have "length (buf c1) + length (concat (map enc xs)) + 4 \<le> n"
    using Cons.prems(6) c1_top by simp
  then show ?case using Cons.IH [of c1] c1 c1_top Cons.prems(1) by auto
qed simp

end

locale wire_format = appender app enc arg fits + codec rd enc valid
  for app :: "heap \<Rightarrow> nat \<Rightarrow> 'a \<Rightarrow> cbb_st \<Rightarrow> bool \<times> cbb_st"
    and enc :: "'a \<Rightarrow> byte list" and arg :: "'a \<Rightarrow> bool" and fits :: "'a \<Rightarrow> bool"
    and rd :: "'a reader" and valid :: "'a \<Rightarrow> bool"
begin

lemma reads_back:
  assumes "CBB_init heap n = Some c0" "n < SIZE_LIMIT"
    "add_all app heap 0 xs c0 = (True, c1)" "CBB_finish heap True 0 c1 = (Some bytes, c2)"
    "\<forall>x\<in>set xs. valid x \<and> arg x"
  shows "read_all (length bytes) rd bytes = Some xs"
  using finished_bytes [OF assms(1-4)] read_all_concat [of xs] assms(5) by simp

lemma reads_back_one:
  assumes "CBB_init heap n = Some c0" "n < SIZE_LIMIT"
    "app heap 0 x c0 = (True, c1)" "CBB_finish heap True 0 c1 = (Some bytes, c2)"
    "valid x" "arg x"
  shows "rd (bytes @ r) = (Some x, r)"
  using finished_bytes [OF assms(1,2), of "[x]" c1 bytes c2] assms(3-6) by (simp add: read_enc)

end

subsection \<open>Fixed-width integers\<close>

lemma CBB_add_space_live:
  "CBB_add_space heap d bytes c = (True, c') \<Longrightarrow> d \<le> length (children c)"
  by (auto simp: CBB_add_space_def dest: CBB_flush_live split: prod.splits bool.splits)

lemma add_space_appended:
  "CBB_add_space heap d bytes c = (True, c') \<Longrightarrow> length bytes < SIZE_LIMIT \<Longrightarrow> cbb_inv c \<Longrightarrow>
   appended d bytes c c'"
  using CBB_add_space_frames [of heap d bytes c c'] CBB_add_space_live [of heap d bytes c c']
  by (simp add: appended_def)

lemma add_space_ready:
  "ready heap d (length bytes) n c \<Longrightarrow>
   \<exists>c'. CBB_add_space heap d bytes c = (True, c') \<and> can_grow heap c' n"
  using CBB_add_space_grow [of c d heap n bytes] by (auto simp: ready_def)

lemma add_u_appender:
  assumes "LENGTH('a::len) \<le> 64" "k \<le> 8"
  shows "appender (\<lambda>heap d (v :: 'a word) c. cbb_add_u heap d (ucast v) k c)
    (\<lambda>v. nat_be k (unat v)) (\<lambda>_. True) (\<lambda>v. unat v < 256 ^ k)"
proof
  fix heap d and v :: "'a word" and c c' n
  have v: "unat (ucast v :: uint64) = unat v" using assms(1) by (simp add: unat_ucast_up)
  have small: "length (nat_be k (unat v)) < SIZE_LIMIT" using assms(2) by (simp add: SIZE_LIMIT_def)
  show "unat v < 256 ^ k \<and> appended d (nat_be k (unat v)) c c'"
    if "cbb_add_u heap d (ucast v) k c = (True, c')" "cbb_inv c"
    using that add_space_appended [OF _ small]
    by (auto simp: cbb_add_u_eq v split: prod.splits bool.splits if_splits)
  show "\<exists>c'. cbb_add_u heap d (ucast v) k c = (True, c') \<and> can_grow heap c' n"
    if "unat v < 256 ^ k" "ready heap d (length (nat_be k (unat v))) n c"
    using add_space_ready [OF that(2)] that(1) by (auto simp: cbb_add_u_eq v)
qed

interpretation wr_u8: appender CBB_add_u8 "\<lambda>v. [v]" "\<lambda>_. True" "\<lambda>_. True"
proof
  fix heap d v c c' n
  show "True \<and> appended d [v] c c'" if "CBB_add_u8 heap d v c = (True, c')" "cbb_inv c"
    using that add_space_appended [of heap d "[v]" c c'] by (simp add: CBB_add_u8_eq SIZE_LIMIT_def)
  show "\<exists>c'. CBB_add_u8 heap d v c = (True, c') \<and> can_grow heap c' n"
    if "ready heap d (length [v]) n c"
    using add_space_ready [OF that] by (simp only: CBB_add_u8_eq)
qed

interpretation wire_u8: wire_format CBB_add_u8 "\<lambda>v. [v]" "\<lambda>_. True" "\<lambda>_. True" CBS_get_u8 "\<lambda>_. True" ..

interpretation wire_u16: wire_format CBB_add_u16 "\<lambda>v. nat_be 2 (unat v)" "\<lambda>_. True"
  "\<lambda>v. unat v < 256 ^ 2" CBS_get_u16 "\<lambda>v. unat v < 256 ^ 2"
  unfolding CBB_add_u16_def [abs_def]
  by (intro wire_format.intro add_u_appender u16.codec_axioms) simp_all

interpretation wire_u24: wire_format CBB_add_u24 "\<lambda>v. nat_be 3 (unat v)" "\<lambda>_. True"
  "\<lambda>v. unat v < 256 ^ 3" CBS_get_u24 "\<lambda>v. unat v < 256 ^ 3"
  unfolding CBB_add_u24_def [abs_def]
  by (intro wire_format.intro add_u_appender u24.codec_axioms) simp_all

interpretation wire_u32: wire_format CBB_add_u32 "\<lambda>v. nat_be 4 (unat v)" "\<lambda>_. True"
  "\<lambda>v. unat v < 256 ^ 4" CBS_get_u32 "\<lambda>v. unat v < 256 ^ 4"
  unfolding CBB_add_u32_def [abs_def]
  by (intro wire_format.intro add_u_appender u32.codec_axioms) simp_all

lemma CBB_add_u64_eq: "CBB_add_u64 = (\<lambda>heap d v c. cbb_add_u heap d (ucast v) 8 c)"
  by (intro ext) (simp add: CBB_add_u64_def)

interpretation wire_u64: wire_format CBB_add_u64 "\<lambda>v. nat_be 8 (unat v)" "\<lambda>_. True"
  "\<lambda>v. unat v < 256 ^ 8" CBS_get_u64 "\<lambda>v. unat v < 256 ^ 8"
  unfolding CBB_add_u64_eq
  by (intro wire_format.intro add_u_appender u64.codec_axioms) simp_all

end
