(* ===== verification/Cbb_Asn1.thy ===== *)
theory Cbb_Asn1
  imports Cbb_Wire
begin

unbundle bit_operations_syntax

text \<open>
  The ASN.1 writers of \<^verbatim>\<open>crypto/bytestring/cbb.cc\<close>: base-128 integers, tags, elements, the 64-bit
  integers and booleans. Each is shown to be an appender for the encoding its reader accepts, and
  is paired with that reader, which gives the round trips.
\<close>

subsection \<open>The operations\<close>

text \<open>The two loops of \<^verbatim>\<open>add_base128_integer\<close>: counting the bytes, and writing byte \<open>i\<close> down to 0.\<close>

function base128_len_loop :: "uint64 \<Rightarrow> nat" where
  "base128_len_loop copy = (if copy > 0 then Suc (base128_len_loop (drop_bit 7 copy)) else 0)"
  by pat_completeness auto
termination
proof (relation "measure unat")
  fix copy :: uint64
  assume "copy > 0"
  then have "0 < unat copy" by (simp add: word_less_nat_alt)
  then have "unat copy div 2 ^ 7 < unat copy" by (intro div_less_dividend) simp_all
  then show "(drop_bit 7 copy, copy) \<in> measure unat"
    unfolding in_measure unat_drop_bit .
qed simp

declare base128_len_loop.simps [simp del]

fun base128_write_loop :: "heap \<Rightarrow> nat \<Rightarrow> uint64 \<Rightarrow> nat \<Rightarrow> cbb_st \<Rightarrow> bool \<times> cbb_st" where
  "base128_write_loop heap d v 0 c = (True, c)"
| "base128_write_loop heap d v (Suc i) c =
     (let b = ucast (drop_bit (7 * i) v AND 0x7f);
          b = (if i \<noteq> 0 then b OR 0x80 else b)
      in case CBB_add_u8 heap d b c of
           (False, c) \<Rightarrow> (False, c)
         | (True, c) \<Rightarrow> base128_write_loop heap d v i c)"

definition add_base128_integer :: "heap \<Rightarrow> nat \<Rightarrow> uint64 \<Rightarrow> cbb_st \<Rightarrow> bool \<times> cbb_st" where
  "add_base128_integer heap d v c =
     (let len_len = base128_len_loop v;
          len_len = (if len_len = 0 then 1 else len_len)
      in base128_write_loop heap d v len_len c)"

text \<open>The child opened by \<^verbatim>\<open>CBB_add_asn1\<close> on the object at depth \<open>d\<close> is at depth \<open>Suc d\<close>.\<close>

definition CBB_add_asn1 :: "heap \<Rightarrow> nat \<Rightarrow> CBS_ASN1_TAG \<Rightarrow> cbb_st \<Rightarrow> bool \<times> cbb_st" where
  "CBB_add_asn1 heap d tag c =
     (case CBB_flush heap d c of
        (False, c) \<Rightarrow> (False, c)
      | (True, c) \<Rightarrow>
          (let tag_bits = ucast (drop_bit CBS_ASN1_TAG_SHIFT tag AND 0xe0) :: byte;
               tag_number = tag AND CBS_ASN1_TAG_NUMBER_MASK;
               written =
                 (if 0x1f \<le> tag_number then
                    (case CBB_add_u8 heap d (tag_bits OR 0x1f) c of
                       (False, c) \<Rightarrow> (False, c)
                     | (True, c) \<Rightarrow> add_base128_integer heap d (ucast tag_number) c)
                  else CBB_add_u8 heap d (tag_bits OR ucast tag_number) c)
           in case written of
                (False, c) \<Rightarrow> (False, c)
              | (True, c) \<Rightarrow> cbb_add_child heap 1 True c))"

text \<open>
  The shape shared by the element writers: open a child, fill it with \<open>body\<close>, flush; any failure
  locks the builder.
\<close>

definition with_asn1_child ::
    "heap \<Rightarrow> nat \<Rightarrow> CBS_ASN1_TAG \<Rightarrow> (cbb_st \<Rightarrow> bool \<times> cbb_st) \<Rightarrow> cbb_st \<Rightarrow> bool \<times> cbb_st" where
  "with_asn1_child heap d tag body c =
     (case CBB_add_asn1 heap d tag c of
        (False, c) \<Rightarrow> (False, cbb_on_error d c)
      | (True, c) \<Rightarrow>
          (case body c of
             (False, c) \<Rightarrow> (False, cbb_on_error d c)
           | (True, c) \<Rightarrow> CBB_flush heap d c))"

definition CBB_add_asn1_element ::
    "heap \<Rightarrow> nat \<Rightarrow> CBS_ASN1_TAG \<Rightarrow> byte list \<Rightarrow> cbb_st \<Rightarrow> bool \<times> cbb_st" where
  "CBB_add_asn1_element heap d tag data c =
     (case with_asn1_child heap d tag (CBB_add_bytes heap (Suc d) data) c of
        (False, c) \<Rightarrow> (False, cbb_on_error d c)
      | (True, c) \<Rightarrow> (True, c))"

text \<open>The loop over the eight bytes of the value, most significant first.\<close>

fun asn1_uint64_write_loop ::
    "heap \<Rightarrow> nat \<Rightarrow> bool \<Rightarrow> byte list \<Rightarrow> cbb_st \<Rightarrow> bool \<times> cbb_st" where
  "asn1_uint64_write_loop heap d started [] c =
     (if \<not> started then CBB_add_u8 heap d 0 c else (True, c))"
| "asn1_uint64_write_loop heap d started (b # bs) c =
     (if \<not> started \<and> b = 0 then asn1_uint64_write_loop heap d started bs c
      else
        (case (if \<not> started \<and> b AND 0x80 \<noteq> 0 then CBB_add_u8 heap d 0 c else (True, c)) of
           (False, c) \<Rightarrow> (False, c)
         | (True, c) \<Rightarrow>
             (case CBB_add_u8 heap d b c of
                (False, c) \<Rightarrow> (False, c)
              | (True, c) \<Rightarrow> asn1_uint64_write_loop heap d True bs c)))"

definition CBB_add_asn1_uint64_with_tag ::
    "heap \<Rightarrow> nat \<Rightarrow> uint64 \<Rightarrow> CBS_ASN1_TAG \<Rightarrow> cbb_st \<Rightarrow> bool \<times> cbb_st" where
  "CBB_add_asn1_uint64_with_tag heap d v tag c =
     with_asn1_child heap d tag
       (asn1_uint64_write_loop heap (Suc d) False
          (map (\<lambda>i. ucast (drop_bit (8 * (7 - i)) v AND 0xff)) [0..<8])) c"

definition CBB_add_asn1_uint64 :: "heap \<Rightarrow> nat \<Rightarrow> uint64 \<Rightarrow> cbb_st \<Rightarrow> bool \<times> cbb_st" where
  "CBB_add_asn1_uint64 heap d v c = CBB_add_asn1_uint64_with_tag heap d v CBS_ASN1_INTEGER c"

text \<open>Skipping sign-extension bytes; \<open>bytes\<close> is the little-endian representation of the value.\<close>

fun int64_start_loop :: "byte list \<Rightarrow> nat \<Rightarrow> nat" where
  "int64_start_loop bytes 0 = 0"
| "int64_start_loop bytes (Suc k) =
     (if bytes ! Suc k = 0xff \<and> bytes ! k AND 0x80 \<noteq> 0 then int64_start_loop bytes k else Suc k)"

definition CBB_add_asn1_int64_with_tag ::
    "heap \<Rightarrow> nat \<Rightarrow> uint64 \<Rightarrow> CBS_ASN1_TAG \<Rightarrow> cbb_st \<Rightarrow> bool \<times> cbb_st" where
  "CBB_add_asn1_int64_with_tag heap d v tag c =
     (if 0 \<le> sint v then CBB_add_asn1_uint64_with_tag heap d v tag c
      else
        (let bytes = le_store 8 v; start = int64_start_loop bytes 7
         in with_asn1_child heap d tag
              (add_all CBB_add_u8 heap (Suc d) (rev (take (Suc start) bytes))) c))"

definition CBB_add_asn1_int64 :: "heap \<Rightarrow> nat \<Rightarrow> uint64 \<Rightarrow> cbb_st \<Rightarrow> bool \<times> cbb_st" where
  "CBB_add_asn1_int64 heap d v c = CBB_add_asn1_int64_with_tag heap d v CBS_ASN1_INTEGER c"

definition CBB_add_asn1_octet_string :: "heap \<Rightarrow> nat \<Rightarrow> byte list \<Rightarrow> cbb_st \<Rightarrow> bool \<times> cbb_st" where
  "CBB_add_asn1_octet_string heap d data c = CBB_add_asn1_element heap d CBS_ASN1_OCTETSTRING data c"

definition CBB_add_asn1_bool :: "heap \<Rightarrow> nat \<Rightarrow> bool \<Rightarrow> cbb_st \<Rightarrow> bool \<times> cbb_st" where
  "CBB_add_asn1_bool heap d v c =
     (case with_asn1_child heap d CBS_ASN1_BOOLEAN (CBB_add_u8 heap (Suc d) (if v then 0xff else 0)) c of
        (False, c) \<Rightarrow> (False, cbb_on_error d c)
      | (True, c) \<Rightarrow> (True, c))"

definition CBB_add_asn1_oid_component :: "heap \<Rightarrow> nat \<Rightarrow> uint64 \<Rightarrow> cbb_st \<Rightarrow> bool \<times> cbb_st" where
  "CBB_add_asn1_oid_component heap d v c =
     (case CBB_flush heap d c of
        (False, c) \<Rightarrow> (False, c)
      | (True, c) \<Rightarrow> add_base128_integer heap d v c)"

subsection \<open>Base-128 integers\<close>

lemma base128_len_loop_eq:
  "base128_len_loop v = (if v = 0 then 0 else length (b128_digits (unat v)))"
proof (induction v rule: base128_len_loop.induct)
  case (1 v)
  show ?case
  proof (cases "v = 0")
    case True
    then show ?thesis by (subst base128_len_loop.simps) simp
  next
    case False
    then have pos: "0 < v" by (simp add: word_neq_0_conv)
    have d: "unat (drop_bit 7 v) = unat v div 128" by (simp only: unat_drop_bit) simp
    then have z: "drop_bit 7 v = 0 \<longleftrightarrow> unat v < 128"
      by (metis div_eq_0_iff unat_eq_zero zero_neq_numeral)
    have "base128_len_loop v = Suc (base128_len_loop (drop_bit 7 v))"
      using pos by (simp add: base128_len_loop.simps [of v])
    then show ?thesis
      using 1 [OF pos] False z d by (subst b128_digits.simps) auto
  qed
qed

lemma b128_digits_nth:
  "b128_digits n = map (\<lambda>i. n div 128 ^ i mod 128) (rev [0..<length (b128_digits n)])"
proof (induction n rule: b128_digits.induct)
  case (1 n)
  show ?case
  proof (cases "n < 128")
    case True
    then show ?thesis by (simp add: b128_digits.simps [of n])
  next
    case False
    define k where "k = length (b128_digits (n div 128))"
    have "b128_digits (n div 128) = map (\<lambda>i. n div 128 div 128 ^ i mod 128) (rev [0..<k])"
      using 1 False by (simp add: k_def)
    also have "\<dots> = map (\<lambda>i. n div 128 ^ i mod 128) (rev [1..<Suc k])"
    proof -
      have "rev [1..<Suc k] = map Suc (rev [0..<k])"
        by (simp add: rev_map [symmetric] map_Suc_upt del: upt_Suc)
      then show ?thesis by (simp add: div_mult2_eq)
    qed
    finally have "b128_digits n = map (\<lambda>i. n div 128 ^ i mod 128) (rev [1..<Suc k] @ [0])"
      using False by (simp add: b128_digits.simps [of n])
    moreover have "rev [0..<Suc k] = rev [1..<Suc k] @ [0]"
      by (simp add: upt_conv_Cons)
    moreover have "length (b128_digits n) = Suc k"
      using False by (simp add: b128_digits.simps [of n] k_def)
    ultimately show ?thesis by simp
  qed
qed

definition base128_byte :: "uint64 \<Rightarrow> nat \<Rightarrow> byte" where
  "base128_byte v i = of_nat (unat v div 128 ^ i mod 128 + (if i \<noteq> 0 then 128 else 0))"

lemma base128_byte_eq:
  "(let b = ucast (drop_bit (7 * i) v AND 0x7f); b = (if i \<noteq> 0 then b OR 0x80 else b) in b) =
    base128_byte v i"
proof -
  define m where "m = unat v div 128 ^ i mod 128"
  have m: "m < 128" by (simp add: m_def)
  have "drop_bit (7 * i) v AND 0x7f = take_bit 7 (drop_bit (7 * i) v)"
    by (simp add: take_bit_eq_mask mask_eq_exp_minus_1)
  then have "unat (drop_bit (7 * i) v AND 0x7f) = unat v div 2 ^ (7 * i) mod 2 ^ 7"
    by (simp only: unsigned_take_bit_eq unat_drop_bit take_bit_eq_mod [where 'a = nat])
  also have "\<dots> = m" by (simp add: m_def power_mult)
  finally have low: "ucast (drop_bit (7 * i) v AND 0x7f) = (of_nat m :: byte)"
    by (metis ucast_eq_of_nat)
  have "(of_nat m :: byte) AND 0x80 = 0"
    using unat_digit_byte(1) [OF m] continuation_byte(1) [of "of_nat m"] m by simp
  then have "(of_nat m :: byte) OR 0x80 = of_nat (m + 128)"
    by (simp add: disjunctive_add_eq_or [symmetric])
  then show ?thesis by (simp add: low base128_byte_def m_def Let_def)
qed

lemma base128_write_loop_eq:
  "base128_write_loop heap d v k c = add_all CBB_add_u8 heap d (map (base128_byte v) (rev [0..<k])) c"
proof (induction k arbitrary: c)
  case (Suc k)
  then show ?case
    using base128_byte_eq [of k v] by (simp add: Let_def split: prod.splits bool.splits)
qed simp

lemma b128_enc_bytes:
  "b128_enc (unat v) = map (base128_byte v) (rev [0..<length (b128_digits (unat v))])"
proof -
  define k where "k = length (b128_digits (unat v))"
  have "0 < k" using canonical_b128_digits [of "unat v"]
    by (simp add: k_def canonical_digits_def digit_list_def)
  then obtain j where j: "k = Suc j" by (cases k) auto
  have split: "rev [0..<k] = rev [1..<k] @ [0]" by (simp add: j upt_conv_Cons)
  have "b128_digits (unat v) = map (\<lambda>i. unat v div 128 ^ i mod 128) (rev [1..<k] @ [0])"
    using b128_digits_nth [of "unat v"] by (simp only: k_def [symmetric] split)
  then show ?thesis
    unfolding b128_enc_def b128_bytes_def k_def [symmetric] split
    by (simp add: base128_byte_def add.commute)
qed

lemma add_base128_integer_eq:
  "add_base128_integer heap d v c = add_all CBB_add_u8 heap d (b128_enc (unat v)) c"
proof -
  have "b128_digits 0 = [0]" by (simp add: b128_digits.simps)
  then have "(let n = base128_len_loop v in if n = 0 then 1 else n) = length (b128_digits (unat v))"
    using canonical_b128_digits [of "unat v"]
    by (auto simp: base128_len_loop_eq Let_def canonical_digits_def digit_list_def)
  then show ?thesis
    unfolding add_base128_integer_def base128_write_loop_eq b128_enc_bytes Let_def by simp
qed

lemma b128_enc_nonempty [simp]: "b128_enc n \<noteq> []"
  by (simp add: b128_enc_def)

interpretation wire_base128: wire_format add_base128_integer "\<lambda>v. b128_enc (unat v)" "\<lambda>_. True"
  "\<lambda>_. True" parse_base128_integer "\<lambda>_. True"
proof (intro wire_format.intro base128.codec_axioms, unfold_locales)
  fix heap d v c c' n
  show "True \<and> appended d (b128_enc (unat v)) c c'"
    if "add_base128_integer heap d v c = (True, c')" "cbb_inv c"
    using wr_u8.add_all_appended [of heap d "b128_enc (unat v)" c c'] that
    by (simp add: add_base128_integer_eq)
  show "\<exists>c'. add_base128_integer heap d v c = (True, c') \<and> can_grow heap c' n"
    if "ready heap d (length (b128_enc (unat v))) n c"
    using wr_u8.add_all_ready [of "b128_enc (unat v)" heap d n c] that
    by (simp add: add_base128_integer_eq)
qed

subsection \<open>Tags and children\<close>

lemma flush_appended:
  "CBB_flush heap d c = (True, c') \<Longrightarrow> cbb_inv c \<Longrightarrow> appended d [] c c'"
  using CBB_flush_frames [of heap d c c'] CBB_flush_live [of heap d c c']
  by (simp add: appended_def append_frames_def)

lemma ready_flushed:
  assumes "ready heap d k n c"
  shows "\<exists>c'. CBB_flush heap d c = (True, c') \<and> can_grow heap c' n"
proof -
  have "length (buf c) + 4 * (length (children c) - d) \<le> n"
    using assms by (simp add: ready_def)
  then show ?thesis using CBB_flush_grow [of c d heap n] assms by (auto simp: ready_def)
qed

text \<open>After an appending step, the rest of the room is still there.\<close>

lemma ready_step:
  assumes "ready heap d (length a + k) n c" "appended d a c c'" "can_grow heap c' n"
  shows "ready heap d k n c'"
proof -
  have inv: "cbb_inv c" "d \<le> length (children c)" using assms(1) by (simp_all add: ready_def)
  have "length (children c') = d" "drop d (children c') = []"
    using assms(2) inv by (auto simp: appended_def)
  then show ?thesis
    using assms appended_length [OF assms(2) inv(1)] by (simp add: ready_def appended_def)
qed

lemma tag_bits_eq:
  "(ucast (drop_bit CBS_ASN1_TAG_SHIFT tag AND 0xe0) :: byte) = tag_lead tag"
  by (rule bit_word_eqI) (auto simp: tag_lead_def tag_masks CBS_ASN1_TAG_SHIFT_def bit_simps)

definition write_tag :: "heap \<Rightarrow> nat \<Rightarrow> CBS_ASN1_TAG \<Rightarrow> cbb_st \<Rightarrow> bool \<times> cbb_st" where
  "write_tag heap d tag c = add_all CBB_add_u8 heap d (tag_enc tag) c"

lemma CBB_add_asn1_eq:
  "CBB_add_asn1 heap d tag c =
    (case CBB_flush heap d c of
       (False, c) \<Rightarrow> (False, c)
     | (True, c) \<Rightarrow>
         (case write_tag heap d tag c of
            (False, c) \<Rightarrow> (False, c)
          | (True, c) \<Rightarrow> cbb_add_child heap 1 True c))"
proof -
  define n where "n = tag AND CBS_ASN1_TAG_NUMBER_MASK"
  have le: "0x1f \<le> n \<longleftrightarrow> \<not> unat n < 31" by (simp add: word_le_nat_alt not_less)
  have u: "unat (ucast n :: uint64) = unat n" by (simp add: unat_ucast_up)
  have written: "(if 0x1f \<le> n then
      (case CBB_add_u8 heap d (tag_lead tag OR 0x1f) c of
         (False, c) \<Rightarrow> (False, c)
       | (True, c) \<Rightarrow> add_base128_integer heap d (ucast n) c)
     else CBB_add_u8 heap d (tag_lead tag OR ucast n) c) = write_tag heap d tag c" for c
    by (auto simp: write_tag_def tag_enc_def Let_def n_def [symmetric] le u add_base128_integer_eq
        split: prod.splits bool.splits)
  show ?thesis
    unfolding CBB_add_asn1_def Let_def tag_bits_eq n_def [symmetric] written ..
qed

lemma write_tag_appended:
  "write_tag heap d tag c = (True, c') \<Longrightarrow> cbb_inv c \<Longrightarrow> appended d (tag_enc tag) c c'"
  using wr_u8.add_all_appended [of heap d "tag_enc tag" c c'] by (simp add: write_tag_def)

lemma write_tag_ready:
  "ready heap d (length (tag_enc tag)) n c \<Longrightarrow>
   \<exists>c'. write_tag heap d tag c = (True, c') \<and> can_grow heap c' n"
  using wr_u8.add_all_ready [of "tag_enc tag" heap d n c] by (simp add: write_tag_def)

text \<open>After \<^verbatim>\<open>CBB_add_asn1\<close> the tag is in the frame at \<open>d\<close> and an empty ASN.1 frame is on top.\<close>

definition opened :: "nat \<Rightarrow> byte list \<Rightarrow> cbb_st \<Rightarrow> cbb_st \<Rightarrow> bool" where
  "opened d bytes c c' \<longleftrightarrow>
     d \<le> length (children c) \<and> cbb_inv c' \<and> \<not> cbb_error c' \<and> can_resize c' = can_resize c \<and>
     (\<exists>off. children c' = take d (children c) @ [cbb_open off 1 True]) \<and>
     nest_fits (drop d (children c)) (drop d (frames c)) \<and>
     frames c' = append_frames d bytes (children c) (frames c) @ [[]]"

lemma CBB_add_asn1_opened:
  assumes "CBB_add_asn1 heap d tag c = (True, c')" "cbb_inv c"
  shows "opened d (tag_enc tag) c c'"
proof -
  obtain c1 c2 where run: "CBB_flush heap d c = (True, c1)" "write_tag heap d tag c1 = (True, c2)"
      "cbb_add_child heap 1 True c2 = (True, c')"
    using assms(1) by (auto simp: CBB_add_asn1_eq split: prod.splits bool.splits)
  have a: "appended d [] c c1" using flush_appended [OF run(1) assms(2)] .
  then have "appended d (tag_enc tag) c1 c2"
    using write_tag_appended [OF run(2)] by (simp add: appended_def)
  with a have "appended d (tag_enc tag) c c2" using appended_trans [OF a] by fastforce
  then show ?thesis
    using cbb_add_child_frames [OF run(3)] by (auto simp: appended_def opened_def)
qed

lemma add_child_grow:
  assumes "can_grow heap c n" "length (buf c) + k \<le> n"
  shows "\<exists>c'. cbb_add_child heap k asn1 c = (True, c') \<and> can_grow heap c' n \<and>
    length (buf c') = length (buf c) + k"
proof -
  obtain m where "cbb_buffer_add heap (replicate k 0) c =
      (True, c\<lparr>buf := buf c @ replicate k 0, cap := m\<rparr>)" "can_grow heap (c\<lparr>cap := m\<rparr>) n"
    using add_grow [OF assms(1), of "replicate k 0"] assms(2) by auto
  then show ?thesis by (simp add: cbb_add_child_def can_grow_def)
qed

lemma CBB_add_asn1_ready:
  assumes "ready heap d (length (tag_enc tag) + k) n c" "0 < k"
  shows "\<exists>c'. CBB_add_asn1 heap d tag c = (True, c') \<and> can_grow heap c' n \<and>
    length (buf c') \<le> length (buf c) + 4 * (length (children c) - d) + length (tag_enc tag) + 1"
proof -
  have inv: "cbb_inv c" using assms(1) by (simp add: ready_def)
  obtain c1 where c1: "CBB_flush heap d c = (True, c1)" "can_grow heap c1 n"
    using ready_flushed [OF assms(1)] by blast
  have a: "appended d [] c c1" using flush_appended [OF c1(1) inv] .
  have r1: "ready heap d (length (tag_enc tag) + k) n c1"
    using ready_step [of heap d "[]" _ n c c1] assms(1) a c1(2) by simp
  then have "ready heap d (length (tag_enc tag)) n c1" by (simp add: ready_def)
  then obtain c2 where c2: "write_tag heap d tag c1 = (True, c2)" "can_grow heap c2 n"
    using write_tag_ready by blast
  have b: "appended d (tag_enc tag) c1 c2"
    using write_tag_appended [OF c2(1)] a by (simp add: appended_def)
  have ab: "appended d (tag_enc tag) c c2" using appended_trans [OF a b] by simp
  have "ready heap d k n c2" using ready_step [OF r1 b c2(2)] .
  then have "length (buf c2) + 1 \<le> n" using assms(2) by (simp add: ready_def)
  then obtain c3 where "cbb_add_child heap 1 True c2 = (True, c3)" "can_grow heap c3 n"
      "length (buf c3) = length (buf c2) + 1"
    using add_child_grow [OF c2(2)] by blast
  then show ?thesis using c1 c2 appended_length [OF ab inv] by (auto simp: CBB_add_asn1_eq)
qed

subsection \<open>Elements\<close>

lemma close_asn1:
  "close_frame (cbb_open off k True) s = der_len (length s) @ s"
  "frame_fits (cbb_open off k True) s \<longleftrightarrow> length s \<le> 0xfffffffe"
  by (simp_all add: close_frame_def frame_fits_def cbb_open_def)

text \<open>The state after the body has filled the child opened by \<^verbatim>\<open>CBB_add_asn1\<close>.\<close>

lemma opened_filled:
  assumes o: "opened d t c c1" and a: "appended (Suc d) data c1 c2"
  shows "cbb_inv c2" "\<not> cbb_error c2"
    "\<exists>off. drop d (children c2) = [cbb_open off 1 True]" "take d (children c2) = take d (children c)"
    "length (children c2) = Suc d"
    "take d (frames c2) = take d (frames c)"
    "drop d (frames c2) = [nest (drop d (children c)) (drop d (frames c)) @ t, data]"
proof -
  have d: "d \<le> length (children c)" using o by (simp add: opened_def)
  obtain off where off: "children c1 = take d (children c) @ [cbb_open off 1 True]"
    using o by (auto simp: opened_def)
  have F: "length (frames c) = Suc (length (children c))" by (simp add: frames_def)
  have "children c2 = children c1" using a off d by (simp add: appended_def)
  then show "\<exists>off. drop d (children c2) = [cbb_open off 1 True]"
      "take d (children c2) = take d (children c)" "length (children c2) = Suc d"
    using off d by auto
  show "cbb_inv c2" "\<not> cbb_error c2" using a by (simp_all add: appended_def)
  have "frames c1 = append_frames d t (children c) (frames c) @ [[]]" using o by (simp add: opened_def)
  moreover have "length (append_frames d t (children c) (frames c)) = Suc d"
    using F d by (simp add: append_frames_def)
  moreover have "drop (Suc d) (children c1) = []" using off d by simp
  ultimately have "frames c2 = append_frames d t (children c) (frames c) @ [data]"
    using a by (simp add: appended_def append_frames_def [of "Suc d"])
  then show "take d (frames c2) = take d (frames c)"
      "drop d (frames c2) = [nest (drop d (children c)) (drop d (frames c)) @ t, data]"
    using F d by (simp_all add: append_frames_def)
qed

lemma with_asn1_child_appended:
  assumes run: "with_asn1_child heap d tag body c = (True, c')" and inv: "cbb_inv c"
    and body: "\<And>c1 c2. body c1 = (True, c2) \<Longrightarrow> cbb_inv c1 \<Longrightarrow> appended (Suc d) data c1 c2"
  shows "length data \<le> 0xfffffffe \<and> appended d (der_enc tag data) c c'"
proof -
  obtain c1 c2 where c: "CBB_add_asn1 heap d tag c = (True, c1)" "body c1 = (True, c2)"
      "CBB_flush heap d c2 = (True, c')"
    using run by (auto simp: with_asn1_child_def split: prod.splits bool.splits)
  have o: "opened d (tag_enc tag) c c1" using CBB_add_asn1_opened [OF c(1) inv] .
  then have a: "appended (Suc d) data c1 c2" using body [OF c(2)] by (simp add: opened_def)
  note filled = opened_filled [OF o a]
  obtain off where off: "drop d (children c2) = [cbb_open off 1 True]" using filled(3) by blast
  have "can_resize c2 = can_resize c" using o a by (simp add: opened_def appended_def)
  then show ?thesis
    using CBB_flush_frames [OF c(3) filled(1)] filled off o
    by (simp add: appended_def opened_def append_frames_def close_asn1 der_enc_def)
qed

lemma with_asn1_child_ready:
  assumes ready: "ready heap d (length (der_enc tag data)) n c" and small: "length data \<le> 0xfffffffe"
    and body: "\<And>c1 c2. body c1 = (True, c2) \<Longrightarrow> cbb_inv c1 \<Longrightarrow> appended (Suc d) data c1 c2"
    and total: "\<And>c1. ready heap (Suc d) (length data) n c1 \<Longrightarrow>
      \<exists>c2. body c1 = (True, c2) \<and> can_grow heap c2 n"
  shows "\<exists>c'. with_asn1_child heap d tag body c = (True, c') \<and> can_grow heap c' n"
proof -
  let ?k = "length (der_len (length data)) + length data"
  let ?top = "length (buf c) + 4 * (length (children c) - d)"
  have k: "1 \<le> length (der_len (length data))" by (simp add: der_len_def)
  have room: "?top + length (tag_enc tag) + ?k + 4 \<le> n" and inv: "cbb_inv c"
    using ready by (simp_all add: ready_def der_enc_def)
  have r: "ready heap d (length (tag_enc tag) + ?k) n c" using ready by (simp add: der_enc_def)
  have "0 < ?k" using k by linarith
  from CBB_add_asn1_ready [OF r this] obtain c1 where c1: "CBB_add_asn1 heap d tag c = (True, c1)"
      "can_grow heap c1 n" "length (buf c1) \<le> ?top + length (tag_enc tag) + 1" by blast
  have o: "opened d (tag_enc tag) c c1" using CBB_add_asn1_opened [OF c1(1) inv] .
  have d: "length (children c1) = Suc d" using o by (auto simp: opened_def)
  then have r1: "ready heap (Suc d) (length data) n c1"
    using o c1 room k by (simp add: ready_def opened_def)
  then obtain c2 where c2: "body c1 = (True, c2)" "can_grow heap c2 n" using total by blast
  have inv1: "cbb_inv c1" using o by (simp add: opened_def)
  have a: "appended (Suc d) data c1 c2" using body [OF c2(1) inv1] .
  note filled = opened_filled [OF o a]
  obtain off where off: "drop d (children c2) = [cbb_open off 1 True]" using filled(3) by blast
  have fits: "nest_fits (drop d (children c2)) (drop d (frames c2))"
    using off filled small by (simp add: close_asn1)
  have "length (buf c2) \<le> length (buf c1) + length data" using appended_length [OF a inv1] d by simp
  then have "length (buf c2) + 4 * (length (children c2) - d) \<le> n"
    using filled(5) c1(3) room k by simp
  then obtain c3 where "CBB_flush heap d c2 = (True, c3)" "can_grow heap c3 n"
    using CBB_flush_grow [OF filled(1,2) _ fits c2(2)] filled(5) by auto
  then show ?thesis using c1 c2 by (simp add: with_asn1_child_def)
qed

text \<open>The element writers: an extra lock of an already locked builder changes nothing.\<close>

lemma element_run:
  "(case r of (False, c) \<Rightarrow> (False, cbb_on_error d c) | (True, c) \<Rightarrow> (True, c)) = (True, c') \<longleftrightarrow>
    r = (True, c')"
  by (auto split: prod.splits bool.splits)

lemma add_bytes_appended:
  "CBB_add_bytes heap d data c = (True, c') \<Longrightarrow> length data < SIZE_LIMIT \<Longrightarrow> cbb_inv c \<Longrightarrow>
   appended d data c c'"
  by (simp add: CBB_add_bytes_def add_space_appended)

lemma element_appender:
  assumes data: "\<And>x. arg x \<Longrightarrow> length (content x) < SIZE_LIMIT"
  shows "appender (\<lambda>heap d x c. CBB_add_asn1_element heap d (tag x) (content x) c)
    (\<lambda>x. der_enc (tag x) (content x)) arg (\<lambda>x. length (content x) \<le> 0xfffffffe)"
proof
  fix heap d x c c' n
  assume "arg x"
  then have body: "appended (Suc d) (content x) c1 c2"
    if "CBB_add_bytes heap (Suc d) (content x) c1 = (True, c2)" "cbb_inv c1" for c1 c2
    using data that by (intro add_bytes_appended) simp_all
  show "length (content x) \<le> 0xfffffffe \<and> appended d (der_enc (tag x) (content x)) c c'"
    if "CBB_add_asn1_element heap d (tag x) (content x) c = (True, c')" "cbb_inv c"
    using that body
    by (intro with_asn1_child_appended [of heap d "tag x" "CBB_add_bytes heap (Suc d) (content x)"])
       (simp_all add: CBB_add_asn1_element_def element_run)
  have total: "\<exists>c2. CBB_add_bytes heap (Suc d) (content x) c1 = (True, c2) \<and> can_grow heap c2 n"
    if "ready heap (Suc d) (length (content x)) n c1" for c1
    using add_space_ready [OF that] by (simp add: CBB_add_bytes_def)
  show "\<exists>c'. CBB_add_asn1_element heap d (tag x) (content x) c = (True, c') \<and> can_grow heap c' n"
    if "length (content x) \<le> 0xfffffffe" "ready heap d (length (der_enc (tag x) (content x))) n c"
    unfolding CBB_add_asn1_element_def element_run
    by (rule with_asn1_child_ready [OF that(2,1) body total])
qed

text \<open>Elements as pairs of contents and tag.\<close>

definition add_element :: "heap \<Rightarrow> nat \<Rightarrow> byte list \<times> CBS_ASN1_TAG \<Rightarrow> cbb_st \<Rightarrow> bool \<times> cbb_st" where
  "add_element heap d x c = CBB_add_asn1_element heap d (snd x) (fst x) c"

interpretation wire_der: wire_format add_element "\<lambda>(c, t). der_enc t c"
  "\<lambda>(c, t). length c < SIZE_LIMIT" "\<lambda>(c, t). length c \<le> 0xfffffffe"
  CBS_get_any_asn1 "\<lambda>(c, t). valid_tag t \<and> length c < 2 ^ 32"
  using element_appender [of "\<lambda>(c, t). length c < SIZE_LIMIT" fst snd]
  by (intro wire_format.intro der.codec_axioms) (simp_all add: add_element_def [abs_def] case_prod_unfold)

subsection \<open>64-bit integers\<close>

definition unsigned_contents :: "byte list \<Rightarrow> byte list" where
  "unsigned_contents bs =
     (case dropWhile (\<lambda>b. b = 0) bs of
        [] \<Rightarrow> [0]
      | b # r \<Rightarrow> if 128 \<le> unat b then 0 # b # r else b # r)"

lemma uint64_loop_started:
  "asn1_uint64_write_loop heap d True bs c = add_all CBB_add_u8 heap d bs c"
  by (induction bs arbitrary: c) (auto split: prod.splits bool.splits)

lemma uint64_loop_eq:
  "asn1_uint64_write_loop heap d False bs c = add_all CBB_add_u8 heap d (unsigned_contents bs) c"
proof (induction bs arbitrary: c)
  case Nil
  then show ?case by (auto simp: unsigned_contents_def split: prod.splits bool.splits)
next
  case (Cons b bs)
  then show ?case
    using continuation_byte(1) [of b]
    by (auto simp: unsigned_contents_def uint64_loop_started split: prod.splits bool.splits)
qed

lemma be_nat_dropWhile_0: "be_nat (dropWhile (\<lambda>b. b = 0) bs) = be_nat bs"
  by (induction bs) (simp_all add: be_nat_Cons)

lemma unsigned_contents_value:
  "minimal_int (unsigned_contents bs) \<and> sbe_int (unsigned_contents bs) = int (be_nat bs) \<and>
   length (unsigned_contents bs) \<le> length bs + 1"
proof (cases "dropWhile (\<lambda>b. b = 0) bs")
  case Nil
  have "be_nat bs = 0" using be_nat_dropWhile_0 [of bs] unfolding Nil by simp
  moreover have "unsigned_contents bs = [0]" unfolding unsigned_contents_def Nil by simp
  ultimately show ?thesis by (simp add: minimal_int_def sbe_int_def be_nat_Cons)
next
  case (Cons b r)
  have b: "b \<noteq> 0" using hd_dropWhile [of "\<lambda>b. b = 0" bs] Cons by auto
  have val: "be_nat bs = be_nat (b # r)" using be_nat_dropWhile_0 [of bs] Cons by simp
  have len: "length (b # r) \<le> length bs" using Cons length_dropWhile_le [of "\<lambda>b. b = 0" bs] by simp
  show ?thesis
  proof (cases "128 \<le> unat b")
    case True
    then have "unsigned_contents bs = 0 # b # r" unfolding unsigned_contents_def Cons by simp
    moreover have "be_nat (0 # b # r) = be_nat (b # r)" by (simp add: be_nat_Cons [of 0])
    ultimately show ?thesis
      using True val len by (simp add: minimal_int_def valid_integer_Cons2 sbe_int_def)
  next
    case False
    then have c: "unsigned_contents bs = b # r" unfolding unsigned_contents_def Cons by simp
    have "b \<noteq> 0xff" using False by auto
    then have "minimal_int (b # r)"
      using b by (cases r) (simp_all add: minimal_int_def valid_integer_Cons2)
    then show ?thesis using False val len c by (simp add: sbe_int_def)
  qed
qed

lemma nat_be_map: "nat_be n x = map (\<lambda>i. of_nat (x div 256 ^ (n - Suc i))) [0..<n]"
proof (induction n arbitrary: x)
  case (Suc n)
  have "x div 256 div 256 ^ (n - Suc i) = x div 256 ^ (n - i)" if "i < n" for i
  proof -
    have "n - i = Suc (n - Suc i)" using that by simp
    then show ?thesis by (simp add: div_mult2_eq)
  qed
  then show ?case using Suc by simp
qed simp

lemma value_bytes:
  "map (\<lambda>i. ucast (drop_bit (8 * (7 - i)) v AND 0xff)) [0..<8] = nat_be 8 (unat (v :: uint64))"
proof -
  have byte: "ucast (drop_bit k v AND 0xff) = (of_nat (unat v div 2 ^ k) :: byte)" for k
  proof -
    have "ucast (drop_bit k v AND 0xff) = (ucast (drop_bit k v) :: byte)"
    proof -
      have m: "(0xff :: uint64) = mask 8" by (simp add: mask_eq_exp_minus_1)
      show ?thesis unfolding m by (rule bit_word_eqI) (auto simp: bit_simps)
    qed
    then show ?thesis by (metis ucast_eq_of_nat unat_drop_bit)
  qed
  have "(2::nat) ^ (8 * (7 - i)) = 256 ^ (8 - Suc i)" for i
    by (simp add: power_mult)
  then show ?thesis by (simp add: byte nat_be_map)
qed

definition uint64_contents :: "uint64 \<Rightarrow> byte list" where
  "uint64_contents v = unsigned_contents (nat_be 8 (unat v))"

lemma uint64_contents_value:
  "minimal_int (uint64_contents v)" "sbe_int (uint64_contents v) = int (unat v)"
  "length (uint64_contents v) \<le> 9" "uint64_contents v \<noteq> []"
proof -
  have "be_nat (nat_be 8 (unat v)) = unat v" using uint64_less [of v] by (simp add: be_nat_nat_be)
  then show m: "minimal_int (uint64_contents v)" "sbe_int (uint64_contents v) = int (unat v)"
      "length (uint64_contents v) \<le> 9"
    using unsigned_contents_value [of "nat_be 8 (unat v)"] by (simp_all add: uint64_contents_def)
  then show "uint64_contents v \<noteq> []" by (auto simp: minimal_int_def)
qed

text \<open>An INTEGER whose contents are a list of bytes written one by one.\<close>

lemma integer_appender:
  assumes "\<And>x. arg x \<Longrightarrow> content x \<noteq> [] \<and> length (content x) \<le> 9"
  shows "appender (\<lambda>heap d x c. with_asn1_child heap d tag (add_all CBB_add_u8 heap (Suc d) (content x)) c)
    (\<lambda>x. der_enc tag (content x)) arg arg"
proof
  fix heap d x c c' n
  assume arg: "arg x"
  let ?body = "add_all CBB_add_u8 heap (Suc d) (content x)"
  have small: "length (content x) \<le> 0xfffffffe" using assms [OF arg] by simp
  have body: "appended (Suc d) (content x) c1 c2" if "?body c1 = (True, c2)" "cbb_inv c1" for c1 c2
    using wr_u8.add_all_appended [OF that(1)] that(2) assms [OF arg] by simp
  have total: "\<exists>c2. ?body c1 = (True, c2) \<and> can_grow heap c2 n"
    if "ready heap (Suc d) (length (content x)) n c1" for c1
    using wr_u8.add_all_ready [of "content x" heap "Suc d" n c1] that assms [OF arg] by simp
  show "arg x \<and> appended d (der_enc tag (content x)) c c'"
    if "with_asn1_child heap d tag ?body c = (True, c')" "cbb_inv c"
    using with_asn1_child_appended [OF that body] arg by simp
  show "\<exists>c'. with_asn1_child heap d tag ?body c = (True, c') \<and> can_grow heap c' n"
    if "ready heap d (length (der_enc tag (content x))) n c"
    by (rule with_asn1_child_ready [OF that small body total])
qed

lemma CBB_add_asn1_uint64_with_tag_eq:
  "CBB_add_asn1_uint64_with_tag heap d v tag c =
    with_asn1_child heap d tag (add_all CBB_add_u8 heap (Suc d) (uint64_contents v)) c"
proof -
  have "asn1_uint64_write_loop heap (Suc d) False bs =
      add_all CBB_add_u8 heap (Suc d) (unsigned_contents bs)" for bs
    by (rule ext) (rule uint64_loop_eq)
  then show ?thesis
    by (simp only: CBB_add_asn1_uint64_with_tag_def value_bytes uint64_contents_def)
qed

lemma uint64_codec:
  assumes "valid_tag tag"
  shows "codec (CBS_get_asn1_uint64_with_tag tag) (\<lambda>v. der_enc tag (uint64_contents v)) (\<lambda>_. True)"
proof
  fix v r s
  have len: "length (uint64_contents v) < 2 ^ 32" using uint64_contents_value(3) [of v] by simp
  then show "CBS_get_asn1_uint64_with_tag tag (der_enc tag (uint64_contents v) @ r) = (Some v, r)"
    unfolding CBS_get_asn1_uint64_with_tag_iff
    using assms uint64_contents_value [of v] by blast
  show "True \<and> s = der_enc tag (uint64_contents v) @ r"
    if "CBS_get_asn1_uint64_with_tag tag s = (Some v, r)"
    using that minimal_int_unique [OF _ uint64_contents_value(1) [of v]] uint64_contents_value(2) [of v]
    by (auto simp: CBS_get_asn1_uint64_with_tag_iff)
qed simp

lemma valid_universal_tags [simp]:
  "valid_tag CBS_ASN1_INTEGER" "valid_tag CBS_ASN1_BOOLEAN" "valid_tag CBS_ASN1_OCTETSTRING"
  "valid_tag CBS_ASN1_OBJECT" "valid_tag CBS_ASN1_SEQUENCE" "valid_tag CBS_ASN1_SET"
  by (simp_all add: valid_tag_def CBS_ASN1_INTEGER_def CBS_ASN1_BOOLEAN_def CBS_ASN1_OCTETSTRING_def
      CBS_ASN1_OBJECT_def CBS_ASN1_SEQUENCE_def CBS_ASN1_SET_def CBS_ASN1_CONSTRUCTED_def
      CBS_ASN1_TAG_SHIFT_def)

interpretation wire_asn1_uint64: wire_format CBB_add_asn1_uint64
  "\<lambda>v. der_enc CBS_ASN1_INTEGER (uint64_contents v)" "\<lambda>_. True" "\<lambda>_. True"
  CBS_get_asn1_uint64 "\<lambda>_. True"
  unfolding CBB_add_asn1_uint64_def [abs_def] CBS_get_asn1_uint64_def [abs_def]
    CBB_add_asn1_uint64_with_tag_eq
  by (intro wire_format.intro uint64_codec integer_appender) (simp_all add: uint64_contents_value)

text \<open>Negative values: leading sign-extension bytes are dropped.\<close>

fun strip_ff :: "byte list \<Rightarrow> byte list" where
  "strip_ff (a # b # bs) =
     (if a = 0xff \<and> 128 \<le> unat b then strip_ff (b # bs) else a # b # bs)"
| "strip_ff bs = bs"

lemma strip_ff_start:
  "k < length bytes \<Longrightarrow>
   rev (take (Suc (int64_start_loop bytes k)) bytes) = strip_ff (rev (take (Suc k) bytes))"
proof (induction k)
  case 0
  then show ?case by (cases bytes) simp_all
next
  case (Suc k)
  then have "rev (take (Suc (Suc k)) bytes) = bytes ! Suc k # bytes ! k # rev (take k bytes)"
    "rev (take (Suc k) bytes) = bytes ! k # rev (take k bytes)"
    by (simp_all add: take_Suc_conv_app_nth)
  then show ?case using Suc continuation_byte(1) [of "bytes ! k"] by simp
qed

lemma sbe_int_strip: "a = 0xff \<Longrightarrow> 128 \<le> unat b \<Longrightarrow> sbe_int (a # b # bs) = sbe_int (b # bs)"
  by (simp add: sbe_int_def be_nat_Cons [of "0xff"])

lemma strip_ff_value:
  assumes "bs \<noteq> []" "128 \<le> unat (hd bs)"
  shows "minimal_int (strip_ff bs) \<and> sbe_int (strip_ff bs) = sbe_int bs \<and>
    length (strip_ff bs) \<le> length bs \<and> strip_ff bs \<noteq> []"
  using assms
proof (induction bs rule: strip_ff.induct)
  case (1 a b bs)
  show ?case
  proof (cases "a = 0xff \<and> 128 \<le> unat b")
    case True
    then show ?thesis using 1 sbe_int_strip [of a b bs] by simp
  next
    case False
    moreover have "a \<noteq> 0" using 1(3) by auto
    ultimately show ?thesis by (auto simp: minimal_int_def valid_integer_Cons2)
  qed
qed (simp_all add: minimal_int_def)

end
