(* ===== verification/Cbb_Errors.thy ===== *)
theory Cbb_Errors
  imports Cbb_Asn1
begin

text \<open>
  The error flag of a builder. Every operation on a live object that fails sets the flag, every
  operation fails once it is set, so a caller may ignore all results but that of
  \<^verbatim>\<open>CBB_finish\<close>. The operations are composed from a few shapes, and the two facts are carried
  through these by rules.
\<close>

type_synonym cbb_run = "cbb_st \<Rightarrow> bool \<times> cbb_st"

named_theorems sticky_rules \<open>failures of builder operations set the error flag\<close>
named_theorems locked_rules \<open>builder operations fail once the error flag is set\<close>

text \<open>
  Started with the object at depth \<open>d\<close> live, \<open>m\<close> either succeeds with the one at depth \<open>d'\<close> live
  or sets the error flag.
\<close>

definition sticky :: "nat \<Rightarrow> nat \<Rightarrow> cbb_run \<Rightarrow> bool" where
  "sticky d d' m \<longleftrightarrow>
     (\<forall>c c'. d \<le> length (children c) \<longrightarrow>
        (m c = (True, c') \<longrightarrow> d' \<le> length (children c')) \<and>
        (m c = (False, c') \<longrightarrow> cbb_error c'))"

definition locked :: "cbb_run \<Rightarrow> bool" where
  "locked m \<longleftrightarrow> (\<forall>c. cbb_error c \<longrightarrow> (\<exists>c'. m c = (False, c') \<and> cbb_error c'))"

lemma stickyI:
  "\<lbrakk>\<And>c c'. \<lbrakk>d \<le> length (children c); m c = (True, c')\<rbrakk> \<Longrightarrow> d' \<le> length (children c');
    \<And>c c'. \<lbrakk>d \<le> length (children c); m c = (False, c')\<rbrakk> \<Longrightarrow> cbb_error c'\<rbrakk> \<Longrightarrow> sticky d d' m"
  by (auto simp: sticky_def)

lemma stickyD:
  assumes "sticky d d' m" "d \<le> length (children c)"
  shows "m c = (True, c') \<Longrightarrow> d' \<le> length (children c')" "m c = (False, c') \<Longrightarrow> cbb_error c'"
  using assms by (auto simp: sticky_def)

lemma sticky_less:
  assumes "sticky d d' m" "d'' \<le> d'"
  shows "sticky d d'' m"
proof (rule stickyI)
  fix c c' :: cbb_st assume d: "d \<le> length (children c)"
  show "d'' \<le> length (children c')" if "m c = (True, c')"
    using stickyD(1) [OF assms(1) d that] assms(2) by simp
  show "cbb_error c'" if "m c = (False, c')"
    by (rule stickyD(2) [OF assms(1) d that])
qed

subsection \<open>Shapes\<close>

lemma sticky_seq:
  assumes m: "sticky d d1 m" and k: "sticky d1 d' k" and f: "\<And>c. cbb_error c \<Longrightarrow> cbb_error (f c)"
  shows "sticky d d' (\<lambda>c. case m c of (False, c) \<Rightarrow> (False, f c) | (True, c) \<Rightarrow> k c)"
proof (rule stickyI)
  fix c c' :: cbb_st assume d: "d \<le> length (children c)"
  obtain ok c1 where run: "m c = (ok, c1)" by fastforce
  have live: "d1 \<le> length (children c1)" if ok using stickyD(1) [OF m d] run that by simp
  show "d' \<le> length (children c')"
    if "(case m c of (False, c) \<Rightarrow> (False, f c) | (True, c) \<Rightarrow> k c) = (True, c')"
    using that run live stickyD(1) [OF k, of c1 c'] by (cases ok) simp_all
  show "cbb_error c'"
    if "(case m c of (False, c) \<Rightarrow> (False, f c) | (True, c) \<Rightarrow> k c) = (False, c')"
    using that run live stickyD(2) [OF k, of c1 c'] stickyD(2) [OF m d, of c1] f [of c1]
    by (cases ok) auto
qed

lemma sticky_then [sticky_rules]:
  assumes "sticky d d m" "sticky d d' k"
  shows "sticky d d' (\<lambda>c. case m c of (False, c) \<Rightarrow> (False, c) | (True, c) \<Rightarrow> k c)"
  using sticky_seq [OF assms, of "\<lambda>c. c"] by simp

lemma sticky_then_error:
  assumes "sticky d d1 m" "sticky d1 d' k"
  shows "sticky d d' (\<lambda>c. case m c of (False, c) \<Rightarrow> (False, cbb_on_error e c) | (True, c) \<Rightarrow> k c)"
  by (rule sticky_seq [OF assms]) (simp add: cbb_on_error_def)

lemma sticky_succeed [sticky_rules]: "sticky d d (\<lambda>c. (True, c))" "sticky d d (Pair True)"
  by (simp_all add: sticky_def)

lemma sticky_error [sticky_rules]: "sticky d d' (\<lambda>c. (False, cbb_on_error e c))"
  by (simp add: sticky_def cbb_on_error_def)

lemma sticky_if [sticky_rules]:
  "sticky d d' m \<Longrightarrow> sticky d d' k \<Longrightarrow> sticky d d' (\<lambda>c. if b then m c else k c)"
  by (simp add: sticky_def)

lemma locked_then [locked_rules]:
  "locked m \<Longrightarrow> locked (\<lambda>c. case m c of (False, c) \<Rightarrow> (False, c) | (True, c) \<Rightarrow> k c)"
  by (fastforce simp: locked_def)

lemma locked_then_error [locked_rules]:
  "locked m \<Longrightarrow> locked (\<lambda>c. case m c of (False, c) \<Rightarrow> (False, cbb_on_error e c) | (True, c) \<Rightarrow> k c)"
  by (fastforce simp: locked_def cbb_on_error_def)

lemma locked_if [locked_rules]:
  "locked m \<Longrightarrow> locked k \<Longrightarrow> locked (\<lambda>c. if b then m c else k c)"
  by (simp add: locked_def)

subsection \<open>Operations\<close>

lemma flush_child_live:
  "cbb_flush_child heap d ch c = (True, c') \<Longrightarrow> d \<le> length (children c) \<Longrightarrow> d \<le> length (children c')"
  by (auto simp: cbb_flush_child_def cbb_flush_prefix_def cbb_buffer_add_def cbb_buffer_reserve_def
      Let_def split: if_splits prod.splits bool.splits)

lemma flush_keeps_live: "CBB_flush heap d c = (True, c') \<Longrightarrow> d \<le> length (children c')"
proof (induction heap d c arbitrary: c' rule: CBB_flush.induct)
  case (1 heap d c)
  show ?case
  proof (cases "d = length (children c)")
    case True
    then show ?thesis
      using "1.prems" by (auto simp: CBB_flush.simps [of heap "length (children c)" c] split: if_splits)
  next
    case False
    then obtain c1 where live: "\<not> (length (children c) < d \<or> cbb_error c)"
      and c1: "CBB_flush heap (Suc d) c = (True, c1)" "cbb_flush_child heap d (children c ! d) c1 = (True, c')"
      using "1.prems" by (auto simp: CBB_flush.simps [of heap d c] split: if_splits prod.splits bool.splits)
    have "Suc d \<le> length (children c1)" by (rule "1.IH" [OF live False c1(1)])
    then show ?thesis using flush_child_live [OF c1(2)] by simp
  qed
qed

lemma sticky_flush [sticky_rules]: "sticky d d (CBB_flush heap d)"
  by (rule stickyI) (erule flush_keeps_live, erule (1) CBB_flush_fails)

lemma locked_flush [locked_rules]: "locked (CBB_flush heap d)"
  by (simp add: locked_def CBB_flush_error)

lemma sticky_reserve [sticky_rules]: "sticky d d (cbb_buffer_reserve heap n)"
  by (intro stickyI) (auto simp: cbb_buffer_reserve_def Let_def split: if_splits)

lemma sticky_buffer_add [sticky_rules]: "sticky d d (cbb_buffer_add heap bytes)"
  unfolding cbb_buffer_add_def [abs_def]
  by (rule sticky_then [OF sticky_reserve [of d]]) (simp add: sticky_def)

lemma sticky_add_child [sticky_rules]: "sticky d (Suc d) (cbb_add_child heap n is_asn1)"
proof (rule stickyI)
  fix c c' :: cbb_st assume d: "d \<le> length (children c)"
  show "Suc d \<le> length (children c')" if "cbb_add_child heap n is_asn1 c = (True, c')"
    using that stickyD(1) [OF sticky_buffer_add d]
    by (auto simp: cbb_add_child_def split: prod.splits bool.splits)
  show "cbb_error c'" if "cbb_add_child heap n is_asn1 c = (False, c')"
    using that stickyD(2) [OF sticky_buffer_add d]
    by (auto simp: cbb_add_child_def split: prod.splits bool.splits)
qed

lemma sticky_add_space [sticky_rules]: "sticky d d (CBB_add_space heap d bytes)"
  unfolding CBB_add_space_def [abs_def] by (intro sticky_rules)

lemma locked_add_space [locked_rules]: "locked (CBB_add_space heap d bytes)"
  unfolding CBB_add_space_def [abs_def] by (intro locked_rules)

lemma sticky_add_u [sticky_rules]: "sticky d d (cbb_add_u heap d v n)"
  unfolding cbb_add_u_def [abs_def] Let_def case_prod_beta [of _ "shift_out n v"]
  by (intro sticky_rules)

lemma locked_add_u [locked_rules]: "locked (cbb_add_u heap d v n)"
  unfolding cbb_add_u_def [abs_def] Let_def case_prod_beta [of _ "shift_out n v"]
  by (intro locked_rules)

lemma sticky_add_u8 [sticky_rules]: "sticky d d (CBB_add_u8 heap d v)"
  unfolding CBB_add_u8_def [abs_def] by (rule sticky_add_u)

lemma locked_add_u8 [locked_rules]: "locked (CBB_add_u8 heap d v)"
  unfolding CBB_add_u8_def [abs_def] by (rule locked_add_u)

lemma sticky_base128 [sticky_rules]: "sticky d d (add_base128_integer heap d v)"
proof -
  have "sticky d d (base128_write_loop heap d v n)" for n
  proof (induction n)
    case (Suc i)
    then show ?case
      unfolding base128_write_loop.simps [abs_def] Let_def by (intro sticky_rules)
  qed (simp add: sticky_def)
  then show ?thesis unfolding add_base128_integer_def [abs_def] Let_def .
qed

lemma sticky_add_asn1 [sticky_rules]: "sticky d (Suc d) (CBB_add_asn1 heap d tag)"
  unfolding CBB_add_asn1_def [abs_def] Let_def by (intro sticky_rules)

lemma locked_add_asn1 [locked_rules]: "locked (CBB_add_asn1 heap d tag)"
  unfolding CBB_add_asn1_def [abs_def] Let_def by (intro locked_rules)

lemma sticky_asn1_child [sticky_rules]:
  assumes "sticky (Suc d) (Suc d) body"
  shows "sticky d d (with_asn1_child heap d tag body)"
proof -
  have "sticky (Suc d) d body" using assms by (rule sticky_less) simp
  then show ?thesis
    unfolding with_asn1_child_def [abs_def]
    by (rule sticky_then_error [OF sticky_add_asn1 sticky_then_error [OF _ sticky_flush]])
qed

lemma locked_asn1_child [locked_rules]: "locked (with_asn1_child heap d tag body)"
  unfolding with_asn1_child_def [abs_def] by (intro locked_rules)

lemma sticky_uint64_loop [sticky_rules]: "sticky d d (asn1_uint64_write_loop heap d started bs)"
proof (induction bs arbitrary: started)
  case Nil
  then show ?case
    unfolding asn1_uint64_write_loop.simps [abs_def] by (intro sticky_rules)
next
  case (Cons b bs)
  then show ?case
    unfolding asn1_uint64_write_loop.simps [abs_def] by (intro sticky_rules)
qed

lemma sticky_add_all [sticky_rules]:
  assumes "\<And>x. sticky d d (app heap d x)"
  shows "sticky d d (add_all app heap d xs)"
proof (induction xs)
  case (Cons x xs)
  then show ?case unfolding add_all.simps [abs_def] by (intro sticky_then assms)
qed (simp add: sticky_def)

subsection \<open>Programs over a builder\<close>

text \<open>The operations of the interface that set the flag, by the depth of their object.\<close>

datatype cbb_op =
    Op_flush
  | Op_reserve nat
  | Op_bytes "byte list"
  | Op_zeros nat
  | Op_u uint64 nat
  | Op_length_prefixed nat
  | Op_asn1 CBS_ASN1_TAG
  | Op_asn1_element CBS_ASN1_TAG "byte list"
  | Op_asn1_uint64 uint64
  | Op_asn1_int64 uint64
  | Op_asn1_bool bool
  | Op_asn1_oid_component uint64

fun exec_op :: "heap \<Rightarrow> nat \<Rightarrow> cbb_op \<Rightarrow> cbb_run" where
  "exec_op heap d Op_flush = CBB_flush heap d"
| "exec_op heap d (Op_reserve n) = CBB_reserve heap d n"
| "exec_op heap d (Op_bytes bs) = CBB_add_bytes heap d bs"
| "exec_op heap d (Op_zeros n) = CBB_add_zeros heap d n"
| "exec_op heap d (Op_u v n) = cbb_add_u heap d v n"
| "exec_op heap d (Op_length_prefixed n) = cbb_add_length_prefixed heap d n"
| "exec_op heap d (Op_asn1 tag) = CBB_add_asn1 heap d tag"
| "exec_op heap d (Op_asn1_element tag bs) = CBB_add_asn1_element heap d tag bs"
| "exec_op heap d (Op_asn1_uint64 v) = CBB_add_asn1_uint64 heap d v"
| "exec_op heap d (Op_asn1_int64 v) = CBB_add_asn1_int64 heap d v"
| "exec_op heap d (Op_asn1_bool v) = CBB_add_asn1_bool heap d v"
| "exec_op heap d (Op_asn1_oid_component v) = CBB_add_asn1_oid_component heap d v"

lemmas op_defs =
  CBB_reserve_def CBB_add_bytes_def CBB_add_zeros_def cbb_add_length_prefixed_def
  CBB_add_asn1_element_def CBB_add_asn1_uint64_def CBB_add_asn1_uint64_with_tag_def
  CBB_add_asn1_int64_def CBB_add_asn1_int64_with_tag_def CBB_add_asn1_bool_def
  CBB_add_asn1_oid_component_def

lemma sticky_op: "sticky d d (exec_op heap d op)"
proof (cases op)
  case (Op_length_prefixed n)
  have "sticky d (Suc d) (cbb_add_length_prefixed heap d n)"
    unfolding op_defs [abs_def] by (intro sticky_rules)
  then show ?thesis using Op_length_prefixed by (auto intro: sticky_less)
next
  case (Op_asn1 tag)
  then show ?thesis by (auto intro: sticky_less [OF sticky_add_asn1])
qed (hypsubst, unfold exec_op.simps op_defs [abs_def] Let_def,
  intro sticky_rules sticky_then_error [OF sticky_asn1_child])+

lemma locked_op: "locked (exec_op heap d op)"
  by (cases op; hypsubst; unfold exec_op.simps op_defs [abs_def] Let_def; intro locked_rules)

text \<open>
  A caller that goes on whatever the results are; the first component says that all operations
  succeeded. \<open>live_ops\<close>: until the first error every operation is on an object that still exists.
\<close>

fun exec_ops :: "heap \<Rightarrow> (nat \<times> cbb_op) list \<Rightarrow> cbb_run" where
  "exec_ops heap [] c = (True, c)"
| "exec_ops heap ((d, op) # ops) c =
     (let (ok, c) = exec_op heap d op c; (oks, c) = exec_ops heap ops c in (ok \<and> oks, c))"

fun live_ops :: "heap \<Rightarrow> (nat \<times> cbb_op) list \<Rightarrow> cbb_st \<Rightarrow> bool" where
  "live_ops heap [] c \<longleftrightarrow> True"
| "live_ops heap ((d, op) # ops) c \<longleftrightarrow>
     cbb_error c \<or> d \<le> length (children c) \<and> live_ops heap ops (snd (exec_op heap d op c))"

lemma exec_op_locked:
  "cbb_error c \<Longrightarrow> \<exists>c'. exec_op heap d op c = (False, c') \<and> cbb_error c'"
  using locked_op [of heap d op] unfolding locked_def by blast

lemma exec_ops_locked: "cbb_error c \<Longrightarrow> cbb_error (snd (exec_ops heap ops c))"
proof (induction ops arbitrary: c)
  case (Cons x ops)
  obtain d op where x: "x = (d, op)" by fastforce
  obtain c1 where "exec_op heap d op c = (False, c1)" "cbb_error c1"
    using exec_op_locked [OF Cons.prems] by blast
  then show ?case using Cons.IH [of c1] x by (simp add: Let_def split_beta)
qed simp

lemma exec_ops_error:
  assumes "live_ops heap ops c" "\<not> fst (exec_ops heap ops c)"
  shows "cbb_error (snd (exec_ops heap ops c))"
  using assms
proof (induction ops arbitrary: c)
  case (Cons x ops)
  obtain d op where x: "x = (d, op)" by fastforce
  obtain ok c1 where run: "exec_op heap d op c = (ok, c1)" by fastforce
  have tail: "fst (exec_ops heap (x # ops) c) = (ok \<and> fst (exec_ops heap ops c1))"
    "snd (exec_ops heap (x # ops) c) = snd (exec_ops heap ops c1)"
    using run x by (simp_all add: split_beta)
  show ?case
  proof (cases "cbb_error c1")
    case True
    then show ?thesis unfolding tail by (rule exec_ops_locked)
  next
    case False
    then have "\<not> cbb_error c" using exec_op_locked [of c heap d op] run by auto
    then have live: "d \<le> length (children c)" "live_ops heap ops c1"
      using Cons.prems(1) run x by simp_all
    then have ok using stickyD(2) [OF sticky_op live(1), of heap op c1] run False by (cases ok) auto
    then show ?thesis using Cons.IH [OF live(2)] Cons.prems(2) unfolding tail by simp
  qed
qed simp



end
