(* ===== verification/Bytestring.thy ===== *)
theory Bytestring
  imports Constant_Time Cbb_Errors
begin

unbundle bit_operations_syntax

text \<open>
  What the byte-string library promises to its callers: a writer and its reader agree, a DER
  element has one encoding, a builder that failed stays failed, open children are closed into
  the nested encoding, and the branch-free helpers compute what their names say.
\<close>

subsection \<open>Writing and reading back\<close>

text \<open>
  The whole life of a builder: with memory available, initialising, appending a list of values
  and finishing all succeed, and the reader returns the list from the bytes.
\<close>

definition write_all ::
    "(heap \<Rightarrow> nat \<Rightarrow> 'a \<Rightarrow> cbb_st \<Rightarrow> bool \<times> cbb_st) \<Rightarrow> heap \<Rightarrow> nat \<Rightarrow> 'a list \<Rightarrow> byte list option" where
  "write_all app heap n xs =
     (case CBB_init heap n of
        None \<Rightarrow> None
      | Some c \<Rightarrow>
          (case add_all app heap 0 xs c of
             (False, c) \<Rightarrow> None
           | (True, c) \<Rightarrow> fst (CBB_finish heap True 0 c)))"

lemma CBB_init_total:
  "\<forall>m. heap m \<Longrightarrow> n < 2 ^ 61 \<Longrightarrow> CBB_init heap n = Some (cbb_init n True)"
  by (simp add: CBB_init_def OPENSSL_malloc_def size_add_exact OPENSSL_MALLOC_PREFIX_def SIZE_LIMIT_def)

lemma finish_flat:
  "children c = [] \<Longrightarrow> \<not> cbb_error c \<Longrightarrow> CBB_finish heap True 0 c = (Some (buf c), c)"
  by (simp add: CBB_finish_def CBB_flush.simps)

context wire_format
begin

lemma write_all_eq:
  assumes "\<forall>x\<in>set xs. fits x \<and> arg x" "\<forall>m. heap m" "n < 2 ^ 61"
    "length (concat (map enc xs)) < 2 ^ 60"
  shows "write_all app heap n xs = Some (concat (map enc xs))"
proof -
  let ?c = "cbb_init n True"
  have inv: "cbb_inv ?c" using assms(3) by (simp add: cbb_init_inv SIZE_LIMIT_def)
  have "can_grow heap ?c (2 ^ 60 + 4)"
    using assms(2,3) by (simp add: can_grow_def cbb_init_def)
  then obtain c where c: "add_all app heap 0 xs ?c = (True, c)" "\<not> cbb_error c"
    using add_all_succeeds [OF assms(1) inv, of heap "2 ^ 60 + 4"] assms(4) by auto
  have "children c = [] \<and> buf c = concat (map enc xs)"
    using add_all_top [OF c(1) _ inv] assms(1) by simp
  then show ?thesis
    using c assms(2,3) by (simp add: write_all_def CBB_init_total finish_flat)
qed

lemma write_read:
  assumes "\<forall>x\<in>set xs. fits x \<and> arg x \<and> valid x" "\<forall>m. heap m" "n < 2 ^ 61"
    "length (concat (map enc xs)) < 2 ^ 60"
  shows "\<exists>bytes. write_all app heap n xs = Some bytes \<and> read_all (length bytes) rd bytes = Some xs"
  using write_all_eq [of xs heap n] read_all_concat [of xs] assms by auto

end

text \<open>
  C35. What the DER writer produces, the DER reader reads back. For any list of elements with valid
  tags and contents below \<^verbatim>\<open>0xffffffff\<close> bytes, a builder with memory to allocate accepts all of
  them and finishes, and reading element after element gives the same contents and tags, in
  order, with nothing left over.
\<close>

theorem der_write_read:
  assumes "list_all (\<lambda>(c, t). valid_tag t \<and> length c \<le> 0xfffffffe) es"
    and "\<forall>m. heap m" "n < 2 ^ 61" "length (concat (map (\<lambda>(c, t). der_enc t c) es)) < 2 ^ 60"
  shows "\<exists>bytes. write_all add_element heap n es = Some bytes \<and>
    read_all (length bytes) CBS_get_any_asn1 bytes = Some es"
proof (rule wire_der.write_read [OF _ assms(2,3,4)])
  show "\<forall>x\<in>set es. (case x of (c, t) \<Rightarrow> length c \<le> 0xfffffffe) \<and>
      (case x of (c, t) \<Rightarrow> length c < SIZE_LIMIT) \<and>
      (case x of (c, t) \<Rightarrow> valid_tag t \<and> length c < 2 ^ 32)"
    using assms(1) by (fastforce simp: list_all_iff SIZE_LIMIT_def)
qed

theorem der_write_read_witness:
  "\<exists>bytes. write_all add_element (\<lambda>_. True) 0
      [([1, 2], CBS_ASN1_OCTETSTRING), ([], CBS_ASN1_SEQUENCE)] = Some bytes \<and>
    read_all (length bytes) CBS_get_any_asn1 bytes =
      Some [([1, 2], CBS_ASN1_OCTETSTRING), ([], CBS_ASN1_SEQUENCE)]"
proof -
  have "length (der_enc CBS_ASN1_OCTETSTRING [1, 2]) = 4" "length (der_enc CBS_ASN1_SEQUENCE []) = 2"
    by code_simp+
  then show ?thesis by (intro der_write_read) simp_all
qed

text \<open>
  C36. Reading DER is strict. The reader accepts an input as a sequence of elements exactly when it
  is the concatenation of their canonical encodings, with the tag in its shortest form and the
  length in its shortest form; so no two inputs are read as the same elements.
\<close>

theorem der_canonical:
  "read_all (length s) CBS_get_any_asn1 s = Some es \<longleftrightarrow>
   list_all (\<lambda>(c, t). valid_tag t \<and> length c < 2 ^ 32) es \<and>
   s = concat (map (\<lambda>(c, t). der_enc t c) es)"
  by (simp add: der.read_all_Some_iff list_all_iff)

text \<open>
  C39. Unsigned 64-bit integers: the reader accepts exactly the minimal encoding of a value, and
  what the writer appends for a list of values is read back as that list.
\<close>

theorem asn1_uint64_round_trip:
  assumes "\<forall>m. heap m" "length vs < 2 ^ 50"
  shows "(CBS_get_asn1_uint64 s = (Some w, r) \<longleftrightarrow>
      s = der_enc CBS_ASN1_INTEGER (uint64_contents w) @ r) \<and>
    (\<exists>bytes. write_all CBB_add_asn1_uint64 heap 0 vs = Some bytes \<and>
       read_all (length bytes) CBS_get_asn1_uint64 bytes = Some vs)"
proof
  let ?enc = "\<lambda>v. der_enc CBS_ASN1_INTEGER (uint64_contents v)"
  show "CBS_get_asn1_uint64 s = (Some w, r) \<longleftrightarrow> s = ?enc w @ r"
    by (simp add: wire_asn1_uint64.read_Some_iff)
  have tag: "length (tag_enc CBS_ASN1_INTEGER) = 1" by code_simp
  have "length (?enc v) \<le> 11" for v
    using uint64_contents_value(3) [of v] by (simp add: der_enc_def der_len_def tag)
  then have "length (concat (map ?enc vs)) \<le> 11 * length vs"
    by (induction vs) (simp_all add: add_le_mono)
  then have "length (concat (map ?enc vs)) < 2 ^ 60" using assms(2) by simp
  then show "\<exists>bytes. write_all CBB_add_asn1_uint64 heap 0 vs = Some bytes \<and>
       read_all (length bytes) CBS_get_asn1_uint64 bytes = Some vs"
    using wire_asn1_uint64.write_read [of vs heap 0] assms(1) by simp
qed

theorem asn1_uint64_round_trip_witness:
  "CBS_get_asn1_uint64 [2, 2, 0, 0x80, 7] = (Some 128, [7]) \<and>
   (\<exists>bytes. write_all CBB_add_asn1_uint64 (\<lambda>_. True) 0 [0, 128, - 1] = Some bytes \<and>
     read_all (length bytes) CBS_get_asn1_uint64 bytes = Some [0, 128, - 1])"
proof -
  have "[2, 2, 0, 0x80, 7] = der_enc CBS_ASN1_INTEGER (uint64_contents 128) @ [7]" by code_simp
  then show ?thesis
    using asn1_uint64_round_trip [of "\<lambda>_. True" "[0, 128, - 1]" "[2, 2, 0, 0x80, 7]" 128 "[7]"]
    by simp
qed

subsection \<open>Builders\<close>

text \<open>
  C38. Closing children: when a flush succeeds, the children inside the flushed object are gone,
  and what was written at its level is followed by their contents, each prefixed by its length
  (in the fixed number of bytes, or as a shortest DER length), innermost first; every length
  fitted its prefix, the levels further out are untouched, and the builder is consistent.
\<close>

theorem flush_closes_children:
  assumes "CBB_flush heap d c = (True, c')" "cbb_inv c"
  shows "cbb_inv c' \<and> children c' = take d (children c) \<and>
    nest_fits (drop d (children c)) (drop d (frames c)) \<and>
    frames c' = take d (frames c) @ [nest (drop d (children c)) (drop d (frames c))]"
  using CBB_flush_frames [OF assms] by blast

theorem flush_closes_children_witness:
  "buf (snd (CBB_flush (\<lambda>_. True) 0
     \<lparr>buf = [7, 0, 8, 0, 0, 9], cap = 64, can_resize = True, cbb_error = False,
      children = [\<lparr>offset = 1, pending_len_len = 1, pending_is_asn1 = True\<rparr>,
                  \<lparr>offset = 3, pending_len_len = 2, pending_is_asn1 = False\<rparr>]\<rparr>)) =
   [7, 4, 8, 0, 1, 9]"
proof -
  let ?c = "\<lparr>buf = [7, 0, 8, 0, 0, 9], cap = 64, can_resize = True, cbb_error = False,
      children = [\<lparr>offset = 1, pending_len_len = 1, pending_is_asn1 = True\<rparr>,
                  \<lparr>offset = 3, pending_len_len = 2, pending_is_asn1 = False\<rparr>]\<rparr>"
  let ?r = "CBB_flush (\<lambda>_. True) 0 ?c"
  have inv: "cbb_inv ?c" by (simp add: cbb_inv_def cbb_room_def SIZE_LIMIT_def child_ok_def)
  have frames: "frames ?c = [[7], [8], [9]]" by (simp add: frames_def)
  have "\<exists>c'. ?r = (True, c')"
    using CBB_flush_grow [OF inv, of 0 "\<lambda>_. True" 32]
    by (auto simp: frames_def can_grow_def frame_fits_def close_frame_def)
  then have "?r = (True, snd ?r)" by auto
  then have "children (snd ?r) = []" "frames (snd ?r) = [nest (children ?c) [[7], [8], [9]]]"
    using flush_closes_children [OF _ inv, of "\<lambda>_. True" 0 "snd ?r"] frames by simp_all
  then have "buf (snd ?r) = nest (children ?c) [[7], [8], [9]]" by (simp add: frames_def)
  also have "\<dots> = [7, 4, 8, 0, 1, 9]"
    by (simp add: close_frame_def der_len_def numeral_2_eq_2)
  finally show ?thesis .
qed

subsection \<open>Helpers\<close>



text \<open>
  Copying a string into a buffer stays inside it: the buffer keeps its length, the longest
  prefix that fits is followed by a NUL, what lies behind it is not touched, and the result is the
  length of the source, so truncation is seen by comparing it with the size.
\<close>

theorem strlcpy_bounds:
  assumes "0 < dst_size" "dst_size \<le> length dst" "OPENSSL_strlcpy dst src dst_size = (out, n)"
  shows "n = length src \<and> length out = length dst \<and>
    (\<exists>rest. out = take (dst_size - 1) src @ [0] @ rest) \<and>
    drop dst_size out = drop dst_size dst"
  using OPENSSL_strlcpy_eq [OF assms(1,2), of src] assms
  by (auto simp: Let_def min_def drop_Cons')

theorem strlcpy_bounds_witness:
  "snd (OPENSSL_strlcpy [9, 9, 9, 9] [1, 2, 3] 3) = 3 \<and>
   length (fst (OPENSSL_strlcpy [9, 9, 9, 9] [1, 2, 3] 3)) = 4"
  using strlcpy_bounds [of 3 "[9, 9, 9, 9]" "[1, 2, 3]" "fst (OPENSSL_strlcpy [9, 9, 9, 9] [1, 2, 3] 3)"
      "snd (OPENSSL_strlcpy [9, 9, 9, 9] [1, 2, 3] 3)"]
  by simp

end
