(* ===== verification/Rust_Io.thy ===== *)
theory Rust_Io
  imports Prelude
begin

text \<open>
  The vocabulary of the Rust crates: a fallible computation returns a value, an error with
  its text, or panics; a stateful one returns its outcome with the state it leaves, an error
  or a panic included. \<open>keeps R\<close> says that a computation only moves along \<open>R\<close>, whatever its
  outcome; its rules carry the invariants of the components through the combinators.
\<close>

named_theorems io_simps \<open>how the combinators compute\<close>
named_theorems keeps_rules \<open>invariants carried through the combinators\<close>

subsection \<open>Outcomes\<close>

datatype 'a outcome = Done 'a | Fail string | Panicked string

type_synonym ('s, 'a) io = "'s \<Rightarrow> 'a outcome \<times> 's"

definition ret :: "'a \<Rightarrow> ('s, 'a) io" where
  "ret x s = (Done x, s)"

definition bail :: "string \<Rightarrow> ('s, 'a) io" where
  "bail e s = (Fail e, s)"

definition panic :: "string \<Rightarrow> ('s, 'a) io" where
  "panic e s = (Panicked e, s)"

definition andthen :: "('s, 'a) io \<Rightarrow> ('a \<Rightarrow> ('s, 'b) io) \<Rightarrow> ('s, 'b) io" where
  "andthen m f s =
     (case m s of
        (Done x, s') \<Rightarrow> f x s'
      | (Fail e, s') \<Rightarrow> (Fail e, s')
      | (Panicked e, s') \<Rightarrow> (Panicked e, s'))"

text \<open>\<^verbatim>\<open>ensure!(c, e)\<close> followed by the rest of the function.\<close>

definition ensure :: "bool \<Rightarrow> string \<Rightarrow> ('s, 'a) io \<Rightarrow> ('s, 'a) io" where
  "ensure c e m = (if c then m else bail e)"

text \<open>The operator \<^verbatim>\<open>?\<close> on a result that touches no state.\<close>

definition attempt :: "'a outcome \<Rightarrow> ('s, 'a) io" where
  "attempt r s = (r, s)"

definition gets :: "('s \<Rightarrow> 'a) \<Rightarrow> ('s, 'a) io" where
  "gets f s = (Done (f s), s)"

definition modify :: "('s \<Rightarrow> 's) \<Rightarrow> ('s, unit) io" where
  "modify f s = (Done (), f s)"

text \<open>\<^verbatim>\<open>Option::context\<close>, \<^verbatim>\<open>Result::context\<close> and \<^verbatim>\<open>Result::map_err\<close> with a fixed text.\<close>

definition opt_context :: "string \<Rightarrow> 'a option \<Rightarrow> 'a outcome" where
  "opt_context e r = (case r of None \<Rightarrow> Fail e | Some x \<Rightarrow> Done x)"

definition err_context :: "string \<Rightarrow> 'a outcome \<Rightarrow> 'a outcome" where
  "err_context e r = (case r of Fail cause \<Rightarrow> Fail (e @ '': '' @ cause) | _ \<Rightarrow> r)"

definition map_err :: "string \<Rightarrow> 'a outcome \<Rightarrow> 'a outcome" where
  "map_err e r = (case r of Fail _ \<Rightarrow> Fail e | _ \<Rightarrow> r)"

text \<open>A computation on a part of the state, read with \<open>get\<close> and written back with \<open>put\<close>.\<close>

definition on_part :: "('s \<Rightarrow> 'p) \<Rightarrow> ('p \<Rightarrow> 's \<Rightarrow> 's) \<Rightarrow> ('p, 'a) io \<Rightarrow> ('s, 'a) io" where
  "on_part get put m s = (let (r, p) = m (get s) in (r, put p s))"

lemma io_combinators [io_simps]:
  "ret x s = (Done x, s)"
  "bail e s = (Fail e, s)"
  "panic e s = (Panicked e, s)"
  "attempt r s = (r, s)"
  "gets f s = (Done (f s), s)"
  "modify g s = (Done (), g s)"
  "ensure True e m = m"
  "ensure False e m = bail e"
  by (simp_all add: ret_def bail_def panic_def attempt_def gets_def modify_def ensure_def)

lemma andthen_simps [io_simps]:
  "m s = (Done x, s') \<Longrightarrow> andthen m f s = f x s'"
  "m s = (Fail e, s') \<Longrightarrow> andthen m f s = (Fail e, s')"
  "m s = (Panicked e, s') \<Longrightarrow> andthen m f s = (Panicked e, s')"
  by (simp_all add: andthen_def)

lemma andthen_Done_iff:
  "andthen m f s = (Done y, t) \<longleftrightarrow> (\<exists>x s'. m s = (Done x, s') \<and> f x s' = (Done y, t))"
  by (auto simp: andthen_def split: prod.splits outcome.splits)

lemma ensure_Done_iff: "ensure c e m s = (Done y, t) \<longleftrightarrow> c \<and> m s = (Done y, t)"
  by (simp add: ensure_def bail_def)

lemma ret_Done_iff: "ret x s = (Done y, t) \<longleftrightarrow> x = y \<and> s = t"
  by (simp add: ret_def)

lemma attempt_Done_iff: "attempt r s = (Done y, t) \<longleftrightarrow> r = Done y \<and> s = t"
  by (simp add: attempt_def)

lemma gets_Done_iff: "gets f s = (Done y, t) \<longleftrightarrow> f s = y \<and> s = t"
  by (simp add: gets_def)

lemma modify_Done_iff: "modify f s = (Done y, t) \<longleftrightarrow> f s = t"
  by (simp add: modify_def)

lemma bail_Done_iff: "bail e s = (Done y, t) \<longleftrightarrow> False"
  by (simp add: bail_def)

lemmas done_iffs =
  andthen_Done_iff ensure_Done_iff ret_Done_iff attempt_Done_iff gets_Done_iff modify_Done_iff
  bail_Done_iff

lemma opt_context_Done_iff [simp]: "opt_context e r = Done x \<longleftrightarrow> r = Some x"
  by (simp add: opt_context_def split: option.splits)

lemma map_err_Done_iff [simp]: "map_err e r = Done x \<longleftrightarrow> r = Done x"
  by (simp add: map_err_def split: outcome.splits)

lemma err_context_Done_iff [simp]: "err_context e r = Done x \<longleftrightarrow> r = Done x"
  by (simp add: err_context_def split: outcome.splits)

lemma andthen_assoc: "andthen (andthen m f) g = andthen m (\<lambda>x. andthen (f x) g)"
  by (auto simp: andthen_def fun_eq_iff split: prod.splits outcome.splits)

subsection \<open>Computations that keep a property of the state\<close>

definition keeps :: "('s \<Rightarrow> 's \<Rightarrow> bool) \<Rightarrow> ('s, 'a) io \<Rightarrow> bool" where
  "keeps R m \<longleftrightarrow> (\<forall>s. R s (snd (m s)))"

definition progress_order :: "('s \<Rightarrow> 's \<Rightarrow> bool) \<Rightarrow> bool" where
  "progress_order R \<longleftrightarrow> reflp R \<and> transp R"

lemma keepsI: "(\<And>s. R s (snd (m s))) \<Longrightarrow> keeps R m"
  by (simp add: keeps_def)

lemma keepsD: "keeps R m \<Longrightarrow> R s (snd (m s))"
  by (simp add: keeps_def)

lemma keeps_pure [keeps_rules]:
  assumes "progress_order R"
  shows "keeps R (ret x)" "keeps R (bail e)" "keeps R (panic e)" "keeps R (attempt r)"
    "keeps R (gets f)"
  using assms
  by (simp_all add: keeps_def progress_order_def io_simps reflpD)

lemma keeps_andthen [keeps_rules]:
  assumes "progress_order R" "keeps R m" "\<And>x. keeps R (f x)"
  shows "keeps R (andthen m f)"
proof (rule keepsI)
  fix s
  obtain r s' where m: "m s = (r, s')" by fastforce
  with assms(2) have "R s s'" by (metis keepsD snd_conv)
  moreover have "R s' (snd (f x s'))" for x by (rule keepsD [OF assms(3)])
  moreover have "transp R" using assms(1) by (simp add: progress_order_def)
  ultimately show "R s (snd (andthen m f s))"
    using m by (cases r) (auto simp: andthen_def dest: transpD)
qed

lemma keeps_ensure [keeps_rules]:
  assumes "progress_order R" "keeps R m"
  shows "keeps R (ensure c e m)"
  using assms by (auto simp: ensure_def intro: keeps_pure)

lemma keeps_modify: "(\<And>s. R s (f s)) \<Longrightarrow> keeps R (modify f)"
  by (simp add: keeps_def io_simps)

lemma keeps_if [keeps_rules]:
  "(c \<Longrightarrow> keeps R m) \<Longrightarrow> (\<not> c \<Longrightarrow> keeps R m') \<Longrightarrow> keeps R (if c then m else m')"
  by simp

lemma keeps_option [keeps_rules]:
  "keeps R m \<Longrightarrow> (\<And>x. keeps R (f x)) \<Longrightarrow> keeps R (case x of None \<Rightarrow> m | Some x \<Rightarrow> f x)"
  by (simp split: option.splits)

lemma keeps_prod [keeps_rules]:
  "(\<And>x y. keeps R (f x y)) \<Longrightarrow> keeps R (case p of (x, y) \<Rightarrow> f x y)"
  by (simp split: prod.splits)

lemma keeps_Let [keeps_rules]: "(\<And>x. keeps R (f x)) \<Longrightarrow> keeps R (Let v f)"
  by (simp add: Let_def)

end
