(* ===== verification/Ffi_Packets.thy ===== *)
theory Ffi_Packets
  imports Rust_Io
begin

text \<open>
  The packet path between the core and the host, \<^verbatim>\<open>crates/ffi/src/host.rs\<close>: bounded channels
  of the \<^verbatim>\<open>tokio\<close> crate (a queue with a capacity, closed from either end), the flag that
  coalesces the \<^verbatim>\<open>packet_ready\<close> notifications, the queue from which the host reads with its
  pending packet, and the sending and receiving ends the core uses. The operations of this
  theory are whole calls; their steps are interleaved in \<^verbatim>\<open>Ffi_Wake\<close>.
\<close>

subsection \<open>Channels\<close>

record 'a channel =
  items :: "'a list"
  senders_gone :: bool
  receiver_gone :: bool

definition new_channel :: "'a channel" where
  "new_channel = \<lparr>items = [], senders_gone = False, receiver_gone = False\<rparr>"

datatype send_error = Full | Closed

definition try_send :: "nat \<Rightarrow> 'a \<Rightarrow> 'a channel \<Rightarrow> (send_error + unit) \<times> 'a channel" where
  "try_send cap x c =
     (if receiver_gone c then (Inl Closed, c)
      else if length (items c) < cap then (Inr (), c\<lparr>items := items c @ [x]\<rparr>)
      else (Inl Full, c))"

datatype recv_error = Empty | Disconnected

definition try_recv :: "'a channel \<Rightarrow> (recv_error + 'a) \<times> 'a channel" where
  "try_recv c =
     (case items c of
        x # xs \<Rightarrow> (Inr x, c\<lparr>items := xs\<rparr>)
      | [] \<Rightarrow> (Inl (if senders_gone c then Disconnected else Empty), c))"

lemma try_send_FIFO:
  "fst (try_send cap x c) = Inr () \<Longrightarrow> items (snd (try_send cap x c)) = items c @ [x]"
  by (simp add: try_send_def split: if_splits)

lemma try_send_bound:
  "length (items c) \<le> cap \<Longrightarrow> length (items (snd (try_send cap x c))) \<le> cap"
  by (simp add: try_send_def)

subsection \<open>Coalesced notifications\<close>

text \<open>The flag of \<^verbatim>\<open>PacketWake\<close>; \<open>queued\<close> also says whether to notify the host.\<close>

definition wake_queued :: "bool \<Rightarrow> bool \<times> bool" where
  "wake_queued flag = (\<not> flag, True)"

definition wake_emptied :: "bool \<Rightarrow> bool" where
  "wake_emptied flag = False"

definition wake_draining :: "bool \<Rightarrow> bool" where
  "wake_draining flag = True"

subsection \<open>The reading side of the host\<close>

type_synonym packet = "byte list"

record packets_out =
  receiver :: "packet channel"
  pending :: "packet option"
  wake :: bool

definition packets_fill :: "(packets_out, bool) io" where
  "packets_fill q =
     (if pending q \<noteq> None then (Done True, q)
      else
        (case try_recv (receiver q) of
           (Inr packet, c) \<Rightarrow> (Done True, q\<lparr>receiver := c, pending := Some packet\<rparr>)
         | (Inl Disconnected, _) \<Rightarrow> (Fail ''packet channel closed'', q)
         | (Inl Empty, c) \<Rightarrow>
             (let q = q\<lparr>receiver := c, wake := wake_emptied (wake q)\<rparr>
              in case try_recv (receiver q) of
                   (Inr packet, c) \<Rightarrow>
                     (Done True,
                      q\<lparr>receiver := c, wake := wake_draining (wake q), pending := Some packet\<rparr>)
                 | (Inl Empty, _) \<Rightarrow> (Done False, q)
                 | (Inl Disconnected, _) \<Rightarrow> (Fail ''packet channel closed'', q))))"

subsection \<open>The core's side\<close>

definition PACKET_QUEUE :: nat where "PACKET_QUEUE = 256"

text \<open>
  \<^verbatim>\<open>HostPackets::send\<close> once the channel has room: the packet is queued, then the flag decides
  whether the host is notified. The result says whether \<open>notify\<close> is called.
\<close>

definition packets_send :: "bool \<Rightarrow> packet \<Rightarrow> (packets_out, bool) io" where
  "packets_send has_notify packet q =
     (case try_send PACKET_QUEUE packet (receiver q) of
        (Inl _, _) \<Rightarrow> (Fail ''channel closed'', q)
      | (Inr _, c) \<Rightarrow>
          (let (notify, flag) = wake_queued (wake q)
           in (Done (notify \<and> has_notify), q\<lparr>receiver := c, wake := flag\<rparr>)))"

text \<open>\<^verbatim>\<open>HostPackets::recv\<close> into a buffer of \<open>room\<close> bytes, once the channel has an item or is closed.\<close>

definition packets_recv :: "nat \<Rightarrow> (packet channel, packet) io" where
  "packets_recv room c =
     (case try_recv c of
        (Inl _, c) \<Rightarrow> (Fail ''host packet channel closed'', c)
      | (Inr bytes, c) \<Rightarrow>
          if length bytes \<le> room then (Done bytes, c)
          else (Fail ''host packet buffer too small'', c))"

subsection \<open>What the host still has to read\<close>

definition unread :: "packets_out \<Rightarrow> packet list" where
  "unread q = (case pending q of None \<Rightarrow> [] | Some p \<Rightarrow> [p]) @ items (receiver q)"

text \<open>With no sender interleaved, the second look finds what the first found.\<close>

lemma packets_fill_eq:
  "packets_fill q =
     (case pending q of
        Some _ \<Rightarrow> (Done True, q)
      | None \<Rightarrow>
          (case items (receiver q) of
             x # xs \<Rightarrow>
               (Done True, q\<lparr>receiver := (receiver q)\<lparr>items := xs\<rparr>, pending := Some x\<rparr>)
           | [] \<Rightarrow>
               if senders_gone (receiver q) then (Fail ''packet channel closed'', q)
               else (Done False, q\<lparr>wake := False\<rparr>)))"
  by (simp add: packets_fill_def try_recv_def wake_emptied_def Let_def
      split: list.splits option.splits)

lemma packets_fill_unread: "unread (snd (packets_fill q)) = unread q"
  by (auto simp: packets_fill_eq unread_def
      split: list.splits option.splits if_splits)

lemma packets_fill_True_iff: "fst (packets_fill q) = Done True \<longleftrightarrow> unread q \<noteq> []"
  by (auto simp: packets_fill_eq unread_def
      split: list.splits option.splits if_splits)

lemma packets_fill_pending:
  "fst (packets_fill q) = Done True \<Longrightarrow> pending (snd (packets_fill q)) = Some (hd (unread q))"
  by (auto simp: packets_fill_eq unread_def
      split: list.splits option.splits if_splits)

lemma packets_fill_False_iff:
  "fst (packets_fill q) = Done False \<longleftrightarrow> unread q = [] \<and> \<not> senders_gone (receiver q)"
  by (auto simp: packets_fill_eq unread_def
      split: list.splits option.splits if_splits)

lemma packets_fill_rearms:
  "fst (packets_fill q) = Done False \<Longrightarrow> \<not> wake (snd (packets_fill q))"
  by (auto simp: packets_fill_eq
      split: list.splits option.splits if_splits)

lemma packets_fill_not_panic [simp]: "fst (packets_fill q) \<noteq> Panicked e"
  by (auto simp: packets_fill_eq split: list.splits option.splits if_splits)

lemma packets_fill_frame [simp]:
  "senders_gone (receiver (snd (packets_fill q))) = senders_gone (receiver q)"
  "receiver_gone (receiver (snd (packets_fill q))) = receiver_gone (receiver q)"
  by (auto simp: packets_fill_eq split: list.splits option.splits if_splits)

lemma packets_fill_keeps_length:
  "length (items (receiver (snd (packets_fill q)))) \<le> length (items (receiver q))"
  by (auto simp: packets_fill_eq split: list.splits option.splits if_splits)

lemma packets_send_unread:
  "fst (packets_send n p q) = Done b \<Longrightarrow> unread (snd (packets_send n p q)) = unread q @ [p]"
  by (auto simp: packets_send_def try_send_def unread_def wake_queued_def
      split: option.splits if_splits)

end
