(* ===== verification/Ffi_Wake.thy ===== *)
theory Ffi_Wake
  imports Ffi_Packets
begin

text \<open>
  The packet path of \<^verbatim>\<open>crates/ffi/src/host.rs\<close> with its steps interleaved: any number of tasks
  of the core run \<^verbatim>\<open>HostPackets::send\<close> while the host drains with \<^verbatim>\<open>PacketsOut::fill\<close> when it
  was notified, as the header asks it to. One step is one access to shared state (an
  operation on the channel, or a swap or store of the flag), and the steps of different
  tasks interleave in any order; the swaps are acquire-release operations on one flag, so
  a sequentially consistent interleaving is what the code relies on. The ghost lists
  \<open>sent\<close> and \<open>got\<close> and the ghost counters record the history.

  No wakeup is lost: when nothing is left to run, every packet was read, in the order it was
  sent. Without new packets every run is finite and ends that way. Notifications are
  coalesced: each one after the first needs a fresh look that found the queue empty.
\<close>

datatype sender_pc = S_Idle | S_Queued | S_Notify

datatype reader_pc = R_Sleep | R_Fill | R_Empty | R_Recheck | R_Drain packet | R_Got

record wake_sys =
  chan :: "packet list"
  flag :: bool
  pend :: "packet option"
  senders :: "sender_pc list"
  reader :: reader_pc
  signalled :: bool
  sent :: "packet list"
  got :: "packet list"
  notifications :: nat
  emptyings :: nat
  would_blocks :: nat

definition wake_init :: "nat \<Rightarrow> wake_sys" where
  "wake_init n =
     \<lparr>chan = [], flag = False, pend = None, senders = replicate n S_Idle, reader = R_Sleep,
      signalled = False, sent = [], got = [], notifications = 0, emptyings = 0,
      would_blocks = 0\<rparr>"

subsection \<open>Steps\<close>

text \<open>The steps that finish what was begun: no new packet, and no further try of the host.\<close>

inductive wake_internal :: "wake_sys \<Rightarrow> wake_sys \<Rightarrow> bool" where
  swap: "\<lbrakk>i < length (senders s); senders s ! i = S_Queued; wake_queued (flag s) = (notify, f)\<rbrakk>
    \<Longrightarrow> wake_internal s
          (s\<lparr>flag := f, senders := (senders s)[i := if notify then S_Notify else S_Idle]\<rparr>)"
| notify: "\<lbrakk>i < length (senders s); senders s ! i = S_Notify\<rbrakk>
    \<Longrightarrow> wake_internal s
          (s\<lparr>signalled := True, notifications := Suc (notifications s),
             senders := (senders s)[i := S_Idle]\<rparr>)"
| host_wakes: "\<lbrakk>reader s = R_Sleep; signalled s\<rbrakk>
    \<Longrightarrow> wake_internal s (s\<lparr>reader := R_Fill, signalled := False\<rparr>)"
| fill_pending: "\<lbrakk>reader s = R_Fill; pend s \<noteq> None\<rbrakk> \<Longrightarrow> wake_internal s (s\<lparr>reader := R_Got\<rparr>)"
| fill_recv: "\<lbrakk>reader s = R_Fill; pend s = None; chan s = p # ps\<rbrakk>
    \<Longrightarrow> wake_internal s (s\<lparr>chan := ps, pend := Some p, reader := R_Got\<rparr>)"
| fill_empty: "\<lbrakk>reader s = R_Fill; pend s = None; chan s = []\<rbrakk>
    \<Longrightarrow> wake_internal s (s\<lparr>reader := R_Empty\<rparr>)"
| emptied: "reader s = R_Empty
    \<Longrightarrow> wake_internal s
          (s\<lparr>flag := wake_emptied (flag s), emptyings := Suc (emptyings s), reader := R_Recheck\<rparr>)"
| recheck_recv: "\<lbrakk>reader s = R_Recheck; chan s = p # ps\<rbrakk>
    \<Longrightarrow> wake_internal s (s\<lparr>chan := ps, reader := R_Drain p\<rparr>)"
| recheck_empty: "\<lbrakk>reader s = R_Recheck; chan s = []\<rbrakk>
    \<Longrightarrow> wake_internal s (s\<lparr>would_blocks := Suc (would_blocks s), reader := R_Sleep\<rparr>)"
| draining: "reader s = R_Drain p
    \<Longrightarrow> wake_internal s (s\<lparr>flag := wake_draining (flag s), pend := Some p, reader := R_Got\<rparr>)"
| deliver: "\<lbrakk>reader s = R_Got; pend s = Some p\<rbrakk>
    \<Longrightarrow> wake_internal s (s\<lparr>got := got s @ [p], pend := None, reader := R_Fill\<rparr>)"

text \<open>
  The steps that begin something: a task queues a packet, the host reads without having been
  notified, and the host reads with a buffer that is too small and has to try again.
\<close>

inductive wake_external :: "wake_sys \<Rightarrow> wake_sys \<Rightarrow> bool" where
  queue: "\<lbrakk>i < length (senders s); senders s ! i = S_Idle; length (chan s) < PACKET_QUEUE\<rbrakk>
    \<Longrightarrow> wake_external s
          (s\<lparr>chan := chan s @ [p], senders := (senders s)[i := S_Queued], sent := sent s @ [p]\<rparr>)"
| poll: "reader s = R_Sleep \<Longrightarrow> wake_external s (s\<lparr>reader := R_Fill\<rparr>)"
| too_small: "reader s = R_Got \<Longrightarrow> wake_external s (s\<lparr>reader := R_Fill\<rparr>)"

inductive wake_reach :: "nat \<Rightarrow> wake_sys \<Rightarrow> bool" for n where
  reach_init: "wake_reach n (wake_init n)"
| reach_internal: "wake_reach n s \<Longrightarrow> wake_internal s t \<Longrightarrow> wake_reach n t"
| reach_external: "wake_reach n s \<Longrightarrow> wake_external s t \<Longrightarrow> wake_reach n t"

inductive_cases wake_internalE: "wake_internal s t"
inductive_cases wake_externalE: "wake_external s t"

subsection \<open>The invariant\<close>

definition held :: "wake_sys \<Rightarrow> packet list" where
  "held s =
     (case pend s of None \<Rightarrow> [] | Some p \<Rightarrow> [p]) @
     (case reader s of R_Drain p \<Rightarrow> [p] | _ \<Rightarrow> [])"

text \<open>The host is between a notification and the read that answers \<^verbatim>\<open>META_WOULD_BLOCK\<close>.\<close>

definition reading :: "wake_sys \<Rightarrow> bool" where
  "reading s \<longleftrightarrow> reader s \<noteq> R_Sleep \<and> reader s \<noteq> R_Recheck"

definition wake_inv :: "wake_sys \<Rightarrow> bool" where
  "wake_inv s \<longleftrightarrow>
     sent s = got s @ held s @ chan s \<and>
     (pend s \<noteq> None \<longrightarrow> reader s = R_Fill \<or> reader s = R_Got) \<and>
     (reader s = R_Got \<longrightarrow> pend s \<noteq> None) \<and>
     (flag s \<longrightarrow> signalled s \<or> S_Notify \<in> set (senders s) \<or> reading s) \<and>
     (chan s \<noteq> [] \<longrightarrow> flag s \<or> S_Queued \<in> set (senders s) \<or> reader s \<noteq> R_Sleep) \<and>
     notifications s + count_list (senders s) S_Notify \<le> emptyings s + of_bool (flag s)"

lemma in_set_update_other:
  "v \<in> set xs \<Longrightarrow> i < length xs \<Longrightarrow> xs ! i \<noteq> v \<Longrightarrow> v \<in> set (xs[i := u])"
  by (metis in_set_conv_nth length_list_update nth_list_update_neq)

lemma count_list_update:
  "i < length xs \<Longrightarrow>
   count_list (xs[i := u]) v + of_bool (xs ! i = v) = count_list xs v + of_bool (u = v)"
proof (induction xs arbitrary: i)
  case (Cons x xs)
  then show ?case by (cases i) (auto simp: Cons.IH)
qed simp

subsubsection \<open>Every step keeps it\<close>

lemma wake_init_inv: "wake_inv (wake_init n)"
  by (simp add: wake_inv_def wake_init_def held_def reading_def)

lemma swap_inv:
  assumes inv: "wake_inv s" and i: "i < length (senders s)" "senders s ! i = S_Queued"
    and q: "wake_queued (flag s) = (notify, f)"
  shows "wake_inv (s\<lparr>flag := f, senders := (senders s)[i := if notify then S_Notify else S_Idle]\<rparr>)"
proof -
  have nf: "notify = (\<not> flag s)" "f" using q by (auto simp: wake_queued_def)
  show ?thesis
    using inv i nf in_set_update_other [of S_Notify "senders s" i S_Idle]
      count_list_update [OF i(1), of "if notify then S_Notify else S_Idle" S_Notify]
    by (cases "flag s") (auto simp: wake_inv_def held_def reading_def set_update_memI)
qed

lemma notify_inv:
  assumes inv: "wake_inv s" and i: "i < length (senders s)" "senders s ! i = S_Notify"
  shows "wake_inv (s\<lparr>signalled := True, notifications := Suc (notifications s),
             senders := (senders s)[i := S_Idle]\<rparr>)"
  using inv i in_set_update_other [of S_Queued "senders s" i S_Idle]
    count_list_update [OF i(1), of S_Idle S_Notify]
  by (auto simp: wake_inv_def held_def reading_def)

lemma wake_internal_inv: "wake_internal s t \<Longrightarrow> wake_inv s \<Longrightarrow> wake_inv t"
proof (induction rule: wake_internal.induct)
  case swap
  then show ?case by (intro swap_inv)
next
  case notify
  then show ?case by (intro notify_inv)
next
  case (emptied s)
  then show ?case
    by (cases "flag s") (auto simp: wake_inv_def held_def reading_def wake_emptied_def)
next
  case (draining s p)
  then show ?case
    by (cases "flag s") (auto simp: wake_inv_def held_def reading_def wake_draining_def)
qed (auto simp: wake_inv_def held_def reading_def split: option.splits reader_pc.splits)

lemma wake_external_inv: "wake_external s t \<Longrightarrow> wake_inv s \<Longrightarrow> wake_inv t"
proof (induction rule: wake_external.induct)
  case (queue i s p)
  then show ?case
    using in_set_update_other [of S_Notify "senders s" i S_Queued]
      count_list_update [OF queue(1), of S_Queued S_Notify]
    by (auto simp: wake_inv_def held_def reading_def set_update_memI)
qed (auto simp: wake_inv_def held_def reading_def split: option.splits)

lemma wake_reach_inv: "wake_reach n s \<Longrightarrow> wake_inv s"
  by (induction rule: wake_reach.induct) (auto intro: wake_init_inv wake_internal_inv wake_external_inv)

subsection \<open>Nothing is left behind\<close>

text \<open>No task of the core and no read of the host is under way, and the host has no wakeup to act on.\<close>

definition quiescent :: "wake_sys \<Rightarrow> bool" where
  "quiescent s \<longleftrightarrow> reader s = R_Sleep \<and> \<not> signalled s \<and> (\<forall>pc\<in>set (senders s). pc = S_Idle)"

lemma quiescent_inv:
  assumes "wake_inv s" "quiescent s"
  shows "chan s = []" "got s = sent s" "\<not> flag s"
  using assms by (auto simp: wake_inv_def quiescent_def held_def reading_def split: option.splits)

lemma internal_or_quiescent:
  assumes "wake_inv s"
  shows "quiescent s \<or> (\<exists>t. wake_internal s t)"
proof (cases "\<exists>i < length (senders s). senders s ! i \<noteq> S_Idle")
  case True
  then obtain i where i: "i < length (senders s)" "senders s ! i \<noteq> S_Idle" by auto
  then consider "senders s ! i = S_Queued" | "senders s ! i = S_Notify"
    by (cases "senders s ! i") auto
  then show ?thesis
  proof cases
    case 1
    from wake_internal.swap [OF i(1) this] show ?thesis by (auto simp: wake_queued_def)
  next
    case 2
    from wake_internal.notify [OF i(1) this] show ?thesis by auto
  qed
next
  case False
  then have idle: "\<forall>pc\<in>set (senders s). pc = S_Idle" by (metis in_set_conv_nth)
  show ?thesis
  proof (cases "reader s")
    case R_Sleep
    then show ?thesis using idle by (auto simp: quiescent_def intro: wake_internal.host_wakes)
  next
    case R_Fill
    then show ?thesis 
      by (cases "pend s"; cases "chan s") (auto intro: wake_internal.intros)
  next
    case R_Recheck
    then show ?thesis by (cases "chan s") (auto intro: wake_internal.intros)
  next
    case R_Got
    then show ?thesis using assms by (auto simp: wake_inv_def intro: wake_internal.deliver)
  qed (auto intro: wake_internal.intros)
qed

subsection \<open>Runs without new packets end\<close>

fun sender_weight :: "sender_pc \<Rightarrow> nat" where
  "sender_weight S_Idle = 0"
| "sender_weight S_Notify = 5"
| "sender_weight S_Queued = 6"

fun reader_weight :: "reader_pc \<Rightarrow> nat" where
  "reader_weight R_Sleep = 0"
| "reader_weight R_Recheck = 1"
| "reader_weight R_Empty = 2"
| "reader_weight R_Got = 2"
| "reader_weight R_Fill = 3"
| "reader_weight (R_Drain p) = 5"

definition work :: "wake_sys \<Rightarrow> nat" where
  "work s =
     5 * length (chan s) + (if pend s = None then 0 else 2) +
     sum_list (map sender_weight (senders s)) + reader_weight (reader s) +
     4 * of_bool (signalled s)"

lemma sum_weight_update:
  "i < length xs \<Longrightarrow>
   sum_list (map sender_weight (xs[i := u])) + sender_weight (xs ! i) =
   sum_list (map sender_weight xs) + sender_weight u"
proof (induction xs arbitrary: i)
  case (Cons x xs)
  then show ?case by (cases i) (auto simp: Cons.IH)
qed simp

lemma work_decreases: "wake_internal s t \<Longrightarrow> wake_inv s \<Longrightarrow> work t < work s"
proof (induction rule: wake_internal.induct)
  case (swap i s notify f)
  then show ?case using sum_weight_update [OF swap(1), of "if notify then S_Notify else S_Idle"]
    by (auto simp: work_def)
next
  case (notify i s)
  then show ?case using sum_weight_update [OF notify(1), of S_Idle]
    by (auto simp: work_def)
qed (auto simp: work_def wake_inv_def)

lemma wake_internal_sent: "wake_internal s t \<Longrightarrow> sent t = sent s"
  by (induction rule: wake_internal.induct) simp_all

lemma wake_internal_run:
  assumes "(wake_internal ^^ k) s t" "wake_inv s"
  shows "wake_inv t \<and> sent t = sent s \<and> k + work t \<le> work s"
  using assms(1)
proof (induction k arbitrary: t)
  case (Suc k)
  then obtain u where u: "(wake_internal ^^ k) s u" "wake_internal u t" by auto
  with Suc.IH have "wake_inv u" "sent u = sent s" "k + work u \<le> work s" by auto
  with u(2) show ?case
    using wake_internal_inv work_decreases wake_internal_sent by fastforce
qed (use assms(2) in simp)

lemma wake_internal_finishes:
  assumes "wake_inv s"
  shows "\<exists>k t. (wake_internal ^^ k) s t \<and> quiescent t"
  using assms
proof (induction "work s" arbitrary: s rule: less_induct)
  case less
  show ?case
  proof (cases "quiescent s")
    case True
    then show ?thesis by (metis relpowp_0_I)
  next
    case False
    then obtain u where u: "wake_internal s u" using internal_or_quiescent less.prems by blast
    then obtain k t where "(wake_internal ^^ k) u t" "quiescent t"
      using less.hyps [of u] work_decreases wake_internal_inv less.prems by blast
    then show ?thesis using u by (metis relpowp_Suc_I2)
  qed
qed

text \<open>
  C15: Whatever the interleaving of sending tasks and the reading host, once every task has
  returned and the host has acted on its last notification and sleeps, the host has read
  every packet that was queued, in the order it was queued: no wakeup is lost.
\<close>
theorem no_lost_wakeup:
  assumes "wake_reach n s" "quiescent s"
  shows "got s = sent s \<and> chan s = []"
  using quiescent_inv [OF wake_reach_inv [OF assms(1)] assms(2)] by simp

text \<open>
  C25: Packets do arrive. From every reachable state, with no new packet and a host whose
  buffers are large enough, every run is finite, at most \<open>work s\<close> steps long; the runs that
  cannot be continued end with all packets read, and there is such a run.
\<close>
theorem packets_arrive:
  assumes "wake_reach n s"
  shows "(\<exists>k t. (wake_internal ^^ k) s t \<and> quiescent t) \<and>
    (\<forall>k t. (wake_internal ^^ k) s t \<longrightarrow>
       k \<le> work s \<and> ((\<nexists>u. wake_internal t u) \<longrightarrow> got t = sent s))"
proof (intro conjI allI impI)
  have inv: "wake_inv s" by (rule wake_reach_inv [OF assms])
  then show "\<exists>k t. (wake_internal ^^ k) s t \<and> quiescent t" by (rule wake_internal_finishes)
  fix k t
  assume run: "(wake_internal ^^ k) s t"
  note r = wake_internal_run [OF run inv]
  show "k \<le> work s" using r by simp
  assume "\<nexists>u. wake_internal t u"
  then show "got t = sent s" using r internal_or_quiescent quiescent_inv(2) by metis
qed

text \<open>
  Notifications are coalesced: beyond the first, each needs a fresh look of the host that
  found the queue empty and re-armed the flag.
\<close>
theorem notifications_coalesced:
  assumes "wake_reach n s"
  shows "notifications s \<le> Suc (emptyings s)"
  using wake_reach_inv [OF assms] by (cases "flag s") (simp_all add: wake_inv_def)

subsection \<open>A read that is not interrupted\<close>

text \<open>The queue as the whole-call functions see it.\<close>

definition queue_of :: "wake_sys \<Rightarrow> packets_out" where
  "queue_of s =
     \<lparr>receiver = \<lparr>items = chan s, senders_gone = False, receiver_gone = False\<rparr>,
      pending = pend s, wake = flag s\<rparr>"

text \<open>
  The steps of a read that no sender interrupts are the function \<^verbatim>\<open>fill\<close>: they end with
  the queue, the pending packet and the flag that it leaves, and with a packet in hand or
  asleep as it returns true or false.
\<close>
theorem fill_refines:
  assumes "reader s = R_Fill"
  shows "\<exists>k t. (wake_internal ^^ k) s t \<and> queue_of t = snd (packets_fill (queue_of s)) \<and>
    fst (packets_fill (queue_of s)) = Done (reader t = R_Got) \<and> (reader t = R_Got \<or> reader t = R_Sleep)"
proof (cases "pend s = None")
  case False
  then have run: "(wake_internal ^^ 1) s (s\<lparr>reader := R_Got\<rparr>)"
    using fill_pending [OF assms False] by (simp only: relpowp_1)
  show ?thesis
    by (intro exI conjI, rule run) (use False in \<open>auto simp: packets_fill_eq queue_of_def\<close>)
next
  case pend: True
  show ?thesis
  proof (cases "chan s")
    case (Cons p ps)
    then have run: "(wake_internal ^^ 1) s (s\<lparr>chan := ps, pend := Some p, reader := R_Got\<rparr>)"
      using fill_recv [OF assms pend] by (simp only: relpowp_1)
    show ?thesis
      by (intro exI conjI, rule run)
        (use Cons pend in \<open>simp_all add: packets_fill_eq queue_of_def\<close>)
  next
    case Nil
    let ?a = "s\<lparr>reader := R_Empty\<rparr>"
    let ?b = "s\<lparr>flag := False, emptyings := Suc (emptyings s), reader := R_Recheck\<rparr>"
    let ?c = "?b\<lparr>would_blocks := Suc (would_blocks s), reader := R_Sleep\<rparr>"
    have "wake_internal s ?a" using fill_empty [OF assms pend Nil] .
    moreover have "wake_internal ?a ?b" using emptied [of ?a] by (simp add: wake_emptied_def)
    moreover have "wake_internal ?b ?c" using recheck_empty [of ?b] Nil by simp
    ultimately have run: "(wake_internal ^^ 3) s ?c" by (auto simp: numeral_3_eq_3)
    show ?thesis
      by (intro exI conjI, rule run)
        (use Nil pend in \<open>simp_all add: packets_fill_eq queue_of_def\<close>)
  qed
qed

subsection \<open>Concrete runs\<close>

text \<open>One task queues a packet and finishes; the notification reaches the host.\<close>

definition one_signalled :: wake_sys where
  "one_signalled =
     (wake_init 1)\<lparr>chan := [[0x45]], flag := True, signalled := True, sent := [[0x45]],
       notifications := 1\<rparr>"

lemma reach_one_signalled: "wake_reach 1 one_signalled"
proof -
  have 1: "wake_reach 1 (wake_init 1)" by (rule reach_init)
  have 2: "wake_reach 1 ((wake_init 1)\<lparr>chan := [[0x45]], senders := [S_Queued], sent := [[0x45]]\<rparr>)"
    using reach_external [OF 1 queue [where i = 0 and p = "[0x45]"]]
    by (simp add: wake_init_def PACKET_QUEUE_def)
  have 3: "wake_reach 1 ((wake_init 1)\<lparr>chan := [[0x45]], flag := True, senders := [S_Notify],
      sent := [[0x45]]\<rparr>)"
    using reach_internal [OF 2 swap [where i = 0]]
    by (simp add: wake_init_def wake_queued_def)
  show ?thesis
    using reach_internal [OF 3 notify [where i = 0]]
    by (simp add: wake_init_def one_signalled_def)
qed

text \<open>The host wakes, reads the packet and finds the queue empty.\<close>

definition one_read :: wake_sys where
  "one_read =
     (wake_init 1)\<lparr>reader := R_Recheck, sent := [[0x45]], got := [[0x45]], notifications := 1,
       emptyings := 1\<rparr>"

lemma reach_one_read: "wake_reach 1 one_read"
proof -
  note 1 = reach_internal [OF reach_one_signalled host_wakes]
  have 2: "wake_reach 1 (one_signalled\<lparr>reader := R_Fill, signalled := False\<rparr>)"
    by (rule 1) (simp_all add: one_signalled_def wake_init_def)
  have 3: "wake_reach 1 (one_signalled\<lparr>reader := R_Got, signalled := False, chan := [],
      pend := Some [0x45]\<rparr>)"
    using reach_internal [OF 2 fill_recv] by (simp add: one_signalled_def wake_init_def)
  have 4: "wake_reach 1 (one_signalled\<lparr>reader := R_Fill, signalled := False, chan := [],
      got := [[0x45]]\<rparr>)"
    using reach_internal [OF 3 deliver] by (simp add: one_signalled_def wake_init_def)
  have 5: "wake_reach 1 (one_signalled\<lparr>reader := R_Empty, signalled := False, chan := [],
      got := [[0x45]]\<rparr>)"
    using reach_internal [OF 4 fill_empty] by (simp add: one_signalled_def wake_init_def)
  show ?thesis
    using reach_internal [OF 5 emptied]
    by (simp add: one_signalled_def one_read_def wake_init_def wake_emptied_def)
qed

lemma reach_one_done:
  "wake_reach 1 (one_read\<lparr>would_blocks := 1, reader := R_Sleep\<rparr>)"
  using reach_internal [OF reach_one_read recheck_empty] by (simp add: one_read_def wake_init_def)

theorem no_lost_wakeup_witness:
  "got (one_read\<lparr>would_blocks := 1, reader := R_Sleep\<rparr>) = [[0x45]]"
  using no_lost_wakeup [OF reach_one_done]
  by (simp add: one_read_def wake_init_def quiescent_def)

theorem packets_arrive_witness:
  "\<exists>k t. (wake_internal ^^ k) one_signalled t \<and> quiescent t"
  using packets_arrive [OF reach_one_signalled] by blast

theorem fill_refines_witness:
  "\<exists>k t. (wake_internal ^^ k) (one_signalled\<lparr>reader := R_Fill\<rparr>) t \<and>
    queue_of t = snd (packets_fill (queue_of (one_signalled\<lparr>reader := R_Fill\<rparr>)))"
  using fill_refines [of "one_signalled\<lparr>reader := R_Fill\<rparr>"] by auto

theorem notifications_coalesced_witness: "notifications one_read \<le> Suc (emptyings one_read)"
  using notifications_coalesced [OF reach_one_read] .

text \<open>
  C27: The header says that \<^verbatim>\<open>packet_ready\<close> is not sent again until a read has returned
  \<^verbatim>\<open>META_WOULD_BLOCK\<close>. It can be: a packet queued between re-arming the flag and the second
  look at the queue notifies the host, whose read then finds that packet and goes on.
\<close>
theorem notified_again_without_would_block:
  "\<exists>s p. wake_reach 1 s \<and> notifications s = 2 \<and> would_blocks s = 0 \<and> reader s = R_Drain p"
proof -
  have 1: "wake_reach 1 (one_read\<lparr>chan := [[0x60]], senders := [S_Queued],
      sent := [[0x45], [0x60]]\<rparr>)"
    using reach_external [OF reach_one_read queue [where i = 0 and p = "[0x60]"]]
    by (simp add: one_read_def wake_init_def PACKET_QUEUE_def)
  have 2: "wake_reach 1 (one_read\<lparr>chan := [[0x60]], senders := [S_Notify], flag := True,
      sent := [[0x45], [0x60]]\<rparr>)"
    using reach_internal [OF 1 swap [where i = 0]]
    by (simp add: one_read_def wake_init_def wake_queued_def)
  have 3: "wake_reach 1 (one_read\<lparr>chan := [[0x60]], signalled := True, flag := True,
      notifications := 2, sent := [[0x45], [0x60]]\<rparr>)"
    using reach_internal [OF 2 notify [where i = 0]]
    by (simp add: one_read_def wake_init_def numeral_2_eq_2)
  have 4: "wake_reach 1 (one_read\<lparr>signalled := True, flag := True, reader := R_Drain [0x60],
      notifications := 2, sent := [[0x45], [0x60]]\<rparr>)"
    using reach_internal [OF 3 recheck_recv] by (simp add: one_read_def wake_init_def)
  then show ?thesis by (intro exI conjI, assumption) (simp_all add: one_read_def wake_init_def)
qed

end
