(* ===== verification/Clyntis_H.thy ===== *)
theory Clyntis_H
  imports Rust_Io
begin

text \<open>
  The C header \<^verbatim>\<open>crates/ffi/include/clyntis.h\<close>: its status codes and types, the calls a host
  can make (one constructor per prototype, the parameters in the order of the prototype), and
  the memory of the host that the calls read and write. A pointer is an address, zero is
  \<^verbatim>\<open>NULL\<close>. The memory keeps one store per C type that the interface accesses; the header
  forbids output buffers and length fields to overlap, so no store is seen through another.
\<close>

subsection \<open>Status codes and types\<close>

definition META_OK :: int where "META_OK = 0"
definition META_ERROR :: int where "META_ERROR = 1"
definition META_WOULD_BLOCK :: int where "META_WOULD_BLOCK = 2"
definition META_BUFFER_TOO_SMALL :: int where "META_BUFFER_TOO_SMALL = 3"

lemmas meta_status_defs [simp] =
  META_OK_def META_ERROR_def META_WOULD_BLOCK_def META_BUFFER_TOO_SMALL_def

type_synonym meta_handle = uint64

record meta_hooks_v1 =
  hooks_size :: uint32
  hooks_version :: uint32
  hooks_context :: nat
  hooks_protect_socket :: nat
  hooks_packet_ready :: nat

subsection \<open>The memory of the host\<close>

record host_mem =
  u8_at :: "nat \<Rightarrow> byte"
  usize_at :: "nat \<Rightarrow> nat"
  u32_at :: "nat \<Rightarrow> uint32"
  u64_at :: "nat \<Rightarrow> uint64"
  hooks_at :: "nat \<Rightarrow> meta_hooks_v1"

definition load_bytes :: "nat \<Rightarrow> nat \<Rightarrow> host_mem \<Rightarrow> byte list" where
  "load_bytes p n m = map (\<lambda>i. u8_at m (p + i)) [0..<n]"

definition store_bytes :: "nat \<Rightarrow> byte list \<Rightarrow> host_mem \<Rightarrow> host_mem" where
  "store_bytes p bs m =
     m\<lparr>u8_at := (\<lambda>a. if p \<le> a \<and> a < p + length bs then bs ! (a - p) else u8_at m a)\<rparr>"

definition store_usize :: "nat \<Rightarrow> nat \<Rightarrow> host_mem \<Rightarrow> host_mem" where
  "store_usize p v m = m\<lparr>usize_at := (usize_at m)(p := v)\<rparr>"

definition store_u32 :: "nat \<Rightarrow> uint32 \<Rightarrow> host_mem \<Rightarrow> host_mem" where
  "store_u32 p v m = m\<lparr>u32_at := (u32_at m)(p := v)\<rparr>"

definition store_u64 :: "nat \<Rightarrow> uint64 \<Rightarrow> host_mem \<Rightarrow> host_mem" where
  "store_u64 p v m = m\<lparr>u64_at := (u64_at m)(p := v)\<rparr>"

lemma length_load_bytes [simp]: "length (load_bytes p n m) = n"
  by (simp add: load_bytes_def)

lemma load_store_bytes: "load_bytes p (length bs) (store_bytes p bs m) = bs"
  by (rule nth_equalityI) (simp_all add: load_bytes_def store_bytes_def)

lemma store_bytes_Nil [simp]: "store_bytes p [] m = m"
proof -
  have "(\<lambda>a. if p \<le> a \<and> a < p then [] ! (a - p) else u8_at m a) = u8_at m"
    by (rule ext) auto
  then show ?thesis by (simp add: store_bytes_def)
qed

lemma load_store_usize [simp]:
  "usize_at (store_usize p v m) p = v"
  "load_bytes q n (store_usize p v m) = load_bytes q n m"
  "u8_at (store_usize p v m) = u8_at m"
  "u32_at (store_usize p v m) = u32_at m"
  "u64_at (store_usize p v m) = u64_at m"
  "hooks_at (store_usize p v m) = hooks_at m"
  by (simp_all add: store_usize_def load_bytes_def)

lemma store_bytes_frame [simp]:
  "usize_at (store_bytes p bs m) = usize_at m"
  "u32_at (store_bytes p bs m) = u32_at m"
  "u64_at (store_bytes p bs m) = u64_at m"
  "hooks_at (store_bytes p bs m) = hooks_at m"
  "a < p \<or> p + length bs \<le> a \<Longrightarrow> u8_at (store_bytes p bs m) a = u8_at m a"
  by (auto simp: store_bytes_def)

lemma store_usize_twice [simp]: "store_usize p v (store_usize p w m) = store_usize p v m"
  by (simp add: store_usize_def)

subsection \<open>The calls\<close>

definition meta_abi_version_v1 :: uint32 where "meta_abi_version_v1 = 1"

datatype meta_call =
    Meta_decrypt_config nat nat nat nat nat nat nat
  | Meta_encrypt_config nat nat nat nat nat nat nat
  | Meta_custom_rule_validate nat nat
  | Meta_custom_rule_targets nat nat nat nat nat
  | Meta_custom_rules_apply nat nat nat nat nat nat nat
  | Meta_overrides_apply nat nat nat nat nat nat nat
  | Meta_yaml_check nat nat nat nat nat
  | Meta_cos_target nat nat nat nat nat
  | Meta_cos_put nat nat nat nat
  | Meta_drain_logs nat nat nat
  | Meta_prefetch_resources nat nat nat nat
  | Meta_resources_state nat nat nat nat nat
  | Meta_create nat nat nat nat
  | Meta_create_packet_tunnel nat nat nat nat nat nat
  | Meta_start meta_handle
  | Meta_stop meta_handle
  | Meta_destroy meta_handle
  | Meta_close_connections meta_handle
  | Meta_network_changed meta_handle
  | Meta_set_network meta_handle nat nat
  | Meta_set_tun_fd meta_handle int
  | Meta_error nat nat nat
  | Meta_snapshot meta_handle nat nat nat
  | Meta_status meta_handle nat nat nat
  | Meta_update meta_handle nat nat
  | Meta_select meta_handle nat nat nat nat
  | Meta_close_connection meta_handle nat nat
  | Meta_probe meta_handle nat nat uint32 nat
  | Meta_test_route meta_handle nat nat nat nat nat
  | Meta_dns_leak meta_handle uint32 nat nat nat
  | Meta_write_packet meta_handle nat nat
  | Meta_read_packet meta_handle nat nat nat

end
