(* ===== verification/Utf8.thy ===== *)
theory Utf8
  imports Rust_Io Cbs
begin

text \<open>
  Strings of the Rust standard library. A \<^verbatim>\<open>String\<close> is a \<open>string\<close> whose characters are the
  bytes of its UTF-8 form, so \<open>as_bytes\<close> and \<open>of_bytes\<close> only change the type. \<open>from_utf8\<close> is
  the validation of the library, with the text of its error. It accepts exactly the
  concatenations of encoded Unicode scalar values, which is proved by reading one encoded
  scalar value as a codec.
\<close>

subsection \<open>Bytes and strings\<close>

definition as_bytes :: "string \<Rightarrow> byte list" where
  "as_bytes s = map (\<lambda>c. of_nat (of_char c)) s"

definition of_bytes :: "byte list \<Rightarrow> string" where
  "of_bytes bs = map (\<lambda>b. char_of (unat b)) bs"

lemma length_as_bytes [simp]: "length (as_bytes s) = length s"
  by (simp add: as_bytes_def)

lemma length_of_bytes [simp]: "length (of_bytes bs) = length bs"
  by (simp add: of_bytes_def)

lemma as_bytes_of_bytes [simp]: "as_bytes (of_bytes bs) = bs"
  by (simp add: as_bytes_def of_bytes_def comp_def of_char_of map_idI)

lemma of_bytes_as_bytes [simp]: "of_bytes (as_bytes s) = s"
proof -
  have "unat (of_nat (of_char c) :: byte) = (of_char c :: nat)" for c
    by (simp add: unat_of_nat take_bit_nat_eq_self)
  then show ?thesis
    by (simp add: as_bytes_def of_bytes_def comp_def map_idI)
qed

lemma as_bytes_inject [simp]: "as_bytes s = as_bytes t \<longleftrightarrow> s = t"
  by (metis of_bytes_as_bytes)

text \<open>The decimal text of a number.\<close>

fun show_digits :: "nat \<Rightarrow> nat \<Rightarrow> string" where
  "show_digits 0 n = []"
| "show_digits (Suc k) n =
     (if n < 10 then [char_of (48 + n)] else show_digits k (n div 10) @ [char_of (48 + n mod 10)])"

definition show_nat :: "nat \<Rightarrow> string" where
  "show_nat n = show_digits (Suc n) n"

subsection \<open>One encoded character\<close>

definition is_cont :: "byte \<Rightarrow> bool" where
  "is_cont b \<longleftrightarrow> 0x80 \<le> unat b \<and> unat b \<le> 0xBF"

text \<open>
  The length of the encoded character at the head of the input, or how many bytes of an
  invalid sequence the error reports, \<open>None\<close> when the input ends inside a sequence.
\<close>

definition utf8_second_ok :: "nat \<Rightarrow> nat \<Rightarrow> bool" where
  "utf8_second_ok b0 b1 \<longleftrightarrow>
     b0 = 0xE0 \<and> 0xA0 \<le> b1 \<and> b1 \<le> 0xBF \<or>
     0xE1 \<le> b0 \<and> b0 \<le> 0xEC \<and> 0x80 \<le> b1 \<and> b1 \<le> 0xBF \<or>
     b0 = 0xED \<and> 0x80 \<le> b1 \<and> b1 \<le> 0x9F \<or>
     0xEE \<le> b0 \<and> b0 \<le> 0xEF \<and> 0x80 \<le> b1 \<and> b1 \<le> 0xBF \<or>
     b0 = 0xF0 \<and> 0x90 \<le> b1 \<and> b1 \<le> 0xBF \<or>
     0xF1 \<le> b0 \<and> b0 \<le> 0xF3 \<and> 0x80 \<le> b1 \<and> b1 \<le> 0xBF \<or>
     b0 = 0xF4 \<and> 0x80 \<le> b1 \<and> b1 \<le> 0x8F"

fun utf8_conts :: "nat \<Rightarrow> nat \<Rightarrow> byte list \<Rightarrow> nat option + nat" where
  "utf8_conts 0 k bs = Inr k"
| "utf8_conts (Suc m) k [] = Inl None"
| "utf8_conts (Suc m) k (b # bs) = (if is_cont b then utf8_conts m (Suc k) bs else Inl (Some k))"

definition utf8_char :: "byte list \<Rightarrow> nat option + nat" where
  "utf8_char bs =
     (case bs of
        [] \<Rightarrow> Inl None
      | b # r \<Rightarrow>
          let b0 = unat b
          in if b0 < 0x80 then Inr 1
             else if 0xC2 \<le> b0 \<and> b0 \<le> 0xDF then utf8_conts 1 1 r
             else if 0xE0 \<le> b0 \<and> b0 \<le> 0xF4 then
               (case r of
                  [] \<Rightarrow> Inl None
                | c # r' \<Rightarrow>
                    if utf8_second_ok b0 (unat c)
                    then utf8_conts (if b0 < 0xF0 then 1 else 2) 2 r'
                    else Inl (Some 1))
             else Inl (Some 1))"

subsection \<open>Validation\<close>

definition utf8_error :: "nat \<Rightarrow> nat option \<Rightarrow> string" where
  "utf8_error valid_up_to error_len =
     (case error_len of
        Some n \<Rightarrow> ''invalid utf-8 sequence of '' @ show_nat n @ '' bytes from index '' @
          show_nat valid_up_to
      | None \<Rightarrow> ''incomplete utf-8 byte sequence from index '' @ show_nat valid_up_to)"

fun utf8_scan :: "nat \<Rightarrow> nat \<Rightarrow> byte list \<Rightarrow> (nat \<times> nat option) option" where
  "utf8_scan fuel pos [] = None"
| "utf8_scan 0 pos (b # bs) = Some (pos, None)"
| "utf8_scan (Suc fuel) pos (b # bs) =
     (case utf8_char (b # bs) of
        Inl e \<Rightarrow> Some (pos, e)
      | Inr n \<Rightarrow> utf8_scan fuel (pos + n) (drop n (b # bs)))"

definition from_utf8 :: "byte list \<Rightarrow> string outcome" where
  "from_utf8 bs =
     (case utf8_scan (length bs) 0 bs of
        None \<Rightarrow> Done (of_bytes bs)
      | Some (valid_up_to, error_len) \<Rightarrow> Fail (utf8_error valid_up_to error_len))"

lemma from_utf8_not_panic [simp]: "from_utf8 bs \<noteq> Panicked e"
  by (simp add: from_utf8_def split: option.splits prod.splits)

lemma from_utf8_Done: "from_utf8 bs = Done s \<Longrightarrow> as_bytes s = bs"
  by (auto simp: from_utf8_def split: option.splits prod.splits)

subsection \<open>Encoded scalar values\<close>

definition scalar_value :: "nat \<Rightarrow> bool" where
  "scalar_value c \<longleftrightarrow> c < 0xD800 \<or> 0xE000 \<le> c \<and> c < 0x110000"

definition utf8_encode :: "nat \<Rightarrow> byte list" where
  "utf8_encode c =
     (if c < 0x80 then [of_nat c]
      else if c < 0x800 then [of_nat (0xC0 + c div 64), of_nat (0x80 + c mod 64)]
      else if c < 0x10000 then
        [of_nat (0xE0 + c div 4096), of_nat (0x80 + c div 64 mod 64), of_nat (0x80 + c mod 64)]
      else
        [of_nat (0xF0 + c div 262144), of_nat (0x80 + c div 4096 mod 64),
         of_nat (0x80 + c div 64 mod 64), of_nat (0x80 + c mod 64)])"

text \<open>The scalar value of a sequence that \<open>utf8_char\<close> accepts.\<close>

definition utf8_value :: "byte list \<Rightarrow> nat" where
  "utf8_value bs =
     (case map unat bs of
        [a] \<Rightarrow> a
      | [a, b] \<Rightarrow> (a - 0xC0) * 64 + (b - 0x80)
      | [a, b, c] \<Rightarrow> (a - 0xE0) * 4096 + (b - 0x80) * 64 + (c - 0x80)
      | [a, b, c, d] \<Rightarrow>
          (a - 0xF0) * 262144 + (b - 0x80) * 4096 + (c - 0x80) * 64 + (d - 0x80)
      | _ \<Rightarrow> 0)"

definition utf8_read :: "nat reader" where
  "utf8_read bs =
     (case utf8_char bs of
        Inl _ \<Rightarrow> (None, bs)
      | Inr n \<Rightarrow> (Some (utf8_value (take n bs)), drop n bs))"

lemma nat_byte: "n < 256 \<Longrightarrow> unat (of_nat n :: byte) = n"
  by (simp add: unat_of_nat take_bit_nat_eq_self)

lemma byte_nat: "of_nat (unat b) = (b :: byte)"
  by (rule of_nat_unat_self)

lemma base64_split:
  fixes c :: nat
  obtains p q r where "c = p * 4096 + q * 64 + r" "q < 64" "r < 64"
    "c div 4096 = p" "c div 64 mod 64 = q" "c mod 64 = r"
proof -
  have "c div 64 div 64 = c div 4096" by (simp add: div_mult2_eq [symmetric])
  then have "c = c div 4096 * 4096 + (c div 64 mod 64) * 64 + c mod 64"
    using div_mult_mod_eq [of c 64] div_mult_mod_eq [of "c div 64" 64] by linarith
  with that [of "c div 4096" "c div 64 mod 64" "c mod 64"] show ?thesis by simp
qed

lemma base64_digits:
  fixes x y z :: nat
  assumes "y < 64" "z < 64" "c = x * 4096 + y * 64 + z"
  shows "c mod 64 = z" "c div 64 mod 64 = y" "c div 4096 = x"
proof -
  define n where "n = x * 64 + y"
  have c: "c = n * 64 + z" using assms(3) by (simp add: n_def)
  show "c mod 64 = z" using assms(2) by (simp add: c)
  have "c div 64 = x * 64 + y" using assms(2) by (simp add: c flip: n_def)
  then show "c div 64 mod 64 = y" "c div 4096 = x"
    using assms(1) by (simp_all add: div_mult2_eq [of c 64 64, simplified])
qed

lemma utf8_read_1: "unat a < 0x80 \<Longrightarrow> utf8_read (a # r) = (Some (unat a), r)"
  by (simp add: utf8_read_def utf8_char_def utf8_value_def)

lemma utf8_read_2:
  assumes "0xC2 \<le> unat a" "unat a \<le> 0xDF" "is_cont b"
  shows "utf8_read (a # b # r) = (Some ((unat a - 0xC0) * 64 + (unat b - 0x80)), r)"
  using assms by (simp add: utf8_read_def utf8_char_def utf8_value_def Let_def)

lemma utf8_read_3:
  assumes "0xE0 \<le> unat a" "unat a < 0xF0" "utf8_second_ok (unat a) (unat b)" "is_cont c"
  shows "utf8_read (a # b # c # r) =
    (Some ((unat a - 0xE0) * 4096 + (unat b - 0x80) * 64 + (unat c - 0x80)), r)"
  using assms by (simp add: utf8_read_def utf8_char_def utf8_value_def Let_def)

lemma utf8_read_4:
  assumes "0xF0 \<le> unat a" "unat a \<le> 0xF4" "utf8_second_ok (unat a) (unat b)"
    "is_cont c" "is_cont d"
  shows "utf8_read (a # b # c # d # r) =
    (Some ((unat a - 0xF0) * 262144 + (unat b - 0x80) * 4096 + (unat c - 0x80) * 64 +
       (unat d - 0x80)), r)"
  using assms by (simp add: utf8_read_def utf8_char_def utf8_value_def Let_def numeral_2_eq_2)

lemma utf8_read_cases:
  assumes "utf8_read s = (Some v, r)"
  obtains (one) a where "s = a # r" "unat a < 0x80"
  | (two) a b where "s = a # b # r" "0xC2 \<le> unat a" "unat a \<le> 0xDF" "is_cont b"
  | (three) a b c where "s = a # b # c # r" "0xE0 \<le> unat a" "unat a < 0xF0"
      "utf8_second_ok (unat a) (unat b)" "is_cont c"
  | (four) a b c d where "s = a # b # c # d # r" "0xF0 \<le> unat a" "unat a \<le> 0xF4"
      "utf8_second_ok (unat a) (unat b)" "is_cont c" "is_cont d"
proof -
  obtain n where n: "utf8_char s = Inr n" "r = drop n s"
    using assms by (auto simp: utf8_read_def split: sum.splits)
  then obtain a t where s: "s = a # t" by (cases s) (auto simp: utf8_char_def)
  consider "unat a < 0x80" | "0xC2 \<le> unat a" "unat a \<le> 0xDF" 
    | "0xE0 \<le> unat a" "unat a < 0xF0" | "0xF0 \<le> unat a" "unat a \<le> 0xF4"
    using n s by (fastforce simp: utf8_char_def Let_def split: if_splits)
  then show ?thesis
  proof cases
    case 1
    with n s that(1) show ?thesis by (auto simp: utf8_char_def)
  next
    case 2
    with n s that(2) show ?thesis
      by (cases t) (auto simp: utf8_char_def Let_def split: if_splits)
  next
    case 3
    then obtain b u where t: "t = b # u" "utf8_second_ok (unat a) (unat b)" "utf8_conts 1 2 u = Inr n"
      using n s by (cases t) (auto simp: utf8_char_def Let_def split: if_splits)
    with n s 3 that(3) show ?thesis by (cases u) (auto split: if_splits)
  next
    case 4
    then obtain b u where t: "t = b # u" "utf8_second_ok (unat a) (unat b)" "utf8_conts 2 2 u = Inr n"
      using n s by (cases t) (auto simp: utf8_char_def Let_def split: if_splits)
    then obtain c v where u: "u = c # v" "is_cont c" "utf8_conts 1 3 v = Inr n"
      by (cases u) (auto simp: numeral_2_eq_2 numeral_3_eq_3 split: if_splits)
    with n s t 4 that(4) show ?thesis by (cases v) (auto split: if_splits)
  qed
qed

lemma utf8_read_encode:
  assumes c: "scalar_value c"
  shows "utf8_read (utf8_encode c @ r) = (Some c, r)"
proof -
  obtain p q k where d: "c = p * 4096 + q * 64 + k" "q < 64" "k < 64"
    "c div 4096 = p" "c div 64 mod 64 = q" "c mod 64 = k"
    by (rule base64_split)
  consider "c < 0x80" | "0x80 \<le> c" "c < 0x800" | "0x800 \<le> c" "c < 0x10000" | "0x10000 \<le> c" by linarith
  then show ?thesis
  proof cases
    case 1
    then show ?thesis by (simp add: utf8_encode_def utf8_read_1 nat_byte)
  next
    case 2
    then have "p = 0" "q < 32" "2 \<le> q" "c div 64 = q" using d by auto
    with 2 d show ?thesis
      by (simp add: utf8_encode_def utf8_read_2 nat_byte is_cont_def del: of_nat_add)
  next
    case 3
    then have "p < 16" using d by linarith
    moreover have "utf8_second_ok (0xE0 + p) (0x80 + q)"
      using c 3 d by (auto simp: utf8_second_ok_def scalar_value_def)
    ultimately show ?thesis using 3 d
      by (simp add: utf8_encode_def utf8_read_3 nat_byte is_cont_def del: of_nat_add)
  next
    case 4
    have "c < 0x110000" using c by (auto simp: scalar_value_def)
    define h l where "h = p div 64" and "l = p mod 64"
    have p: "p = h * 64 + l" "l < 64" by (simp_all add: h_def l_def)
    have "c div 262144 = h" using d(4) by (simp add: h_def div_mult2_eq [symmetric] flip: d(4))
    moreover have "h < 5" using p d \<open>c < 0x110000\<close> by linarith
    moreover have "utf8_second_ok (0xF0 + h) (0x80 + l)"
      using 4 p d \<open>c < 0x110000\<close> by (auto simp: utf8_second_ok_def)
    ultimately show ?thesis using 4 d p
      by (simp add: utf8_encode_def utf8_read_4 nat_byte is_cont_def del: of_nat_add flip: l_def)
  qed
qed

lemma utf8_encode_read_3:
  assumes rd: "utf8_read (a # b # d # r) = (Some c, r)"
    and three: "0xE0 \<le> unat a" "unat a < 0xF0" "utf8_second_ok (unat a) (unat b)" "is_cont d"
  shows "scalar_value c \<and> a # b # d # r = utf8_encode c @ r"
proof -
  define x y z where "x = unat a - 0xE0" and "y = unat b - 0x80" and "z = unat d - 0x80"
  have b: "0x80 \<le> unat b" "unat b \<le> 0xBF"
    using three(3) by (auto simp: utf8_second_ok_def)
  have xyz: "unat a = 0xE0 + x" "unat b = 0x80 + y" "unat d = 0x80 + z" "y < 64" "z < 64" "x < 16"
    using three b by (auto simp: x_def y_def z_def is_cont_def)
  have c: "c = x * 4096 + y * 64 + z" using rd three xyz by (simp add: utf8_read_3)
  then have "c div 4096 = x" "c div 64 mod 64 = y" "c mod 64 = z" "c < 0x10000"
    using xyz base64_digits [of y z c x] by simp_all
  moreover have "0x800 \<le> c" "scalar_value c"
    using three(3) xyz c by (auto simp: utf8_second_ok_def scalar_value_def)
  ultimately have "utf8_encode c = [of_nat (unat a), of_nat (unat b), of_nat (unat d)]"
    using xyz by (simp add: utf8_encode_def)
  with three \<open>scalar_value c\<close> show ?thesis by (simp add: byte_nat)
qed

lemma utf8_encode_read_4:
  assumes rd: "utf8_read (a # b # d # e # r) = (Some c, r)"
    and four: "0xF0 \<le> unat a" "unat a \<le> 0xF4" "utf8_second_ok (unat a) (unat b)"
      "is_cont d" "is_cont e"
  shows "scalar_value c \<and> a # b # d # e # r = utf8_encode c @ r"
proof -
  define x y z w where "x = unat a - 0xF0" and "y = unat b - 0x80" and "z = unat d - 0x80"
    and "w = unat e - 0x80"
  have b: "0x80 \<le> unat b" "unat b \<le> 0xBF"
    using four(3) by (auto simp: utf8_second_ok_def)
  have xyz: "unat a = 0xF0 + x" "unat b = 0x80 + y" "unat d = 0x80 + z" "unat e = 0x80 + w"
    "y < 64" "z < 64" "w < 64" "x < 5"
    using four b by (auto simp: x_def y_def z_def w_def is_cont_def)
  have c: "c = x * 262144 + y * 4096 + z * 64 + w" using rd four xyz by (simp add: utf8_read_4)
  then have "c = (x * 64 + y) * 4096 + z * 64 + w" by simp
  from base64_digits [OF _ _ this] xyz
  have c4: "c div 4096 = x * 64 + y" "c div 64 mod 64 = z" "c mod 64 = w" by simp_all
  then have "c div 262144 = x" "c div 4096 mod 64 = y"
    using xyz by (simp_all add: div_mult2_eq [of c 4096 64, simplified])
  note this c4(2,3)
  moreover have "0x10000 \<le> c" "scalar_value c"
    using four(3) xyz c by (auto simp: utf8_second_ok_def scalar_value_def)
  ultimately have "utf8_encode c =
      [of_nat (unat a), of_nat (unat b), of_nat (unat d), of_nat (unat e)]"
    using xyz by (simp add: utf8_encode_def)
  with four \<open>scalar_value c\<close> show ?thesis by (simp add: byte_nat)
qed

lemma utf8_encode_read:
  assumes rd: "utf8_read s = (Some c, r)"
  shows "scalar_value c \<and> s = utf8_encode c @ r"
  using rd
proof (cases rule: utf8_read_cases)
  case (one a)
  with rd show ?thesis
    by (auto simp: utf8_read_1 utf8_encode_def byte_nat scalar_value_def)
next
  case (two a b)
  define x y where "x = unat a - 0xC0" and "y = unat b - 0x80"
  have xy: "unat a = 0xC0 + x" "unat b = 0x80 + y" "y < 64" "2 \<le> x" "x < 32"
    using two by (auto simp: x_def y_def is_cont_def)
  have c: "c = x * 64 + y" using rd two xy by (simp add: utf8_read_2)
  then have "c div 64 = x" "c mod 64 = y" "0x80 \<le> c" "c < 0x800" using xy by auto
  then have "utf8_encode c = [of_nat (unat a), of_nat (unat b)]" "scalar_value c"
    using xy by (simp_all add: utf8_encode_def scalar_value_def)
  with two show ?thesis by (simp add: byte_nat)
next
  case (three a b d)
  with rd show ?thesis using utf8_encode_read_3 by simp
next
  case (four a b d e)
  with rd show ?thesis using utf8_encode_read_4 by simp
qed

interpretation utf8: codec utf8_read utf8_encode scalar_value
  by unfold_locales (simp_all add: utf8_read_encode utf8_encode_read, simp add: utf8_encode_def)

lemma utf8_conts_Inr: "utf8_conts m k bs = Inr n \<Longrightarrow> n = k + m \<and> m \<le> length bs"
  by (induction m k bs rule: utf8_conts.induct) (auto split: if_splits)

lemma utf8_char_le: "utf8_char bs = Inr n \<Longrightarrow> 0 < n \<and> n \<le> length bs"
  by (auto simp: utf8_char_def Let_def split: list.splits if_splits dest!: utf8_conts_Inr)

lemma utf8_scan_None_iff:
  "length bs \<le> fuel \<Longrightarrow>
   utf8_scan fuel pos bs = None \<longleftrightarrow> (\<exists>cs. read_all fuel utf8_read bs = Some cs)"
proof (induction fuel pos bs rule: utf8_scan.induct)
  case (3 fuel pos b bs)
  show ?case
  proof (cases "utf8_char (b # bs)")
    case (Inr n)
    then have "length (drop n (b # bs)) \<le> fuel"
      using 3(2) utf8_char_le [OF Inr] by auto
    with 3(1) [OF Inr] Inr show ?thesis by (simp add: utf8_read_def)
  qed (simp add: utf8_read_def)
qed (simp_all, case_tac fuel, simp_all)

lemma from_utf8_iff:
  "from_utf8 bs = Done s \<longleftrightarrow>
   s = of_bytes bs \<and> (\<exists>cs. (\<forall>c\<in>set cs. scalar_value c) \<and> bs = concat (map utf8_encode cs))"
proof -
  have "from_utf8 bs = Done s \<longleftrightarrow> s = of_bytes bs \<and> utf8_scan (length bs) 0 bs = None"
    by (auto simp: from_utf8_def split: option.splits)
  then show ?thesis
    by (simp add: utf8_scan_None_iff utf8.read_all_Some_iff)
qed
end
