(* ===== verification/Json.thy ===== *)
theory Json
  imports Utf8
begin

text \<open>
  The value type of the \<^verbatim>\<open>serde_json\<close> crate, with the accessors the sources use. Parsing and
  printing belong to that crate: the theories that need them take them as parameters.
\<close>

datatype json_number = PosInt nat | NegInt int | Float

datatype json =
    JNull
  | JBool bool
  | JNumber json_number
  | JString string
  | JArray "json list"
  | JObject "(string \<times> json) list"

text \<open>\<^verbatim>\<open>value[key]\<close> is null where the value is no object or has no such key.\<close>

definition json_index :: "json \<Rightarrow> string \<Rightarrow> json" where
  "json_index v key =
     (case v of
        JObject fields \<Rightarrow> (case map_of fields key of None \<Rightarrow> JNull | Some x \<Rightarrow> x)
      | _ \<Rightarrow> JNull)"

definition json_as_str :: "json \<Rightarrow> string option" where
  "json_as_str v = (case v of JString s \<Rightarrow> Some s | _ \<Rightarrow> None)"

definition json_as_u64 :: "json \<Rightarrow> nat option" where
  "json_as_u64 v = (case v of JNumber (PosInt n) \<Rightarrow> Some n | _ \<Rightarrow> None)"

definition json_as_object :: "json \<Rightarrow> (string \<times> json) list option" where
  "json_as_object v = (case v of JObject fields \<Rightarrow> Some fields | _ \<Rightarrow> None)"

end
