(* ===== verification/Net_Types.thy ===== *)
theory Net_Types
  imports Utf8
begin

text \<open>
  Addresses and networks: \<^verbatim>\<open>IpAddr\<close> of the standard library, \<^verbatim>\<open>IpNet\<close> of the \<^verbatim>\<open>ipnet\<close> crate
  (an address and a prefix length, the network being the addresses that share the prefix),
  \<^verbatim>\<open>NetworkInfo\<close> of \<^verbatim>\<open>crates/config/src/network.rs\<close>, what the host reports of the device
  network, and \<^verbatim>\<open>Mode\<close> of \<^verbatim>\<open>crates/config/src/lib.rs\<close>.
\<close>

datatype ip_addr = IpV4 "32 word" | IpV6 "128 word"

datatype ip_net = NetV4 "32 word" nat | NetV6 "128 word" nat

text \<open>The first and the last address of the network of a prefix.\<close>

definition prefix_low :: "'a::len word \<Rightarrow> nat \<Rightarrow> 'a word" where
  "prefix_low a p = push_bit (LENGTH('a) - p) (drop_bit (LENGTH('a) - p) a)"

definition prefix_high :: "'a::len word \<Rightarrow> nat \<Rightarrow> 'a word" where
  "prefix_high a p = prefix_low a p OR mask (LENGTH('a) - p)"

fun net_contains :: "ip_net \<Rightarrow> ip_addr \<Rightarrow> bool" where
  "net_contains (NetV4 a p) (IpV4 x) \<longleftrightarrow> prefix_low a p \<le> x \<and> x \<le> prefix_high a p"
| "net_contains (NetV6 a p) (IpV6 x) \<longleftrightarrow> prefix_low a p \<le> x \<and> x \<le> prefix_high a p"
| "net_contains _ _ \<longleftrightarrow> False"

datatype mode = Rule | Global | Direct

record network_info =
  info_kind :: "string option"
  info_ssid :: "string option"
  info_addresses :: "ip_addr list"
  info_gateways :: "ip_addr list"

end
