(* ===== verification/Ffi_Handle.thy ===== *)
theory Ffi_Handle
  imports Clyntis_H Ffi_Packets Json Net_Types
begin

text \<open>
  One core behind the C interface, \<^verbatim>\<open>crates/ffi/src/host.rs\<close>: the hooks of the host, the guard
  that refuses lifecycle calls from inside a callback, and the handle with its worker thread.
  The core itself (\<^verbatim>\<open>crates/core\<close>) is the parameter \<open>core_api\<close>, over an opaque state \<open>'k\<close>; the
  part of its start that decides whether it may run (\<^verbatim>\<open>Core::start_with_packets\<close>) is modelled.
  What the other threads decide in a call, that is whether the bounded command queue has a
  free slot and whether and when the worker answers, is the parameter \<open>worker_env\<close>.
\<close>

subsection \<open>Configuration\<close>

text \<open>The fields that the interface reads or overrides; the others are \<open>cfg_rest\<close>.\<close>

record tun_config =
  tun_enable :: bool
  tun_auto_route :: bool
  tun_auto_dns :: bool
  tun_auto_detect_interface :: bool
  tun_interface :: "string option"
  tun_mtu :: uint16
  tun_dns_hijack :: "string list"

record 'c config =
  cfg_port :: uint16
  cfg_socks_port :: uint16
  cfg_mixed_port :: uint16
  cfg_allow_lan :: bool
  cfg_external_controller :: "string option"
  cfg_external_ui :: string
  cfg_log_level :: string
  cfg_log_path :: string
  cfg_dns_enable :: bool
  cfg_tun :: tun_config
  cfg_directory :: string
  cfg_internal_host_packet_io :: bool
  cfg_rest :: 'c

subsection \<open>Hooks\<close>

record target =
  pointer_bytes :: nat
  is_android :: bool

definition size_of_MetaHooksV1 :: "target \<Rightarrow> nat" where
  "size_of_MetaHooksV1 tgt = 4 + 4 + 3 * pointer_bytes tgt"

record host_hooks =
  hook_context :: nat
  hook_protect :: "nat option"
  hook_notify :: "nat option"

definition HostHooks_default :: host_hooks where
  "HostHooks_default = \<lparr>hook_context = 0, hook_protect = None, hook_notify = None\<rparr>"

definition callback_of :: "nat \<Rightarrow> nat option" where
  "callback_of p = (if p = 0 then None else Some p)"

definition HostHooks_new :: "target \<Rightarrow> meta_hooks_v1 \<Rightarrow> host_hooks outcome" where
  "HostHooks_new tgt hooks =
     (if hooks_version hooks = 1 \<and> unat (hooks_size hooks) = size_of_MetaHooksV1 tgt
      then Done \<lparr>hook_context = hooks_context hooks,
                 hook_protect = callback_of (hooks_protect_socket hooks),
                 hook_notify = callback_of (hooks_packet_ready hooks)\<rparr>
      else Fail ''unsupported host hooks version/size'')"

text \<open>
  The flag \<^verbatim>\<open>CALLBACK\<close> of a thread: set while a callback runs, restored when its scope ends.
\<close>

definition check_lifecycle :: "bool \<Rightarrow> ('s, unit) io" where
  "check_lifecycle in_callback =
     ensure (\<not> in_callback) ''lifecycle calls cannot reenter from host callbacks'' (ret ())"

definition scope_enter :: "bool \<Rightarrow> bool \<times> bool" where
  "scope_enter in_callback = (in_callback, True)"

definition scope_drop :: "bool \<Rightarrow> bool \<Rightarrow> bool" where
  "scope_drop previous in_callback = previous"

text \<open>\<open>callback f context socket\<close> is what the host's function at \<open>f\<close> returns.\<close>

definition protect_socket ::
    "(nat \<Rightarrow> nat \<Rightarrow> uint64 \<Rightarrow> int) \<Rightarrow> host_hooks \<Rightarrow> uint64 \<Rightarrow> unit outcome" where
  "protect_socket callback hooks raw =
     (case hook_protect hooks of
        None \<Rightarrow> Done ()
      | Some f \<Rightarrow>
          if callback f (hook_context hooks) raw = 0 then Done ()
          else Fail ''host rejected socket protection'')"

subsection \<open>The handle\<close>

datatype packet_io = Host_Queue | Native_Tun

text \<open>
  \<open>stopped\<close> and \<open>lifecycle\<close> are the cancellation token and the started flag of the core;
  \<open>running\<close> and \<open>packet_source\<close> are the worker's variables \<^verbatim>\<open>running\<close> and \<^verbatim>\<open>packets\<close>; \<open>worker\<close>
  holds while the worker thread has not been joined.
\<close>

record 'k handle =
  core :: 'k
  core_tun_enable :: bool
  stopped :: bool
  lifecycle :: bool
  running :: bool
  packet_source :: "packet_io option"
  network :: uint64
  worker :: bool
  packet_input :: "packet channel option"
  packet_output :: packets_out
  packet_queue_enabled :: bool
  handle_hooks :: host_hooks

datatype freshness = Current | Expired | Missing

record ('c, 'k) core_api =
  Core_new :: "'c config \<Rightarrow> host_hooks \<Rightarrow> 'k outcome"
  Core_new_default_hooks :: "'c config \<Rightarrow> 'k outcome"
  runtime_build :: "unit outcome"
  thread_spawn :: "unit outcome"
  start_inner :: "'k \<Rightarrow> unit outcome \<times> 'k"
  core_shutdown :: "bool \<Rightarrow> 'k \<Rightarrow> 'k"
  core_probe :: "string \<Rightarrow> nat \<Rightarrow> 'k \<Rightarrow> nat outcome \<times> 'k"
  core_test_route :: "string \<times> uint16 \<Rightarrow> string \<Rightarrow> 'k \<Rightarrow> json outcome \<times> 'k"
  core_dns_leak_test :: "'k \<Rightarrow> json outcome \<times> 'k"
  native_tun_from_fd :: "int \<Rightarrow> unit outcome"
  core_close_connections :: "'k \<Rightarrow> 'k"
  core_close_connection :: "string \<Rightarrow> 'k \<Rightarrow> 'k"
  core_set_network :: "network_info \<Rightarrow> 'k \<Rightarrow> unit outcome \<times> 'k"
  core_set_adblock_allow :: "string list \<Rightarrow> 'k \<Rightarrow> unit outcome \<times> 'k"
  core_update_policy :: "mode option \<Rightarrow> string list option \<Rightarrow> 'k \<Rightarrow> unit outcome \<times> 'k"
  core_select :: "string \<Rightarrow> string \<Rightarrow> 'k \<Rightarrow> unit outcome \<times> 'k"
  core_snapshot :: "'k \<Rightarrow> (string \<times> json) list"
  core_connection_count :: "'k \<Rightarrow> nat"
  core_upload :: "'k \<Rightarrow> nat"
  core_download :: "'k \<Rightarrow> nat"
  core_dns_leak_audit :: "'k \<Rightarrow> json"
  resource_freshness :: "'k \<Rightarrow> freshness outcome"
  prepare_resources :: "'k \<Rightarrow> unit outcome"

datatype reply_wait = Replied | TimedOut bool | HungUp bool

record worker_env =
  command_slot :: "string option"
  reply :: reply_wait
  worker_panicked :: bool

definition Handle_new ::
    "target \<Rightarrow> ('c, 'k) core_api \<Rightarrow> 'c config \<Rightarrow> host_hooks \<Rightarrow> 'k handle outcome" where
  "Handle_new tgt api config hooks =
     (if is_android tgt \<and> hook_protect hooks = None
      then Fail ''Android host must provide socket protection''
      else case Core_new api config hooks of
        Fail e \<Rightarrow> Fail e
      | Panicked e \<Rightarrow> Panicked e
      | Done k \<Rightarrow>
          (case runtime_build api of
             Fail e \<Rightarrow> Fail e
           | Panicked e \<Rightarrow> Panicked e
           | Done _ \<Rightarrow>
               (case thread_spawn api of
                  Fail e \<Rightarrow> Fail e
                | Panicked e \<Rightarrow> Panicked e
                | Done _ \<Rightarrow>
                    (let enable = tun_enable (cfg_tun config)
                     in Done
                       \<lparr>core = k, core_tun_enable = enable, stopped = False, lifecycle = False,
                        running = False,
                        packet_source = (if enable then Some Host_Queue else None),
                        network = 0, worker = True,
                        packet_input = (if enable then Some new_channel else None),
                        packet_output =
                          \<lparr>receiver = new_channel\<lparr>senders_gone := \<not> enable\<rparr>, pending = None,
                           wake = False\<rparr>,
                        packet_queue_enabled = enable,
                        handle_hooks = hooks\<rparr>))))"

subsection \<open>The worker\<close>

text \<open>\<^verbatim>\<open>Core::start_with_packets\<close>: \<open>packets\<close> says whether packet I/O is given.\<close>

definition start_with_packets ::
    "('c, 'k) core_api \<Rightarrow> bool \<Rightarrow> ('k handle, unit) io" where
  "start_with_packets api packets h =
     (if core_tun_enable h \<noteq> packets
      then (Fail ''tun.enable requires a host PacketIo; disable TUN for listener-only operation'', h)
      else if lifecycle h \<or> stopped h
      then (Fail ''core cannot be started twice; create a new core'', h)
      else
        (let (r, k) = start_inner api (core h);
             h = h\<lparr>lifecycle := True, core := k\<rparr>
         in case r of
              Done _ \<Rightarrow> (Done (), h)
            | Fail e \<Rightarrow> (Fail e, h\<lparr>stopped := True, lifecycle := False\<rparr>)
            | Panicked e \<Rightarrow> (Panicked e, h)))"

definition worker_start :: "('c, 'k) core_api \<Rightarrow> ('k handle, unit) io" where
  "worker_start api =
     andthen (gets (\<lambda>h. packet_source h \<noteq> None)) (\<lambda>packets.
     andthen (start_with_packets api packets) (\<lambda>_.
     modify (\<lambda>h. h\<lparr>running := True\<rparr>)))"

text \<open>
  The ends of the packet channels that the worker and its runtime hold are gone.
\<close>

definition drop_packet_ends :: "'k handle \<Rightarrow> 'k handle" where
  "drop_packet_ends h =
     h\<lparr>packet_input := map_option (\<lambda>c. c\<lparr>receiver_gone := True\<rparr>) (packet_input h),
       packet_output := (packet_output h)
         \<lparr>receiver := (receiver (packet_output h))\<lparr>senders_gone := True\<rparr>\<rparr>\<rparr>"

definition worker_set_fd :: "('c, 'k) core_api \<Rightarrow> int \<Rightarrow> ('k handle, unit) io" where
  "worker_set_fd api fd h =
     (if running h \<or> \<not> core_tun_enable h
      then (Fail ''TUN fd must be set before start with tun.enable=true'', h)
      else case native_tun_from_fd api fd of
        Fail e \<Rightarrow> (Fail e, h)
      | Panicked e \<Rightarrow> (Panicked e, h)
      | Done _ \<Rightarrow>
          (Done (), (drop_packet_ends h)
             \<lparr>packet_queue_enabled := False, packet_source := Some Native_Tun\<rparr>))"

text \<open>
  The end of the worker's thread, which the cancelled token or a panic brings about: the
  running core is shut down, or only dropped in a panic, and the packet channels end.
\<close>

definition worker_exit :: "('c, 'k) core_api \<Rightarrow> bool \<Rightarrow> 'k handle \<Rightarrow> 'k handle" where
  "worker_exit api panicked h =
     (let h = (if running h
               then h\<lparr>core := core_shutdown api panicked (core h),
                      lifecycle := (panicked \<and> lifecycle h), running := False\<rparr>
               else h)
      in (drop_packet_ends h)\<lparr>stopped := True, packet_source := None\<rparr>)"

subsection \<open>Commands\<close>

definition command_within ::
    "worker_env \<Rightarrow> bool \<Rightarrow> ('k handle, unit) io \<Rightarrow> ('k handle, unit) io" where
  "command_within env in_callback command =
     andthen (check_lifecycle in_callback) (\<lambda>_.
     andthen (gets stopped) (\<lambda>cancelled.
     ensure (\<not> cancelled) ''core is stopped'' (
     case command_slot env of
       Some cause \<Rightarrow> bail (''core command queue closed or full: '' @ cause)
     | None \<Rightarrow>
         (\<lambda>h. let (r, h') = command h
              in case (reply env, r) of
                   (Replied, Done x) \<Rightarrow> (Done x, h')
                 | (Replied, Fail e) \<Rightarrow> (Fail e, h')
                 | (Replied, Panicked _) \<Rightarrow>
                     (Fail ''channel is empty and sending half is closed'',
                      h'\<lparr>stopped := True\<rparr>)
                 | (TimedOut executed, _) \<Rightarrow>
                     (Fail ''timed out waiting on channel'',
                      (if executed then h' else h)\<lparr>stopped := True\<rparr>)
                 | (HungUp executed, _) \<Rightarrow>
                     (Fail ''channel is empty and sending half is closed'',
                      (if executed then h' else h)\<lparr>stopped := True\<rparr>)))))"

definition handle_start ::
    "('c, 'k) core_api \<Rightarrow> worker_env \<Rightarrow> bool \<Rightarrow> ('k handle, unit) io" where
  "handle_start api env in_callback = command_within env in_callback (worker_start api)"

definition handle_set_fd ::
    "('c, 'k) core_api \<Rightarrow> worker_env \<Rightarrow> bool \<Rightarrow> int \<Rightarrow> ('k handle, unit) io" where
  "handle_set_fd api env in_callback fd = command_within env in_callback (worker_set_fd api fd)"

definition check_packet_queue :: "('k handle, unit) io" where
  "check_packet_queue =
     andthen (gets packet_queue_enabled) (\<lambda>enabled.
     ensure enabled ''host packet queue unavailable: TUN is disabled or uses an Android fd''
       (ret ()))"

text \<open>
  The queries that the worker answers from a task of its own: \<open>run\<close> is what the task computes.
\<close>

definition handle_query ::
    "worker_env \<Rightarrow> ('k \<Rightarrow> 'a outcome \<times> 'k) \<Rightarrow> ('k handle, 'a) io" where
  "handle_query env run h =
     (if command_slot env \<noteq> None then (Fail ''core worker is busy or stopped'', h)
      else
        (let (r, k) = run (core h); h' = h\<lparr>core := k\<rparr>
         in case (reply env, r) of
              (Replied, Done x) \<Rightarrow> (Done x, h')
            | (Replied, Fail e) \<Rightarrow> (Fail e, h')
            | (Replied, Panicked _) \<Rightarrow> (Fail ''core worker did not answer'', h')
            | (TimedOut executed, _) \<Rightarrow>
                (Fail ''core worker did not answer'', if executed then h' else h)
            | (HungUp executed, _) \<Rightarrow>
                (Fail ''core worker did not answer'', if executed then h' else h)))"

definition handle_probe ::
    "('c, 'k) core_api \<Rightarrow> worker_env \<Rightarrow> string \<Rightarrow> nat \<Rightarrow> ('k handle, nat) io" where
  "handle_probe api env name timeout_ms = handle_query env (core_probe api name timeout_ms)"

definition handle_test_route ::
    "('c, 'k) core_api \<Rightarrow> worker_env \<Rightarrow> string \<times> uint16 \<Rightarrow> string \<Rightarrow> ('k handle, json) io" where
  "handle_test_route api env tgt net = handle_query env (core_test_route api tgt net)"

definition handle_dns_leak_test ::
    "('c, 'k) core_api \<Rightarrow> worker_env \<Rightarrow> ('k handle, json) io" where
  "handle_dns_leak_test api env = handle_query env (core_dns_leak_test api)"

definition handle_network_changed :: "bool \<Rightarrow> ('k handle, unit) io" where
  "handle_network_changed in_callback =
     andthen (check_lifecycle in_callback) (\<lambda>_.
     andthen (gets stopped) (\<lambda>cancelled.
     ensure (\<not> cancelled) ''core is stopped'' (
     modify (\<lambda>h. h\<lparr>network := network h + 1\<rparr>))))"

definition handle_shutdown ::
    "('c, 'k) core_api \<Rightarrow> worker_env \<Rightarrow> bool \<Rightarrow> ('k handle, unit) io" where
  "handle_shutdown api env in_callback =
     andthen (check_lifecycle in_callback) (\<lambda>_.
     andthen (modify (\<lambda>h. h\<lparr>stopped := True\<rparr>)) (\<lambda>_.
     andthen (gets worker) (\<lambda>joinable.
     if joinable
     then andthen (modify (\<lambda>h. (worker_exit api (worker_panicked env) h)\<lparr>worker := False\<rparr>)) (\<lambda>_.
          ensure (\<not> worker_panicked env) ''core worker panicked'' (ret ()))
     else ret ())))"

subsection \<open>What a handle keeps\<close>

text \<open>
  A core is spent once it was started or stopped: it cannot be started any more.
\<close>

definition spent :: "'k handle \<Rightarrow> bool" where
  "spent h \<longleftrightarrow> lifecycle h \<or> stopped h"

definition handle_inv :: "'k handle \<Rightarrow> bool" where
  "handle_inv h \<longleftrightarrow>
     (packet_input h = None \<longleftrightarrow> \<not> core_tun_enable h) \<and>
     (packet_queue_enabled h \<longrightarrow> core_tun_enable h) \<and>
     (running h \<longrightarrow> spent h) \<and>
     (\<not> worker h \<longrightarrow> stopped h \<and> \<not> running h \<and> senders_gone (receiver (packet_output h))) \<and>
     length (items (receiver (packet_output h))) \<le> PACKET_QUEUE \<and>
     (\<forall>c. packet_input h = Some c \<longrightarrow> length (items c) \<le> PACKET_QUEUE)"

text \<open>How a handle may change: forward only, and keeping its invariant.\<close>

definition handle_le :: "'k handle \<Rightarrow> 'k handle \<Rightarrow> bool" where
  "handle_le h h' \<longleftrightarrow>
     core_tun_enable h' = core_tun_enable h \<and>
     handle_hooks h' = handle_hooks h \<and>
     (stopped h \<longrightarrow> stopped h') \<and>
     (spent h \<longrightarrow> spent h') \<and>
     (\<not> worker h \<longrightarrow> \<not> worker h') \<and>
     (packet_queue_enabled h' \<longrightarrow> packet_queue_enabled h) \<and>
     (senders_gone (receiver (packet_output h)) \<longrightarrow>
        senders_gone (receiver (packet_output h'))) \<and>
     (handle_inv h \<longrightarrow> handle_inv h')"

lemma handle_le_refl [simp]: "handle_le h h"
  by (simp add: handle_le_def)

lemma handle_le_trans: "handle_le a b \<Longrightarrow> handle_le b c \<Longrightarrow> handle_le a c"
  by (auto simp: handle_le_def)

lemma handle_le_order [keeps_rules]: "progress_order handle_le"
  using handle_le_trans by (auto simp: progress_order_def reflp_def transp_def)

lemma Handle_new_inv: "Handle_new tgt api config hooks = Done h \<Longrightarrow> handle_inv h"
  by (auto simp: Handle_new_def handle_inv_def new_channel_def spent_def Let_def
      split: if_splits outcome.splits)

lemma handle_le_stop [simp]: "handle_le h (h\<lparr>stopped := True\<rparr>)"
  by (auto simp: handle_le_def handle_inv_def spent_def)

lemma handle_le_core [simp]: "handle_le h (h\<lparr>core := k\<rparr>)"
  by (simp add: handle_le_def handle_inv_def spent_def)

lemma handle_le_network [simp]: "handle_le h (h\<lparr>network := n\<rparr>)"
  by (simp add: handle_le_def handle_inv_def spent_def)

lemma start_with_packets_le: "keeps handle_le (start_with_packets api packets)"
  by (rule keepsI)
    (auto simp: start_with_packets_def handle_le_def handle_inv_def spent_def Let_def
      split: prod.splits outcome.splits)

lemma start_with_packets_Done:
  "start_with_packets api packets h = (Done x, h') \<Longrightarrow>
   lifecycle h' \<and> \<not> stopped h \<and> \<not> lifecycle h \<and> worker h' = worker h \<and> stopped h' = stopped h"
  by (auto simp: start_with_packets_def Let_def split: if_splits prod.splits outcome.splits)

lemma handle_le_running:
  assumes le: "handle_le h h'" and d: "lifecycle h'" "\<not> stopped h" "worker h' = worker h"
  shows "handle_le h (h'\<lparr>running := True\<rparr>)"
proof -
  let ?k = "h'\<lparr>running := True\<rparr>"
  have inv: "handle_inv ?k" if "handle_inv h"
  proof -
    have "handle_inv h'" using that le by (simp add: handle_le_def)
    moreover have "worker h" using that d(2) by (auto simp: handle_inv_def)
    ultimately show ?thesis using d(1,3) by (simp add: handle_inv_def spent_def)
  qed
  have "spent ?k = spent h'" by (simp add: spent_def)
  with inv le show ?thesis unfolding handle_le_def by simp
qed

lemma worker_start_le: "keeps handle_le (worker_start api)"
proof (rule keepsI)
  fix h
  obtain r h' where s: "start_with_packets api (packet_source h \<noteq> None) h = (r, h')"
    by fastforce
  then have le: "handle_le h h'"
    using keepsD [OF start_with_packets_le, of h api "packet_source h \<noteq> None"] by simp
  show "handle_le h (snd (worker_start api h))"
  proof (cases r)
    case (Done x)
    with s have "handle_le h (h'\<lparr>running := True\<rparr>)"
      using start_with_packets_Done [OF s [unfolded Done]] by (intro handle_le_running le) blast+
    with s Done show ?thesis by (simp add: worker_start_def andthen_def gets_def modify_def)
  qed (use s le in \<open>simp_all add: worker_start_def andthen_def gets_def\<close>)
qed

lemma drop_packet_ends_le: "handle_le h (drop_packet_ends h)"
  by (auto simp: handle_le_def handle_inv_def spent_def drop_packet_ends_def)

lemma worker_set_fd_le: "keeps handle_le (worker_set_fd api fd)"
  by (rule keepsI)
    (auto simp: worker_set_fd_def handle_le_def handle_inv_def spent_def drop_packet_ends_def
      split: outcome.splits)

lemma worker_exit_le: "handle_le h (worker_exit api panicked h)"
  by (auto simp: worker_exit_def handle_le_def handle_inv_def spent_def drop_packet_ends_def Let_def)

lemma joined_le: "handle_le h ((worker_exit api panicked h)\<lparr>worker := False\<rparr>)"
  by (auto simp: worker_exit_def handle_le_def handle_inv_def spent_def drop_packet_ends_def Let_def)

lemma check_lifecycle_keeps [keeps_rules]:
  "progress_order R \<Longrightarrow> keeps R (check_lifecycle cb)"
  by (auto simp: check_lifecycle_def intro!: keeps_rules)

lemma command_within_le:
  assumes "keeps handle_le command"
  shows "keeps handle_le (command_within env cb command)"
proof -
  have "keeps handle_le (\<lambda>h. let (r, h') = command h
      in case (reply env, r) of
           (Replied, Done x) \<Rightarrow> (Done x, h')
         | (Replied, Fail e) \<Rightarrow> (Fail e, h')
         | (Replied, Panicked _) \<Rightarrow>
             (Fail ''channel is empty and sending half is closed'', h'\<lparr>stopped := True\<rparr>)
         | (TimedOut executed, _) \<Rightarrow>
             (Fail ''timed out waiting on channel'',
              (if executed then h' else h)\<lparr>stopped := True\<rparr>)
         | (HungUp executed, _) \<Rightarrow>
             (Fail ''channel is empty and sending half is closed'',
              (if executed then h' else h)\<lparr>stopped := True\<rparr>))"
    (is "keeps _ ?m")
  proof (rule keepsI)
    fix h
    obtain r h' where c: "command h = (r, h')" by fastforce
    with keepsD [OF assms, of h] have "handle_le h h'" by simp
    then have "handle_le h (h'\<lparr>stopped := True\<rparr>)" using handle_le_stop handle_le_trans by blast
    with c \<open>handle_le h h'\<close> show "handle_le h (snd (?m h))"
      by (auto split: reply_wait.splits outcome.splits)
  qed
  then show ?thesis
    unfolding command_within_def by (auto intro!: keeps_rules)
qed

lemma handle_query_le: "keeps handle_le (handle_query env run)"
  by (rule keepsI)
    (auto simp: handle_query_def Let_def split: prod.splits reply_wait.splits outcome.splits)

lemma handle_network_changed_le: "keeps handle_le (handle_network_changed cb)"
  unfolding handle_network_changed_def by (auto intro!: keeps_rules keeps_modify)

lemma handle_shutdown_le: "keeps handle_le (handle_shutdown api env cb)"
  unfolding handle_shutdown_def by (auto intro!: keeps_rules keeps_modify joined_le)

lemma check_packet_queue_le: "keeps handle_le check_packet_queue"
  unfolding check_packet_queue_def by (auto intro!: keeps_rules)

lemmas handle_ops_le [keeps_rules] =
  command_within_le [OF worker_start_le, folded handle_start_def]
  command_within_le [OF worker_set_fd_le, folded handle_set_fd_def]
  handle_query_le handle_network_changed_le handle_shutdown_le check_packet_queue_le

lemma handle_fill_le:
  "keeps handle_le (on_part packet_output (\<lambda>q h. h\<lparr>packet_output := q\<rparr>) packets_fill)"
proof (rule keepsI)
  fix h :: "'a handle"
  note packets_fill_keeps_length [of "packet_output h"]
  then show "handle_le h (snd (on_part packet_output (\<lambda>q h. h\<lparr>packet_output := q\<rparr>) packets_fill h))"
    by (auto simp: on_part_def handle_le_def handle_inv_def spent_def split_beta Let_def)
qed

lemma handle_take_pending_le:
  "handle_le h (h\<lparr>packet_output := (packet_output h)\<lparr>pending := p\<rparr>\<rparr>)"
  by (auto simp: handle_le_def handle_inv_def spent_def)

end
