(* ===== verification/Config_Crypto.thy ===== *)
theory Config_Crypto
  imports Utf8
begin

text \<open>
  The encrypted configuration format, \<^verbatim>\<open>crates/config/src/crypto.rs\<close>: the key made from the
  password, encryption in CFB mode followed by Base64, and the way back. The AES and Base64
  crates are parameters; \<open>ciphers_ok\<close> states what they document, and the lemmas show the
  round trip under it. The concrete \<open>toy_ciphers\<close> meet it.
\<close>

record ciphers =
  cfb_encrypt :: "byte list \<Rightarrow> byte list \<Rightarrow> byte list \<Rightarrow> byte list"
  cfb_decrypt :: "byte list \<Rightarrow> byte list \<Rightarrow> byte list \<Rightarrow> byte list"
  base64_encode :: "byte list \<Rightarrow> string"
  base64_decode :: "byte list \<Rightarrow> byte list outcome"

definition crypto_IV :: "byte list" where
  "crypto_IV = [35, 46, 57, 24, 85, 35, 25, 74, 87, 35, 88, 98, 66, 33, 14, 5]"

definition crypto_key :: "string \<Rightarrow> byte list" where
  "crypto_key password =
     (let bytes = as_bytes password;
          sz = (if length bytes \<le> 16 then 16 else if length bytes \<le> 24 then 24 else 32);
          n = min sz (length bytes)
      in take n bytes @ replicate (sz - n) 0x30)"

definition crypto_encrypt :: "ciphers \<Rightarrow> byte list \<Rightarrow> string \<Rightarrow> string outcome" where
  "crypto_encrypt c plaintext password =
     Done (base64_encode c (cfb_encrypt c (crypto_key password) crypto_IV plaintext))"

definition crypto_decrypt :: "ciphers \<Rightarrow> byte list \<Rightarrow> string \<Rightarrow> byte list outcome" where
  "crypto_decrypt c ciphertext password =
     (if length ciphertext > 24 * 1024 * 1024
      then Fail ''encrypted configuration exceeds size limit''
      else
        (case base64_decode c ciphertext of
           Fail e \<Rightarrow> Fail e
         | Panicked e \<Rightarrow> Panicked e
         | Done bytes \<Rightarrow> Done (cfb_decrypt c (crypto_key password) crypto_IV bytes)))"

subsection \<open>Keys\<close>

lemma length_crypto_key: "length (crypto_key password) \<in> {16, 24, 32}"
  by (simp add: crypto_key_def Let_def)

lemma crypto_key_prefix:
  "length password \<le> 32 \<Longrightarrow> take (length password) (crypto_key password) = as_bytes password"
  by (simp add: crypto_key_def Let_def)

text \<open>Beyond the 32 bytes of the longest key the password has no effect.\<close>

lemma crypto_key_truncates:
  "32 \<le> length a \<Longrightarrow> 32 \<le> length b \<Longrightarrow> take 32 a = take 32 b \<Longrightarrow> crypto_key a = crypto_key b"
  by (simp add: crypto_key_def Let_def as_bytes_def take_map)

subsection \<open>The round trip\<close>

definition is_ascii_whitespace :: "byte \<Rightarrow> bool" where
  "is_ascii_whitespace b \<longleftrightarrow> b = 0x20 \<or> b = 0x09 \<or> b = 0x0A \<or> b = 0x0C \<or> b = 0x0D"

definition ciphers_ok :: "ciphers \<Rightarrow> bool" where
  "ciphers_ok c \<longleftrightarrow>
     (\<forall>key iv bs. length key \<in> {16, 24, 32} \<longrightarrow> length iv = 16 \<longrightarrow>
        cfb_decrypt c key iv (cfb_encrypt c key iv bs) = bs) \<and>
     (\<forall>key iv bs. length (cfb_encrypt c key iv bs) = length bs) \<and>
     (\<forall>bs. base64_decode c (as_bytes (base64_encode c bs)) = Done bs) \<and>
     (\<forall>bs. length (base64_encode c bs) = 4 * ((length bs + 2) div 3)) \<and>
     (\<forall>bs. \<forall>b\<in>set (as_bytes (base64_encode c bs)). \<not> is_ascii_whitespace b)"

lemma crypto_round_trip:
  assumes "ciphers_ok c" "crypto_encrypt c plaintext password = Done text"
    "length text \<le> 24 * 1024 * 1024"
  shows "crypto_decrypt c (as_bytes text) password = Done plaintext"
proof -
  have "length crypto_IV = 16" by (simp add: crypto_IV_def)
  with assms(1) length_crypto_key [of password]
  have "cfb_decrypt c (crypto_key password) crypto_IV
      (cfb_encrypt c (crypto_key password) crypto_IV plaintext) = plaintext"
    unfolding ciphers_ok_def by blast
  with assms show ?thesis
    by (auto simp: crypto_encrypt_def crypto_decrypt_def ciphers_ok_def)
qed

lemma crypto_encrypt_length:
  assumes "ciphers_ok c" "crypto_encrypt c plaintext password = Done text"
  shows "length text = 4 * ((length plaintext + 2) div 3)"
  using assms by (auto simp: crypto_encrypt_def ciphers_ok_def)

lemma crypto_encrypt_no_whitespace:
  assumes "ciphers_ok c" "crypto_encrypt c plaintext password = Done text"
  shows "filter (\<lambda>b. \<not> is_ascii_whitespace b) (as_bytes text) = as_bytes text"
  using assms by (auto simp: crypto_encrypt_def ciphers_ok_def intro: filter_True)

subsection \<open>A concrete instance\<close>

text \<open>Base64 with the standard alphabet, and a cipher that adds the first byte of the key.\<close>

definition b64_letter :: "nat \<Rightarrow> nat" where
  "b64_letter n =
     (if n < 26 then n + 65 else if n < 52 then n + 71 else if n < 62 then n - 4
      else if n = 62 then 43 else 47)"

definition b64_byte :: "nat \<Rightarrow> byte" where
  "b64_byte n = of_nat (b64_letter n)"

definition b64_value :: "byte \<Rightarrow> nat" where
  "b64_value b =
     (let x = unat b
      in if 97 \<le> x then x - 71 else if 65 \<le> x then x - 65 else if 48 \<le> x then x + 4
         else if x = 43 then 62 else 63)"

fun b64_encode :: "byte list \<Rightarrow> byte list" where
  "b64_encode [] = []"
| "b64_encode [a] = [b64_byte (unat a div 4), b64_byte (unat a mod 4 * 16), 0x3D, 0x3D]"
| "b64_encode [a, b] =
     [b64_byte (unat a div 4), b64_byte (unat a mod 4 * 16 + unat b div 16),
      b64_byte (unat b mod 16 * 4), 0x3D]"
| "b64_encode (a # b # c # bs) =
     b64_byte (unat a div 4) # b64_byte (unat a mod 4 * 16 + unat b div 16) #
     b64_byte (unat b mod 16 * 4 + unat c div 64) # b64_byte (unat c mod 64) # b64_encode bs"

fun b64_decode :: "byte list \<Rightarrow> byte list outcome" where
  "b64_decode [] = Done []"
| "b64_decode (p # q # r # t # bs) =
     (let a = of_nat (b64_value p * 4 + b64_value q div 16);
          b = of_nat (b64_value q mod 16 * 16 + b64_value r div 4);
          c = of_nat (b64_value r mod 4 * 64 + b64_value t)
      in if bs = [] \<and> r = 0x3D then Done [a]
         else if bs = [] \<and> t = 0x3D then Done [a, b]
         else (case b64_decode bs of Done xs \<Rightarrow> Done (a # b # c # xs) | e \<Rightarrow> e))"
| "b64_decode _ = Fail ''Invalid input length''"

definition toy_ciphers :: ciphers where
  "toy_ciphers =
     \<lparr>cfb_encrypt = (\<lambda>key iv. map (\<lambda>b. b + hd key)),
      cfb_decrypt = (\<lambda>key iv. map (\<lambda>b. b - hd key)),
      base64_encode = (\<lambda>bs. of_bytes (b64_encode bs)),
      base64_decode = b64_decode\<rparr>"

lemma b64_byte_inverse [simp]:
  assumes "n < 64"
  shows "b64_value (b64_byte n) = n" "b64_byte n \<noteq> 0x3D" "\<not> is_ascii_whitespace (b64_byte n)"
proof -
  have u: "unat (b64_byte n) = b64_letter n"
    unfolding b64_byte_def by (rule nat_byte) (use assms in \<open>auto simp: b64_letter_def\<close>)
  show "b64_value (b64_byte n) = n"
    using assms by (simp add: b64_value_def u Let_def) (auto simp: b64_letter_def)
  show "b64_byte n \<noteq> 0x3D" "\<not> is_ascii_whitespace (b64_byte n)"
    using assms
    by (auto simp: is_ascii_whitespace_def word_unat_eq_iff u b64_letter_def split: if_splits)
qed

lemma sextets:
  fixes a b c :: byte
  shows "unat a div 4 < 64" "unat a mod 4 * 16 < 64" "unat a mod 4 * 16 + unat b div 16 < 64"
    "unat b mod 16 * 4 < 64" "unat b mod 16 * 4 + unat c div 64 < 64" "unat c mod 64 < 64"
proof -
  have "unat a < 256" "unat b < 256" "unat c < 256" by (rule byte_less)+
  then have "unat a div 4 < 64" "unat b div 16 < 16" "unat c div 64 < 4"
    "unat a mod 4 < 4" "unat b mod 16 < 16" by linarith+
  then show "unat a div 4 < 64" "unat a mod 4 * 16 < 64" "unat a mod 4 * 16 + unat b div 16 < 64"
    "unat b mod 16 * 4 < 64" "unat b mod 16 * 4 + unat c div 64 < 64" "unat c mod 64 < 64"
    by linarith+
qed

lemma byte_parts [simp]:
  fixes b :: byte
  shows "unat b div 16 div 16 = 0" "unat b div 64 div 4 = 0"
    "unat b div 16 mod 16 = unat b div 16" "unat b div 64 mod 4 = unat b div 64"
proof -
  have "unat b < 256" by (rule byte_less)
  then have "unat b div 16 < 16" "unat b div 64 < 4" by linarith+
  then show "unat b div 16 div 16 = 0" "unat b div 64 div 4 = 0"
    "unat b div 16 mod 16 = unat b div 16" "unat b div 64 mod 4 = unat b div 64"
    by simp_all
qed

lemma b64_decode_encode: "b64_decode (b64_encode bs) = Done bs"
  by (induction bs rule: b64_encode.induct)
    (simp_all add: Let_def sextets del: of_nat_add of_nat_mult)

lemma b64_encode_no_whitespace: "b \<in> set (b64_encode bs) \<Longrightarrow> \<not> is_ascii_whitespace b"
proof (induction bs rule: b64_encode.induct)
  case (4 x y z bs)
  then show ?case using sextets(1) [of x] sextets(3) [of x y] sextets(5) [of y z] sextets(6) [of z]
    by auto
qed (use sextets in \<open>auto simp: is_ascii_whitespace_def [of "0x3D"]\<close>)

lemma length_b64_encode: "length (b64_encode bs) = 4 * ((length bs + 2) div 3)"
proof (induction bs rule: b64_encode.induct)
  case (4 a b c bs)
  have "(5 + length bs) div 3 = (length bs + 2) div 3 + 1" by presburger
  with 4 show ?case by simp
qed simp_all

lemma toy_ciphers_ok: "ciphers_ok toy_ciphers"
  by (simp add: ciphers_ok_def toy_ciphers_def b64_decode_encode b64_encode_no_whitespace
      length_b64_encode comp_def)

end
