(* ===== verification/Ffi_Abi.thy ===== *)
theory Ffi_Abi
  imports Ffi_Handle Ffi_Logs Config_Crypto "HOL-Library.AList"
begin

text \<open>
  The functions of the C interface, \<^verbatim>\<open>crates/ffi/src/lib.rs\<close>, one definition each: they run
  on the state of the process (the host's memory, the error text and the callback flag of
  every thread, the registry of handles with the next identifier, the log buffer), on behalf
  of the calling thread \<open>t\<close>, and return the status with the state they leave. What they call
  in other crates is gathered in \<open>env\<close>: the configuration, JSON and cipher crates, the core,
  the file system and the worker threads. The environment is an argument of every call, so it
  may differ from call to call.
\<close>

subsection \<open>The environment\<close>

record overrides =
  ov_log_level :: "string option"
  ov_ipv6 :: "bool option"
  ov_sniffing :: "bool option"
  ov_adblock :: "json option"
  ov_tailscale :: "bool option"

record cos_request =
  cos_target :: "string \<times> string \<times> string"
  cos_credentials :: "string \<times> string"
  cos_content_type :: "string option"

record 'c config_api =
  Config_parse :: "byte list \<Rightarrow> 'c config outcome"
  custom_validate :: "string \<Rightarrow> unit outcome"
  custom_targets :: "string \<Rightarrow> string list outcome"
  custom_apply :: "string \<Rightarrow> string list \<Rightarrow> (string \<times> json) outcome"
  overrides_apply :: "overrides \<Rightarrow> string \<Rightarrow> string outcome"
  syntax_check :: "string \<Rightarrow> json"
  cos_target_from_url :: "string \<Rightarrow> json"
  cos_put_object ::
    "string \<times> string \<times> string \<Rightarrow> string \<times> string \<Rightarrow> byte list \<Rightarrow> string \<Rightarrow> unit outcome"
  parse_test_target :: "string \<Rightarrow> uint16 option \<Rightarrow> (string \<times> uint16) outcome"

record json_api =
  from_slice :: "byte list \<Rightarrow> json outcome"
  to_vec :: "json \<Rightarrow> byte list outcome"
  json_to_string :: "json \<Rightarrow> string"
  strings_from_slice :: "byte list \<Rightarrow> string list outcome"
  overrides_from_slice :: "byte list \<Rightarrow> overrides outcome"
  cos_request_from_slice :: "byte list \<Rightarrow> cos_request outcome"
  network_info_from_slice :: "byte list \<Rightarrow> network_info outcome"
  strings_from_value :: "json \<Rightarrow> string list outcome"
  mode_from_value :: "json \<Rightarrow> mode outcome"

record ('c, 'k) env =
  env_target :: target
  env_config :: "'c config_api"
  env_json :: json_api
  env_ciphers :: ciphers
  env_core :: "('c, 'k) core_api"
  env_worker :: worker_env
  path_is_dir :: "string \<Rightarrow> bool"
  clone_fd :: "int \<Rightarrow> int outcome"
  panic_time :: json
  log_lock_free :: bool
  panic_file_opens :: bool

subsection \<open>The state of the process\<close>

record 'k ffi =
  mem :: host_mem
  error_text :: "nat \<Rightarrow> string"
  in_callback :: "nat \<Rightarrow> bool"
  handles :: "(meta_handle \<times> 'k handle) list"
  poisoned :: bool
  next_id :: meta_handle
  logs :: log_state

definition LIMIT :: nat where "LIMIT = 16 * 1024 * 1024"

definition lock_handles :: "('k ffi, unit) io" where
  "lock_handles =
     andthen (gets poisoned) (\<lambda>p.
     if p then panic ''called `Result::unwrap()` on an `Err` value: PoisonError { .. }''
     else ret ())"

definition handle_lookup :: "meta_handle \<Rightarrow> ('k ffi, 'k handle) io" where
  "handle_lookup i =
     andthen lock_handles (\<lambda>_.
     andthen (gets (\<lambda>s. map_of (handles s) i)) (\<lambda>h.
     attempt (opt_context ''invalid or destroyed core handle'' h)))"

text \<open>
  A call on the handle found for \<open>i\<close>: the handle is shared, so what the call changes in it is
  seen through the registry, as long as the handle is registered.
\<close>

definition on_handle :: "meta_handle \<Rightarrow> ('k handle, 'a) io \<Rightarrow> ('k ffi, 'a) io" where
  "on_handle i m =
     on_part (\<lambda>s. the (map_of (handles s) i))
       (\<lambda>h s. if map_of (handles s) i = None then s
              else s\<lparr>handles := AList.update i h (handles s)\<rparr>) m"

definition with_handle :: "meta_handle \<Rightarrow> ('k handle, 'a) io \<Rightarrow> ('k ffi, 'a) io" where
  "with_handle i m = andthen (handle_lookup i) (\<lambda>_. on_handle i m)"

definition on_core :: "('k \<Rightarrow> 'a outcome \<times> 'k) \<Rightarrow> ('k handle, 'a) io" where
  "on_core f = on_part core (\<lambda>k h. h\<lparr>core := k\<rparr>) f"

definition on_mem :: "(host_mem, 'a) io \<Rightarrow> ('k ffi, 'a) io" where
  "on_mem = on_part mem (\<lambda>m s. s\<lparr>mem := m\<rparr>)"

subsection \<open>The boundary\<close>

definition boundary ::
    "('c, 'k) env \<Rightarrow> nat \<Rightarrow> ('k ffi, int) io \<Rightarrow> 'k ffi \<Rightarrow> int \<times> 'k ffi" where
  "boundary env t operation s =
     (case operation s of
        (Done status, s) \<Rightarrow> (status, s)
      | (Fail e, s) \<Rightarrow> (META_ERROR, s\<lparr>error_text := (error_text s)(t := e)\<rparr>)
      | (Panicked e, s) \<Rightarrow>
          (META_ERROR,
           s\<lparr>error_text := (error_text s)(t := ''panic contained at C ABI boundary''),
             logs := record_panic (json_to_string (env_json env)) (panic_time env)
               (log_lock_free env) (panic_file_opens env) e (logs s)\<rparr>))"

definition input_with_limit :: "nat \<Rightarrow> nat \<Rightarrow> nat \<Rightarrow> ('k ffi, byte list) io" where
  "input_with_limit data len limit =
     ensure (len \<le> limit \<and> (len = 0 \<or> data \<noteq> 0)) ''invalid input buffer''
       (if len = 0 then ret [] else gets (\<lambda>s. load_bytes data len (mem s)))"

definition abi_input :: "nat \<Rightarrow> nat \<Rightarrow> ('k ffi, byte list) io" where
  "abi_input data len = input_with_limit data len LIMIT"

definition input_str :: "nat \<Rightarrow> nat \<Rightarrow> ('k ffi, string) io" where
  "input_str data len = andthen (abi_input data len) (\<lambda>bytes. attempt (from_utf8 bytes))"

definition set_length :: "nat \<Rightarrow> nat \<Rightarrow> ('k ffi, unit) io" where
  "set_length length_ptr n = on_mem (modify (store_usize length_ptr n))"

definition abi_output :: "byte list \<Rightarrow> nat \<Rightarrow> nat \<Rightarrow> nat \<Rightarrow> ('k ffi, int) io" where
  "abi_output bytes buffer capacity length_ptr =
     ensure (length_ptr \<noteq> 0) ''output length is required'' (
     andthen (set_length length_ptr (length bytes)) (\<lambda>_.
     if capacity < length bytes then ret META_BUFFER_TOO_SMALL
     else
       ensure (bytes = [] \<or> buffer \<noteq> 0) ''invalid output buffer'' (
       if bytes \<noteq> []
       then andthen (on_mem (modify (store_bytes buffer bytes))) (\<lambda>_. ret META_OK)
       else ret META_OK)))"

definition output_json ::
    "('c, 'k) env \<Rightarrow> json \<Rightarrow> nat \<Rightarrow> nat \<Rightarrow> nat \<Rightarrow> ('k ffi, int) io" where
  "output_json env v buffer capacity length_ptr =
     andthen (attempt (to_vec (env_json env) v)) (\<lambda>bytes.
     abi_output bytes buffer capacity length_ptr)"

subsection \<open>Configurations\<close>

definition meta_decrypt_config_v1 ::
    "('c, 'k) env \<Rightarrow> nat \<Rightarrow> nat \<Rightarrow> nat \<Rightarrow> nat \<Rightarrow> nat \<Rightarrow> nat \<Rightarrow> nat \<Rightarrow> nat \<Rightarrow> 'k ffi \<Rightarrow> int \<times> 'k ffi" where
  "meta_decrypt_config_v1 env t data len password password_len buffer capacity length_ptr =
     boundary env t (
     ensure (length_ptr \<noteq> 0) ''output length is required'' (
     andthen (set_length length_ptr 0) (\<lambda>_.
     ensure (capacity = 0 \<or> buffer \<noteq> 0) ''invalid output buffer'' (
     andthen (input_with_limit data len (24 * 1024 * 1024)) (\<lambda>ciphertext.
     andthen (input_str password password_len) (\<lambda>password.
     let ciphertext = filter (\<lambda>b. \<not> is_ascii_whitespace b) ciphertext in
     andthen (attempt (map_err ''cannot decrypt configuration: check password and format''
       (crypto_decrypt (env_ciphers env) ciphertext password))) (\<lambda>plaintext.
     ensure (plaintext \<noteq> [] \<and> length plaintext \<le> LIMIT)
       ''decrypted configuration is empty or exceeds 16 MiB'' (
     andthen (attempt (map_err ''cannot decrypt configuration: check password and format''
       (Config_parse (env_config env) plaintext))) (\<lambda>_.
     abi_output plaintext buffer capacity length_ptr)))))))))"

definition meta_encrypt_config_v1 ::
    "('c, 'k) env \<Rightarrow> nat \<Rightarrow> nat \<Rightarrow> nat \<Rightarrow> nat \<Rightarrow> nat \<Rightarrow> nat \<Rightarrow> nat \<Rightarrow> nat \<Rightarrow> 'k ffi \<Rightarrow> int \<times> 'k ffi" where
  "meta_encrypt_config_v1 env t data len password password_len buffer capacity length_ptr =
     boundary env t (
     ensure (length_ptr \<noteq> 0) ''output length is required'' (
     andthen (set_length length_ptr 0) (\<lambda>_.
     ensure (capacity = 0 \<or> buffer \<noteq> 0) ''invalid output buffer'' (
     andthen (input_with_limit data len LIMIT) (\<lambda>plaintext.
     andthen (input_str password password_len) (\<lambda>password.
     ensure (password \<noteq> []) ''password is required'' (
     andthen (attempt (Config_parse (env_config env) plaintext)) (\<lambda>_.
     andthen (attempt (crypto_encrypt (env_ciphers env) plaintext password)) (\<lambda>encoded.
     abi_output (as_bytes encoded) buffer capacity length_ptr)))))))))"

definition meta_custom_rule_validate_v1 ::
    "('c, 'k) env \<Rightarrow> nat \<Rightarrow> nat \<Rightarrow> nat \<Rightarrow> 'k ffi \<Rightarrow> int \<times> 'k ffi" where
  "meta_custom_rule_validate_v1 env t rule len =
     boundary env t (
     andthen (input_str rule len) (\<lambda>rule.
     andthen (attempt (custom_validate (env_config env) rule)) (\<lambda>_.
     ret META_OK)))"

definition meta_custom_rule_targets_v1 ::
    "('c, 'k) env \<Rightarrow> nat \<Rightarrow> nat \<Rightarrow> nat \<Rightarrow> nat \<Rightarrow> nat \<Rightarrow> nat \<Rightarrow> 'k ffi \<Rightarrow> int \<times> 'k ffi" where
  "meta_custom_rule_targets_v1 env t config len buffer capacity length_ptr =
     boundary env t (
     andthen (input_str config len) (\<lambda>yaml.
     andthen (attempt (custom_targets (env_config env) yaml)) (\<lambda>targets.
     output_json env (JArray (map JString targets)) buffer capacity length_ptr)))"

definition meta_custom_rules_apply_v1 ::
    "('c, 'k) env \<Rightarrow> nat \<Rightarrow> nat \<Rightarrow> nat \<Rightarrow> nat \<Rightarrow> nat \<Rightarrow> nat \<Rightarrow> nat \<Rightarrow> nat \<Rightarrow> 'k ffi \<Rightarrow> int \<times> 'k ffi" where
  "meta_custom_rules_apply_v1 env t config len rules rules_len buffer capacity length_ptr =
     boundary env t (
     andthen (input_str config len) (\<lambda>yaml.
     andthen (abi_input rules rules_len) (\<lambda>rules.
     andthen (attempt (strings_from_slice (env_json env) rules)) (\<lambda>rules.
     andthen (attempt (custom_apply (env_config env) yaml rules)) (\<lambda>(yaml, skipped).
     output_json env (JObject [(''yaml'', JString yaml), (''skipped'', skipped)])
       buffer capacity length_ptr)))))"

definition meta_overrides_apply_v1 ::
    "('c, 'k) env \<Rightarrow> nat \<Rightarrow> nat \<Rightarrow> nat \<Rightarrow> nat \<Rightarrow> nat \<Rightarrow> nat \<Rightarrow> nat \<Rightarrow> nat \<Rightarrow> 'k ffi \<Rightarrow> int \<times> 'k ffi" where
  "meta_overrides_apply_v1 env t config len ovr ovr_len buffer capacity length_ptr =
     boundary env t (
     andthen (input_str config len) (\<lambda>yaml.
     andthen (abi_input ovr ovr_len) (\<lambda>ovr.
     andthen (attempt (overrides_from_slice (env_json env) ovr)) (\<lambda>ovr.
     andthen (attempt (overrides_apply (env_config env) ovr yaml)) (\<lambda>yaml.
     abi_output (as_bytes yaml) buffer capacity length_ptr)))))"

definition meta_yaml_check_v1 ::
    "('c, 'k) env \<Rightarrow> nat \<Rightarrow> nat \<Rightarrow> nat \<Rightarrow> nat \<Rightarrow> nat \<Rightarrow> nat \<Rightarrow> 'k ffi \<Rightarrow> int \<times> 'k ffi" where
  "meta_yaml_check_v1 env t config len buffer capacity length_ptr =
     boundary env t (
     andthen (input_str config len) (\<lambda>yaml.
     output_json env (syntax_check (env_config env) yaml) buffer capacity length_ptr))"

definition meta_cos_target_v1 ::
    "('c, 'k) env \<Rightarrow> nat \<Rightarrow> nat \<Rightarrow> nat \<Rightarrow> nat \<Rightarrow> nat \<Rightarrow> nat \<Rightarrow> 'k ffi \<Rightarrow> int \<times> 'k ffi" where
  "meta_cos_target_v1 env t url len buffer capacity length_ptr =
     boundary env t (
     andthen (input_str url len) (\<lambda>url.
     output_json env (cos_target_from_url (env_config env) url) buffer capacity length_ptr))"

definition meta_cos_put_v1 ::
    "('c, 'k) env \<Rightarrow> nat \<Rightarrow> nat \<Rightarrow> nat \<Rightarrow> nat \<Rightarrow> nat \<Rightarrow> 'k ffi \<Rightarrow> int \<times> 'k ffi" where
  "meta_cos_put_v1 env t request request_len data len =
     boundary env t (
     andthen (abi_input request request_len) (\<lambda>request.
     andthen (attempt (cos_request_from_slice (env_json env) request)) (\<lambda>request.
     andthen (abi_input data len) (\<lambda>body.
     andthen (attempt (runtime_build (env_core env))) (\<lambda>_.
     andthen (attempt (cos_put_object (env_config env) (cos_target request)
       (cos_credentials request) body
       (case cos_content_type request of None \<Rightarrow> ''text/plain'' | Some c \<Rightarrow> c))) (\<lambda>_.
     ret META_OK))))))"

definition meta_drain_logs_v1 ::
    "('c, 'k) env \<Rightarrow> nat \<Rightarrow> nat \<Rightarrow> nat \<Rightarrow> nat \<Rightarrow> 'k ffi \<Rightarrow> int \<times> 'k ffi" where
  "meta_drain_logs_v1 env t buffer capacity length_ptr =
     boundary env t (
     drain (\<lambda>bytes. abi_output bytes buffer capacity length_ptr) (\<lambda>status. status = META_OK)
       logs (\<lambda>l s. s\<lparr>logs := l\<rparr>))"

subsection \<open>Resources\<close>

text \<open>Paths of Unix targets.\<close>

definition path_is_absolute :: "string \<Rightarrow> bool" where
  "path_is_absolute path \<longleftrightarrow> path \<noteq> [] \<and> hd path = CHR ''/''"

definition path_join :: "string \<Rightarrow> string \<Rightarrow> string" where
  "path_join path name =
     (if path \<noteq> [] \<and> last path \<noteq> CHR ''/'' then path @ ''/'' @ name else path @ name)"

definition disable_tun :: "'c config \<Rightarrow> 'c config" where
  "disable_tun config = config\<lparr>cfg_tun := (cfg_tun config)\<lparr>tun_enable := False\<rparr>\<rparr>"

definition meta_prefetch_resources_v1 ::
    "('c, 'k) env \<Rightarrow> nat \<Rightarrow> nat \<Rightarrow> nat \<Rightarrow> nat \<Rightarrow> nat \<Rightarrow> 'k ffi \<Rightarrow> int \<times> 'k ffi" where
  "meta_prefetch_resources_v1 env t data len directory directory_len =
     boundary env t (
     andthen (abi_input data len) (\<lambda>bytes.
     andthen (attempt (Config_parse (env_config env) bytes)) (\<lambda>config.
     andthen (input_str directory directory_len) (\<lambda>path.
     ensure (path_is_absolute path \<and> path_is_dir env path)
       ''resource directory must exist and be absolute'' (
     andthen (attempt (Core_new_default_hooks (env_core env)
       (disable_tun (config\<lparr>cfg_directory := path\<rparr>)))) (\<lambda>k.
     andthen (attempt (resource_freshness (env_core env) k)) (\<lambda>state.
     if state = Current then ret META_OK
     else
       andthen (attempt (runtime_build (env_core env))) (\<lambda>_.
       andthen (attempt (prepare_resources (env_core env) k)) (\<lambda>_.
       ret META_OK)))))))))"

definition freshness_code :: "freshness \<Rightarrow> uint32" where
  "freshness_code f = (case f of Current \<Rightarrow> 0 | Expired \<Rightarrow> 1 | Missing \<Rightarrow> 2)"

definition meta_resources_state_v1 ::
    "('c, 'k) env \<Rightarrow> nat \<Rightarrow> nat \<Rightarrow> nat \<Rightarrow> nat \<Rightarrow> nat \<Rightarrow> nat \<Rightarrow> 'k ffi \<Rightarrow> int \<times> 'k ffi" where
  "meta_resources_state_v1 env t data len directory directory_len state =
     boundary env t (
     ensure (state \<noteq> 0) ''state output is required'' (
     andthen (abi_input data len) (\<lambda>bytes.
     andthen (attempt (Config_parse (env_config env) bytes)) (\<lambda>config.
     andthen (input_str directory directory_len) (\<lambda>path.
     andthen (attempt (Core_new_default_hooks (env_core env)
       (disable_tun (config\<lparr>cfg_directory := path\<rparr>)))) (\<lambda>k.
     andthen (attempt (resource_freshness (env_core env) k)) (\<lambda>f.
     andthen (on_mem (modify (store_u32 state (freshness_code f)))) (\<lambda>_.
     ret META_OK))))))))"

subsection \<open>Creating cores\<close>

definition packet_tunnel_config :: "string \<Rightarrow> 'c config \<Rightarrow> 'c config" where
  "packet_tunnel_config path config =
     config
       \<lparr>cfg_directory := path,
        cfg_internal_host_packet_io := True,
        cfg_port := 0,
        cfg_socks_port := 0,
        cfg_mixed_port := 0,
        cfg_allow_lan := False,
        cfg_external_controller := None,
        cfg_external_ui := [],
        cfg_log_path := [],
        cfg_dns_enable := False,
        cfg_tun := (cfg_tun config)
          \<lparr>tun_enable := True,
           tun_auto_route := False,
           tun_auto_dns := False,
           tun_auto_detect_interface := False,
           tun_interface := None,
           tun_mtu := 1280,
           tun_dns_hijack := [''any:53'']\<rparr>\<rparr>"

definition host_directory ::
    "('c, 'k) env \<Rightarrow> (nat \<times> nat) option \<Rightarrow> 'c config \<Rightarrow> ('k ffi, 'c config) io" where
  "host_directory env directory config =
     (case directory of
        None \<Rightarrow> ret config
      | Some (path, path_len) \<Rightarrow>
          andthen (input_str path path_len) (\<lambda>path.
          ensure (path_is_absolute path \<and> path_is_dir env path)
            ''host directory must exist and be absolute'' (
          andthen (modify (\<lambda>s. s\<lparr>logs := set_panic_file (path_join path ''panic.log'') (logs s)\<rparr>))
            (\<lambda>_. ret (packet_tunnel_config path config)))))"

definition host_hooks_input :: "('c, 'k) env \<Rightarrow> nat \<Rightarrow> ('k ffi, host_hooks) io" where
  "host_hooks_input env hooks =
     (if hooks = 0 then ret HostHooks_default
      else
        andthen (gets (\<lambda>s. hooks_at (mem s) hooks)) (\<lambda>h.
        ensure (unat (hooks_size h) = size_of_MetaHooksV1 (env_target env))
          ''unsupported host hooks size''
          (attempt (HostHooks_new (env_target env) h))))"

definition take_id :: "('k ffi, meta_handle) io" where
  "take_id s =
     (if next_id s = - 1 then (Fail ''core handle identifiers exhausted'', s)
      else (Done (next_id s), s\<lparr>next_id := next_id s + 1\<rparr>))"

text \<open>The registry is locked while the handle is made, so a panic there poisons it.\<close>

definition register :: "meta_handle \<Rightarrow> 'k handle outcome \<Rightarrow> ('k ffi, unit) io" where
  "register i r s =
     (case r of
        Done h \<Rightarrow> (Done (), s\<lparr>handles := AList.update i h (handles s)\<rparr>)
      | Fail e \<Rightarrow> (Fail e, s)
      | Panicked e \<Rightarrow> (Panicked e, s\<lparr>poisoned := True\<rparr>))"

definition MAX_HANDLES :: nat where "MAX_HANDLES = 16"

text \<open>The end of \<^verbatim>\<open>create\<close>, from taking the registry's lock.\<close>

definition create_registered ::
    "('c, 'k) env \<Rightarrow> nat \<Rightarrow> 'c config \<Rightarrow> host_hooks \<Rightarrow> ('k ffi, int) io" where
  "create_registered env out_ptr config hooks =
     andthen lock_handles (\<lambda>_.
     andthen (gets (\<lambda>s. length (handles s))) (\<lambda>n.
     ensure (n < MAX_HANDLES) ''core handle capacity reached'' (
     andthen take_id (\<lambda>i.
     andthen (register i (Handle_new (env_target env) (env_core env) config hooks)) (\<lambda>_.
     andthen (on_mem (modify (store_u64 out_ptr i))) (\<lambda>_.
     ret META_OK))))))"

definition abi_create ::
    "('c, 'k) env \<Rightarrow> nat \<Rightarrow> nat \<Rightarrow> nat \<Rightarrow> nat \<Rightarrow> nat \<Rightarrow> (nat \<times> nat) option \<Rightarrow>
     'k ffi \<Rightarrow> int \<times> 'k ffi" where
  "abi_create env t data len hooks out_ptr directory =
     boundary env t (
     ensure (out_ptr \<noteq> 0) ''handle output is required'' (
     andthen (on_mem (modify (store_u64 out_ptr 0))) (\<lambda>_.
     andthen (gets (\<lambda>s. in_callback s t)) (\<lambda>cb.
     andthen (check_lifecycle cb) (\<lambda>_.
     andthen (abi_input data len) (\<lambda>bytes.
     andthen (attempt (Config_parse (env_config env) bytes)) (\<lambda>config.
     andthen (modify (\<lambda>s. s\<lparr>logs := logs_init (cfg_log_level config) (logs s)\<rparr>)) (\<lambda>_.
     andthen (host_directory env directory config) (\<lambda>config.
     andthen (host_hooks_input env hooks) (\<lambda>hooks.
     create_registered env out_ptr config hooks))))))))))"

definition meta_create_v1 ::
    "('c, 'k) env \<Rightarrow> nat \<Rightarrow> nat \<Rightarrow> nat \<Rightarrow> nat \<Rightarrow> nat \<Rightarrow> 'k ffi \<Rightarrow> int \<times> 'k ffi" where
  "meta_create_v1 env t data len hooks out_ptr = abi_create env t data len hooks out_ptr None"

definition meta_create_packet_tunnel_v1 ::
    "('c, 'k) env \<Rightarrow> nat \<Rightarrow> nat \<Rightarrow> nat \<Rightarrow> nat \<Rightarrow> nat \<Rightarrow> nat \<Rightarrow> nat \<Rightarrow> 'k ffi \<Rightarrow> int \<times> 'k ffi" where
  "meta_create_packet_tunnel_v1 env t data len directory directory_len hooks out_ptr =
     abi_create env t data len hooks out_ptr (Some (directory, directory_len))"

subsection \<open>Lifecycle\<close>

definition caller_in_callback :: "nat \<Rightarrow> ('k ffi, bool) io" where
  "caller_in_callback t = gets (\<lambda>s. in_callback s t)"

definition meta_start_v1 ::
    "('c, 'k) env \<Rightarrow> nat \<Rightarrow> meta_handle \<Rightarrow> 'k ffi \<Rightarrow> int \<times> 'k ffi" where
  "meta_start_v1 env t i =
     boundary env t (
     andthen (caller_in_callback t) (\<lambda>cb.
     andthen (with_handle i (handle_start (env_core env) (env_worker env) cb)) (\<lambda>_.
     ret META_OK)))"

definition meta_stop_v1 ::
    "('c, 'k) env \<Rightarrow> nat \<Rightarrow> meta_handle \<Rightarrow> 'k ffi \<Rightarrow> int \<times> 'k ffi" where
  "meta_stop_v1 env t i =
     boundary env t (
     andthen (caller_in_callback t) (\<lambda>cb.
     andthen (with_handle i (handle_shutdown (env_core env) (env_worker env) cb)) (\<lambda>_.
     ret META_OK)))"

definition meta_destroy_v1 ::
    "('c, 'k) env \<Rightarrow> nat \<Rightarrow> meta_handle \<Rightarrow> 'k ffi \<Rightarrow> int \<times> 'k ffi" where
  "meta_destroy_v1 env t i =
     boundary env t (
     andthen (caller_in_callback t) (\<lambda>cb.
     andthen (with_handle i (handle_shutdown (env_core env) (env_worker env) cb)) (\<lambda>_.
     andthen lock_handles (\<lambda>_.
     andthen (modify (\<lambda>s. s\<lparr>handles := AList.delete i (handles s)\<rparr>)) (\<lambda>_.
     ret META_OK)))))"

definition meta_close_connections_v1 ::
    "('c, 'k) env \<Rightarrow> nat \<Rightarrow> meta_handle \<Rightarrow> 'k ffi \<Rightarrow> int \<times> 'k ffi" where
  "meta_close_connections_v1 env t i =
     boundary env t (
     andthen (with_handle i (on_core (modify (core_close_connections (env_core env))))) (\<lambda>_.
     ret META_OK))"

definition meta_network_changed_v1 ::
    "('c, 'k) env \<Rightarrow> nat \<Rightarrow> meta_handle \<Rightarrow> 'k ffi \<Rightarrow> int \<times> 'k ffi" where
  "meta_network_changed_v1 env t i =
     boundary env t (
     andthen (caller_in_callback t) (\<lambda>cb.
     andthen (with_handle i (handle_network_changed cb)) (\<lambda>_.
     ret META_OK)))"

definition meta_set_network_v1 ::
    "('c, 'k) env \<Rightarrow> nat \<Rightarrow> meta_handle \<Rightarrow> nat \<Rightarrow> nat \<Rightarrow> 'k ffi \<Rightarrow> int \<times> 'k ffi" where
  "meta_set_network_v1 env t i data len =
     boundary env t (
     andthen (abi_input data len) (\<lambda>bytes.
     andthen (attempt (network_info_from_slice (env_json env) bytes)) (\<lambda>info.
     andthen (with_handle i (on_core (core_set_network (env_core env) info))) (\<lambda>_.
     ret META_OK))))"

definition meta_set_tun_fd_v1 ::
    "('c, 'k) env \<Rightarrow> nat \<Rightarrow> meta_handle \<Rightarrow> int \<Rightarrow> 'k ffi \<Rightarrow> int \<times> 'k ffi" where
  "meta_set_tun_fd_v1 env t i fd =
     boundary env t (
     ensure (fd \<ge> 0) ''invalid TUN descriptor'' (
     andthen (attempt (clone_fd env fd)) (\<lambda>owned.
     andthen (caller_in_callback t) (\<lambda>cb.
     andthen (with_handle i (handle_set_fd (env_core env) (env_worker env) cb owned)) (\<lambda>_.
     ret META_OK)))))"

subsection \<open>Queries and settings\<close>

definition meta_error_v1 ::
    "('c, 'k) env \<Rightarrow> nat \<Rightarrow> nat \<Rightarrow> nat \<Rightarrow> nat \<Rightarrow> 'k ffi \<Rightarrow> int \<times> 'k ffi" where
  "meta_error_v1 env t buffer capacity length_ptr =
     boundary env t (
     andthen (gets (\<lambda>s. error_text s t)) (\<lambda>msg.
     abi_output (as_bytes msg) buffer capacity length_ptr))"

definition meta_snapshot_v1 ::
    "('c, 'k) env \<Rightarrow> nat \<Rightarrow> meta_handle \<Rightarrow> nat \<Rightarrow> nat \<Rightarrow> nat \<Rightarrow> 'k ffi \<Rightarrow> int \<times> 'k ffi" where
  "meta_snapshot_v1 env t i buffer capacity length_ptr =
     boundary env t (
     andthen (handle_lookup i) (\<lambda>h.
     output_json env
       (JObject (core_snapshot (env_core env) (core h) @
         [(''upload'', JNumber (PosInt (core_upload (env_core env) (core h)))),
          (''download'', JNumber (PosInt (core_download (env_core env) (core h)))),
          (''stopped'', JBool (stopped h))]))
       buffer capacity length_ptr))"

definition meta_status_v1 ::
    "('c, 'k) env \<Rightarrow> nat \<Rightarrow> meta_handle \<Rightarrow> nat \<Rightarrow> nat \<Rightarrow> nat \<Rightarrow> 'k ffi \<Rightarrow> int \<times> 'k ffi" where
  "meta_status_v1 env t i buffer capacity length_ptr =
     boundary env t (
     andthen (handle_lookup i) (\<lambda>h.
     output_json env
       (JObject
         [(''stopped'', JBool (stopped h)),
          (''connections'', JNumber (PosInt (core_connection_count (env_core env) (core h)))),
          (''upload'', JNumber (PosInt (core_upload (env_core env) (core h)))),
          (''download'', JNumber (PosInt (core_download (env_core env) (core h))))])
       buffer capacity length_ptr))"

definition opt_value :: "(json \<Rightarrow> 'a outcome) \<Rightarrow> json option \<Rightarrow> 'a option outcome" where
  "opt_value f v =
     (case v of
        None \<Rightarrow> Done None
      | Some x \<Rightarrow>
          (case f x of Done y \<Rightarrow> Done (Some y) | Fail e \<Rightarrow> Fail e | Panicked e \<Rightarrow> Panicked e))"

definition meta_update_v1 ::
    "('c, 'k) env \<Rightarrow> nat \<Rightarrow> meta_handle \<Rightarrow> nat \<Rightarrow> nat \<Rightarrow> 'k ffi \<Rightarrow> int \<times> 'k ffi" where
  "meta_update_v1 env t i data len =
     boundary env t (
     andthen (abi_input data len) (\<lambda>bytes.
     andthen (attempt (from_slice (env_json env) bytes)) (\<lambda>v.
     andthen (attempt (opt_context ''update must be an object'' (json_as_object v))) (\<lambda>object.
     ensure (list_all (\<lambda>(k, _). k = ''mode'' \<or> k = ''rules'' \<or> k = ''adblock-allow'') object)
       ''only mode, rules and adblock-allow can update online'' (
     andthen (case map_of object ''adblock-allow'' of
         None \<Rightarrow> ret ()
       | Some allow \<Rightarrow>
           andthen (handle_lookup i) (\<lambda>_.
           andthen (attempt (strings_from_value (env_json env) allow)) (\<lambda>allow.
           on_handle i (on_core (core_set_adblock_allow (env_core env) allow))))) (\<lambda>_.
     andthen (attempt (opt_value (mode_from_value (env_json env)) (map_of object ''mode''))) (\<lambda>m.
     andthen (attempt (opt_value (strings_from_value (env_json env)) (map_of object ''rules'')))
       (\<lambda>rules.
     andthen (if m \<noteq> None \<or> rules \<noteq> None
       then with_handle i (on_core (core_update_policy (env_core env) m rules))
       else ret ()) (\<lambda>_.
     ret META_OK)))))))))"

definition meta_select_v1 ::
    "('c, 'k) env \<Rightarrow> nat \<Rightarrow> meta_handle \<Rightarrow> nat \<Rightarrow> nat \<Rightarrow> nat \<Rightarrow> nat \<Rightarrow> 'k ffi \<Rightarrow> int \<times> 'k ffi" where
  "meta_select_v1 env t i grp grp_len node node_len =
     boundary env t (
     andthen (handle_lookup i) (\<lambda>_.
     andthen (input_str grp grp_len) (\<lambda>grp.
     andthen (input_str node node_len) (\<lambda>node.
     andthen (on_handle i (on_core (core_select (env_core env) grp node))) (\<lambda>_.
     ret META_OK)))))"

definition meta_close_connection_v1 ::
    "('c, 'k) env \<Rightarrow> nat \<Rightarrow> meta_handle \<Rightarrow> nat \<Rightarrow> nat \<Rightarrow> 'k ffi \<Rightarrow> int \<times> 'k ffi" where
  "meta_close_connection_v1 env t i conn conn_len =
     boundary env t (
     andthen (input_str conn conn_len) (\<lambda>conn.
     andthen (with_handle i (on_core (modify (core_close_connection (env_core env) conn)))) (\<lambda>_.
     ret META_OK)))"

definition clamp :: "nat \<Rightarrow> nat \<Rightarrow> nat \<Rightarrow> nat" where
  "clamp lo hi x = (if x < lo then lo else if x > hi then hi else x)"

definition meta_probe_v1 ::
    "('c, 'k) env \<Rightarrow> nat \<Rightarrow> meta_handle \<Rightarrow> nat \<Rightarrow> nat \<Rightarrow> uint32 \<Rightarrow> nat \<Rightarrow> 'k ffi \<Rightarrow> int \<times> 'k ffi" where
  "meta_probe_v1 env t i name name_len timeout_ms delay_ms =
     boundary env t (
     ensure (delay_ms \<noteq> 0) ''delay output is required'' (
     andthen (input_str name name_len) (\<lambda>name.
     andthen (with_handle i (handle_probe (env_core env) (env_worker env) name
       (clamp 100 30000 (unat timeout_ms)))) (\<lambda>delay.
     andthen (on_mem (modify (store_u32 delay_ms (of_nat (min delay (2 ^ 32 - 1)))))) (\<lambda>_.
     ret META_OK)))))"

definition route_port :: "json \<Rightarrow> uint16 option outcome" where
  "route_port v =
     (if v = JNull then Done None
      else
        (case json_as_u64 v of
           None \<Rightarrow> Fail ''invalid port''
         | Some p \<Rightarrow>
             if p < 2 ^ 16 \<and> p \<noteq> 0 then Done (Some (of_nat p)) else Fail ''invalid port''))"

definition meta_test_route_v1 ::
    "('c, 'k) env \<Rightarrow> nat \<Rightarrow> meta_handle \<Rightarrow> nat \<Rightarrow> nat \<Rightarrow> nat \<Rightarrow> nat \<Rightarrow> nat \<Rightarrow> 'k ffi \<Rightarrow> int \<times> 'k ffi" where
  "meta_test_route_v1 env t i data len buffer capacity length_ptr =
     boundary env t (
     andthen (abi_input data len) (\<lambda>bytes.
     andthen (attempt (from_slice (env_json env) bytes)) (\<lambda>v.
     andthen (attempt (opt_context ''target required'' (json_as_str (json_index v ''target''))))
       (\<lambda>tgt.
     andthen (attempt (route_port (json_index v ''port''))) (\<lambda>port.
     let net = (case json_as_str (json_index v ''network'') of None \<Rightarrow> ''tcp'' | Some n \<Rightarrow> n) in
     andthen (attempt (parse_test_target (env_config env) tgt port)) (\<lambda>tgt.
     andthen (with_handle i (handle_test_route (env_core env) (env_worker env) tgt net)) (\<lambda>r.
     output_json env r buffer capacity length_ptr)))))))"

definition meta_dns_leak_v1 ::
    "('c, 'k) env \<Rightarrow> nat \<Rightarrow> meta_handle \<Rightarrow> uint32 \<Rightarrow> nat \<Rightarrow> nat \<Rightarrow> nat \<Rightarrow> 'k ffi \<Rightarrow> int \<times> 'k ffi" where
  "meta_dns_leak_v1 env t i online buffer capacity length_ptr =
     boundary env t (
     andthen (handle_lookup i) (\<lambda>h.
     let audit = core_dns_leak_audit (env_core env) (core h) in
     andthen (if online \<noteq> 0
       then andthen (on_handle i (handle_dns_leak_test (env_core env) (env_worker env))) (\<lambda>test.
            ret [(''audit'', audit), (''test'', test)])
       else ret [(''audit'', audit)]) (\<lambda>flds.
     output_json env (JObject flds) buffer capacity length_ptr)))"

subsection \<open>Packets\<close>

definition handle_write_packet :: "packet \<Rightarrow> ('k handle, int) io" where
  "handle_write_packet packet =
     andthen (gets stopped) (\<lambda>cancelled.
     ensure (\<not> cancelled) ''core is stopped'' (
     andthen check_packet_queue (\<lambda>_.
     andthen (gets packet_input) (\<lambda>c.
     andthen (attempt (opt_context ''TUN is disabled'' c)) (\<lambda>c.
     case try_send PACKET_QUEUE packet c of
       (Inr _, c) \<Rightarrow> andthen (modify (\<lambda>h. h\<lparr>packet_input := Some c\<rparr>)) (\<lambda>_. ret META_OK)
     | (Inl Full, _) \<Rightarrow> ret META_WOULD_BLOCK
     | (Inl Closed, _) \<Rightarrow> bail ''packet channel closed'')))))"

definition meta_write_packet_v1 ::
    "('c, 'k) env \<Rightarrow> nat \<Rightarrow> meta_handle \<Rightarrow> nat \<Rightarrow> nat \<Rightarrow> 'k ffi \<Rightarrow> int \<times> 'k ffi" where
  "meta_write_packet_v1 env t i data len =
     boundary env t (
     ensure (20 \<le> len \<and> len \<le> 65535) ''invalid IP packet length'' (
     andthen (abi_input data len) (\<lambda>packet.
     ensure (drop_bit 4 (hd packet) = 4 \<or> drop_bit 4 (hd packet) = 6) ''invalid IP version'' (
     with_handle i (handle_write_packet packet)))))"

text \<open>The pending packet is taken only when the host's buffer had room for it.\<close>

definition deliver_packet :: "meta_handle \<Rightarrow> nat \<Rightarrow> nat \<Rightarrow> nat \<Rightarrow> ('k ffi, int) io" where
  "deliver_packet i buffer capacity length_ptr =
     andthen (on_handle i (gets (\<lambda>h. the (pending (packet_output h))))) (\<lambda>packet.
     andthen (abi_output packet buffer capacity length_ptr) (\<lambda>status.
     if status = META_OK
     then andthen (on_handle i (modify (\<lambda>h. h\<lparr>packet_output :=
            (packet_output h)\<lparr>pending := None\<rparr>\<rparr>))) (\<lambda>_. ret status)
     else ret status))"

definition meta_read_packet_v1 ::
    "('c, 'k) env \<Rightarrow> nat \<Rightarrow> meta_handle \<Rightarrow> nat \<Rightarrow> nat \<Rightarrow> nat \<Rightarrow> 'k ffi \<Rightarrow> int \<times> 'k ffi" where
  "meta_read_packet_v1 env t i buffer capacity length_ptr =
     boundary env t (
     ensure (length_ptr \<noteq> 0) ''output length is required'' (
     andthen (set_length length_ptr 0) (\<lambda>_.
     andthen (with_handle i check_packet_queue) (\<lambda>_.
     andthen (on_handle i (on_part packet_output (\<lambda>q h. h\<lparr>packet_output := q\<rparr>) packets_fill))
       (\<lambda>filled.
     if \<not> filled then ret META_WOULD_BLOCK
     else deliver_packet i buffer capacity length_ptr)))))"

end
