(* ===== verification/Ffi_Calls.thy ===== *)
theory Ffi_Calls
  imports Ffi_Abi
begin

text \<open>
  Calls of the C interface as a whole: \<open>invoke\<close> runs a call of the header with the function of
  \<^verbatim>\<open>crates/ffi/src/lib.rs\<close> that implements it, and \<open>footprint\<close> names the memory that its
  prototype lets it write. The locale \<open>abi_relation\<close> is the interface between the calls and
  what a host relies on: a relation that is kept by every kind of change the calls make is
  kept by every call. It is interpreted for the memory (a call writes only what its prototype
  lets it write), for threads (a call touches only the caller's error text) and for the
  registry (handles only move forward, and identifiers are never used again).
\<close>

subsection \<open>Calls\<close>

primrec invoke :: "('c, 'k) env \<Rightarrow> nat \<Rightarrow> meta_call \<Rightarrow> 'k ffi \<Rightarrow> int \<times> 'k ffi" where
  "invoke env t (Meta_decrypt_config d l p pl b c n) = meta_decrypt_config_v1 env t d l p pl b c n"
| "invoke env t (Meta_encrypt_config d l p pl b c n) = meta_encrypt_config_v1 env t d l p pl b c n"
| "invoke env t (Meta_custom_rule_validate d l) = meta_custom_rule_validate_v1 env t d l"
| "invoke env t (Meta_custom_rule_targets d l b c n) = meta_custom_rule_targets_v1 env t d l b c n"
| "invoke env t (Meta_custom_rules_apply d l r rl b c n) =
     meta_custom_rules_apply_v1 env t d l r rl b c n"
| "invoke env t (Meta_overrides_apply d l r rl b c n) = meta_overrides_apply_v1 env t d l r rl b c n"
| "invoke env t (Meta_yaml_check d l b c n) = meta_yaml_check_v1 env t d l b c n"
| "invoke env t (Meta_cos_target d l b c n) = meta_cos_target_v1 env t d l b c n"
| "invoke env t (Meta_cos_put r rl d l) = meta_cos_put_v1 env t r rl d l"
| "invoke env t (Meta_drain_logs b c n) = meta_drain_logs_v1 env t b c n"
| "invoke env t (Meta_prefetch_resources d l p pl) = meta_prefetch_resources_v1 env t d l p pl"
| "invoke env t (Meta_resources_state d l p pl st) = meta_resources_state_v1 env t d l p pl st"
| "invoke env t (Meta_create d l hooks out_ptr) = meta_create_v1 env t d l hooks out_ptr"
| "invoke env t (Meta_create_packet_tunnel d l p pl hooks out_ptr) =
     meta_create_packet_tunnel_v1 env t d l p pl hooks out_ptr"
| "invoke env t (Meta_start i) = meta_start_v1 env t i"
| "invoke env t (Meta_stop i) = meta_stop_v1 env t i"
| "invoke env t (Meta_destroy i) = meta_destroy_v1 env t i"
| "invoke env t (Meta_close_connections i) = meta_close_connections_v1 env t i"
| "invoke env t (Meta_network_changed i) = meta_network_changed_v1 env t i"
| "invoke env t (Meta_set_network i d l) = meta_set_network_v1 env t i d l"
| "invoke env t (Meta_set_tun_fd i fd) = meta_set_tun_fd_v1 env t i fd"
| "invoke env t (Meta_error b c n) = meta_error_v1 env t b c n"
| "invoke env t (Meta_snapshot i b c n) = meta_snapshot_v1 env t i b c n"
| "invoke env t (Meta_status i b c n) = meta_status_v1 env t i b c n"
| "invoke env t (Meta_update i d l) = meta_update_v1 env t i d l"
| "invoke env t (Meta_select i g gl m ml) = meta_select_v1 env t i g gl m ml"
| "invoke env t (Meta_close_connection i d l) = meta_close_connection_v1 env t i d l"
| "invoke env t (Meta_probe i d l timeout_ms delay_ptr) =
     meta_probe_v1 env t i d l timeout_ms delay_ptr"
| "invoke env t (Meta_test_route i d l b c n) = meta_test_route_v1 env t i d l b c n"
| "invoke env t (Meta_dns_leak i online b c n) = meta_dns_leak_v1 env t i online b c n"
| "invoke env t (Meta_write_packet i d l) = meta_write_packet_v1 env t i d l"
| "invoke env t (Meta_read_packet i b c n) = meta_read_packet_v1 env t i b c n"

text \<open>The handle that a call names.\<close>

primrec call_handle :: "meta_call \<Rightarrow> meta_handle option" where
  "call_handle (Meta_decrypt_config d l p pl b c n) = None"
| "call_handle (Meta_encrypt_config d l p pl b c n) = None"
| "call_handle (Meta_custom_rule_validate d l) = None"
| "call_handle (Meta_custom_rule_targets d l b c n) = None"
| "call_handle (Meta_custom_rules_apply d l r rl b c n) = None"
| "call_handle (Meta_overrides_apply d l r rl b c n) = None"
| "call_handle (Meta_yaml_check d l b c n) = None"
| "call_handle (Meta_cos_target d l b c n) = None"
| "call_handle (Meta_cos_put r rl d l) = None"
| "call_handle (Meta_drain_logs b c n) = None"
| "call_handle (Meta_prefetch_resources d l p pl) = None"
| "call_handle (Meta_resources_state d l p pl st) = None"
| "call_handle (Meta_create d l hooks out_ptr) = None"
| "call_handle (Meta_create_packet_tunnel d l p pl hooks out_ptr) = None"
| "call_handle (Meta_start i) = Some i"
| "call_handle (Meta_stop i) = Some i"
| "call_handle (Meta_destroy i) = Some i"
| "call_handle (Meta_close_connections i) = Some i"
| "call_handle (Meta_network_changed i) = Some i"
| "call_handle (Meta_set_network i d l) = Some i"
| "call_handle (Meta_set_tun_fd i fd) = Some i"
| "call_handle (Meta_error b c n) = None"
| "call_handle (Meta_snapshot i b c n) = Some i"
| "call_handle (Meta_status i b c n) = Some i"
| "call_handle (Meta_update i d l) = Some i"
| "call_handle (Meta_select i g gl m ml) = Some i"
| "call_handle (Meta_close_connection i d l) = Some i"
| "call_handle (Meta_probe i d l timeout_ms delay_ptr) = Some i"
| "call_handle (Meta_test_route i d l b c n) = Some i"
| "call_handle (Meta_dns_leak i online b c n) = Some i"
| "call_handle (Meta_write_packet i d l) = Some i"
| "call_handle (Meta_read_packet i b c n) = Some i"

subsection \<open>Footprints\<close>

text \<open>The output parameters of a prototype; an absent buffer has capacity zero.\<close>

record outputs =
  fp_buffer :: nat
  fp_capacity :: nat
  fp_lengths :: "nat set"
  fp_u32 :: "nat set"
  fp_u64 :: "nat set"

definition no_output :: outputs where
  "no_output = \<lparr>fp_buffer = 0, fp_capacity = 0, fp_lengths = {}, fp_u32 = {}, fp_u64 = {}\<rparr>"

definition buffer_output :: "nat \<Rightarrow> nat \<Rightarrow> nat \<Rightarrow> outputs" where
  "buffer_output b c n = no_output\<lparr>fp_buffer := b, fp_capacity := c, fp_lengths := {n}\<rparr>"

primrec footprint :: "meta_call \<Rightarrow> outputs" where
  "footprint (Meta_decrypt_config d l p pl b c n) = buffer_output b c n"
| "footprint (Meta_encrypt_config d l p pl b c n) = buffer_output b c n"
| "footprint (Meta_custom_rule_validate d l) = no_output"
| "footprint (Meta_custom_rule_targets d l b c n) = buffer_output b c n"
| "footprint (Meta_custom_rules_apply d l r rl b c n) = buffer_output b c n"
| "footprint (Meta_overrides_apply d l r rl b c n) = buffer_output b c n"
| "footprint (Meta_yaml_check d l b c n) = buffer_output b c n"
| "footprint (Meta_cos_target d l b c n) = buffer_output b c n"
| "footprint (Meta_cos_put r rl d l) = no_output"
| "footprint (Meta_drain_logs b c n) = buffer_output b c n"
| "footprint (Meta_prefetch_resources d l p pl) = no_output"
| "footprint (Meta_resources_state d l p pl st) = no_output\<lparr>fp_u32 := {st}\<rparr>"
| "footprint (Meta_create d l hooks out_ptr) = no_output\<lparr>fp_u64 := {out_ptr}\<rparr>"
| "footprint (Meta_create_packet_tunnel d l p pl hooks out_ptr) = no_output\<lparr>fp_u64 := {out_ptr}\<rparr>"
| "footprint (Meta_start i) = no_output"
| "footprint (Meta_stop i) = no_output"
| "footprint (Meta_destroy i) = no_output"
| "footprint (Meta_close_connections i) = no_output"
| "footprint (Meta_network_changed i) = no_output"
| "footprint (Meta_set_network i d l) = no_output"
| "footprint (Meta_set_tun_fd i fd) = no_output"
| "footprint (Meta_error b c n) = buffer_output b c n"
| "footprint (Meta_snapshot i b c n) = buffer_output b c n"
| "footprint (Meta_status i b c n) = buffer_output b c n"
| "footprint (Meta_update i d l) = no_output"
| "footprint (Meta_select i g gl m ml) = no_output"
| "footprint (Meta_close_connection i d l) = no_output"
| "footprint (Meta_probe i d l timeout_ms delay_ptr) = no_output\<lparr>fp_u32 := {delay_ptr}\<rparr>"
| "footprint (Meta_test_route i d l b c n) = buffer_output b c n"
| "footprint (Meta_dns_leak i online b c n) = buffer_output b c n"
| "footprint (Meta_write_packet i d l) = no_output"
| "footprint (Meta_read_packet i b c n) = buffer_output b c n"

definition mem_within :: "outputs \<Rightarrow> host_mem \<Rightarrow> host_mem \<Rightarrow> bool" where
  "mem_within w m m' \<longleftrightarrow>
     (\<forall>a. u8_at m' a \<noteq> u8_at m a \<longrightarrow> fp_buffer w \<le> a \<and> a < fp_buffer w + fp_capacity w) \<and>
     (\<forall>a. usize_at m' a \<noteq> usize_at m a \<longrightarrow> a \<in> fp_lengths w) \<and>
     (\<forall>a. u32_at m' a \<noteq> u32_at m a \<longrightarrow> a \<in> fp_u32 w) \<and>
     (\<forall>a. u64_at m' a \<noteq> u64_at m a \<longrightarrow> a \<in> fp_u64 w) \<and>
     hooks_at m' = hooks_at m"

lemma mem_within_refl [simp]: "mem_within w m m"
  by (simp add: mem_within_def)

lemma mem_within_trans: "mem_within w a b \<Longrightarrow> mem_within w b c \<Longrightarrow> mem_within w a c"
  unfolding mem_within_def by metis

lemma mem_within_stores:
  "n \<in> fp_lengths w \<Longrightarrow> mem_within w m (store_usize n v m)"
  "p \<in> fp_u32 w \<Longrightarrow> mem_within w m (store_u32 p v32 m)"
  "p \<in> fp_u64 w \<Longrightarrow> mem_within w m (store_u64 p v64 m)"
  "length bs \<le> fp_capacity w \<Longrightarrow> mem_within w m (store_bytes (fp_buffer w) bs m)"
  by (auto simp: mem_within_def store_usize_def store_u32_def store_u64_def store_bytes_def)

subsection \<open>Operations on one handle\<close>

lemma on_core_le: "keeps handle_le (on_core f)"
  by (rule keepsI) (simp add: on_core_def on_part_def split_beta Let_def)

lemma write_packet_le: "keeps handle_le (handle_write_packet p)"
proof (rule keepsI)
  fix h
  show "handle_le h (snd (handle_write_packet p h))"
  proof (cases "packet_input h")
    case (Some c)
    have "handle_le h (h\<lparr>packet_input := Some (c\<lparr>items := items c @ [p]\<rparr>)\<rparr>)"
      if "length (items c) < PACKET_QUEUE"
      using Some that by (simp add: handle_le_def handle_inv_def spent_def)
    with Some show ?thesis
      by (simp add: handle_write_packet_def andthen_def gets_def ensure_def check_packet_queue_def
          attempt_def opt_context_def try_send_def modify_def ret_def bail_def)
  qed (simp add: handle_write_packet_def andthen_def gets_def ensure_def check_packet_queue_def
      attempt_def opt_context_def ret_def bail_def)
qed

lemma write_packet_status:
  "fst (handle_write_packet p h) = Done x \<Longrightarrow> x = META_OK \<or> x = META_WOULD_BLOCK"
  by (cases "handle_write_packet p h")
    (auto simp: handle_write_packet_def done_iffs try_send_def split: if_splits)

lemma with_handle_Done: "fst (with_handle i m s) = Done x \<Longrightarrow> \<exists>h. fst (m h) = Done x"
  by (auto simp: with_handle_def andthen_def on_handle_def on_part_def Let_def
      split: prod.splits outcome.splits) (metis fst_conv)

lemma probe_le: "keeps handle_le (handle_probe api env name timeout_ms)"
  unfolding handle_probe_def by (rule handle_query_le)

lemma read_steps_le:
  "keeps handle_le (on_part packet_output (\<lambda>q h. h\<lparr>packet_output := q\<rparr>) packets_fill)"
  "keeps handle_le (gets g)"
  "keeps handle_le (modify (\<lambda>h. h\<lparr>packet_output := (packet_output h)\<lparr>pending := None\<rparr>\<rparr>))"
  by (auto intro!: handle_fill_le keeps_pure(5) handle_le_order keeps_modify handle_take_pending_le)

subsection \<open>Relations that every call keeps\<close>

text \<open>
  A call is the boundary around an operation that moves along \<open>R\<close> and, unless it fails or
  panics, returns one of the three other status codes.
\<close>

definition sound :: "('s \<Rightarrow> 's \<Rightarrow> bool) \<Rightarrow> ('s, int) io \<Rightarrow> bool" where
  "sound R m \<longleftrightarrow>
     keeps R m \<and>
     (\<forall>s x. fst (m s) = Done x \<longrightarrow> x \<in> {META_OK, META_WOULD_BLOCK, META_BUFFER_TOO_SMALL})"

definition sound_call ::
    "('k ffi \<Rightarrow> 'k ffi \<Rightarrow> bool) \<Rightarrow> ('c, 'k) env \<Rightarrow> nat \<Rightarrow> ('k ffi \<Rightarrow> int \<times> 'k ffi) \<Rightarrow> bool" where
  "sound_call R env t f \<longleftrightarrow> (\<exists>m. sound R m \<and> f = boundary env t m)"

lemma sound_callI: "sound R m \<Longrightarrow> sound_call R env t (boundary env t m)"
  by (auto simp: sound_call_def)

lemma sound_andthen:
  assumes "progress_order R" "keeps R m" "\<And>x. sound R (f x)"
  shows "sound R (andthen m f)"
proof -
  have "keeps R (andthen m f)" using assms by (auto simp: sound_def intro!: keeps_andthen)
  moreover have "fst (andthen m f s) = Done x \<Longrightarrow>
      x \<in> {META_OK, META_WOULD_BLOCK, META_BUFFER_TOO_SMALL}" for s x
    using assms(3) by (cases "m s"; cases "fst (m s)") (auto simp: andthen_def sound_def)
  ultimately show ?thesis by (simp add: sound_def)
qed

lemma sound_bind:
  assumes "progress_order R" "sound R m"
    "\<And>x. x \<in> {META_OK, META_WOULD_BLOCK, META_BUFFER_TOO_SMALL} \<Longrightarrow> sound R (f x)"
  shows "sound R (andthen m f)"
proof -
  let ?f = "\<lambda>x. if x \<in> {META_OK, META_WOULD_BLOCK, META_BUFFER_TOO_SMALL} then f x else bail []"
  have "andthen m f s = andthen m ?f s" for s
  proof (cases "m s")
    case (Pair r s')
    then have "r = Done x \<Longrightarrow> x \<in> {META_OK, META_WOULD_BLOCK, META_BUFFER_TOO_SMALL}" for x
      using assms(2) by (metis fst_conv sound_def)
    with Pair show ?thesis by (cases r) (auto simp: andthen_def)
  qed
  then have "andthen m f = andthen m ?f" by (rule ext)
  moreover have "sound R (andthen m ?f)"
    using assms by (intro sound_andthen) (auto simp: sound_def io_simps intro: keeps_pure)
  ultimately show ?thesis by simp
qed

lemma sound_ensure: "progress_order R \<Longrightarrow> sound R m \<Longrightarrow> sound R (ensure c e m)"
  by (auto simp: sound_def ensure_def io_simps intro: keeps_pure)

lemma sound_bail: "progress_order R \<Longrightarrow> sound R (bail e)"
  by (auto simp: sound_def io_simps intro: keeps_pure)

lemma sound_ret:
  assumes "progress_order R" "x \<in> {META_OK, META_WOULD_BLOCK, META_BUFFER_TOO_SMALL}"
  shows "sound R (ret x)"
  using assms keeps_pure(1) by (auto simp: sound_def ret_def)

lemma sound_if: "(c \<Longrightarrow> sound R m) \<Longrightarrow> (\<not> c \<Longrightarrow> sound R m') \<Longrightarrow> sound R (if c then m else m')"
  by simp

lemma sound_prod: "(\<And>x y. sound R (f x y)) \<Longrightarrow> sound R (case p of (x, y) \<Rightarrow> f x y)"
  by (simp split: prod.splits)

lemma sound_Let: "(\<And>x. sound R (f x)) \<Longrightarrow> sound R (Let v f)"
  by (simp add: Let_def)

locale abi_relation =
  fixes R :: "'k ffi \<Rightarrow> 'k ffi \<Rightarrow> bool"
    and w :: outputs
  assumes order: "progress_order R"
    and mem_ok: "mem_within w (mem s) m \<Longrightarrow> R s (s\<lparr>mem := m\<rparr>)"
    and logs_ok: "R s (s\<lparr>logs := l\<rparr>)"
    and poison_ok: "R s (s\<lparr>poisoned := True\<rparr>)"
    and handle_ok: "map_of (handles s) i = Some h \<Longrightarrow> handle_le h h' \<Longrightarrow>
      R s (s\<lparr>handles := AList.update i h' (handles s)\<rparr>)"
    and destroy_ok: "R s (s\<lparr>handles := AList.delete i (handles s)\<rparr>)"
    and take_ok: "next_id s \<noteq> - 1 \<Longrightarrow> R s (s\<lparr>next_id := next_id s + 1\<rparr>)"
    and create_ok: "next_id s \<noteq> - 1 \<Longrightarrow> length (handles s) < MAX_HANDLES \<Longrightarrow> handle_inv h \<Longrightarrow>
      R s (s\<lparr>next_id := next_id s + 1, handles := AList.update (next_id s) h (handles s)\<rparr>)"
begin

lemma R_trans: "R a b \<Longrightarrow> R b c \<Longrightarrow> R a c"
  using order by (auto simp: progress_order_def dest: transpD)

lemma R_refl: "R s s"
  using order by (auto simp: progress_order_def dest: reflpD)

lemmas pure_rules =
  keeps_pure [OF order] keeps_andthen [OF order] keeps_ensure [OF order]
  keeps_if keeps_option keeps_prod keeps_Let check_lifecycle_keeps [OF order]

lemma on_mem_keeps:
  assumes "\<And>m. mem_within w m (snd (f m))"
  shows "keeps R (on_mem f)"
  using assms mem_ok by (auto intro!: keepsI simp: on_mem_def on_part_def split_beta Let_def)

lemma store_keeps:
  "n \<in> fp_lengths w \<Longrightarrow> keeps R (set_length n v)"
  "p \<in> fp_u32 w \<Longrightarrow> keeps R (on_mem (modify (store_u32 p v32)))"
  "p \<in> fp_u64 w \<Longrightarrow> keeps R (on_mem (modify (store_u64 p v64)))"
  by (auto simp: set_length_def modify_def intro!: on_mem_keeps mem_within_stores)

lemmas sound_rules =
  sound_andthen [OF order] sound_ensure [OF order] sound_bail [OF order] sound_ret [OF order]
  sound_if sound_prod sound_Let

lemma output_sound:
  assumes "buffer_output b c n = w"
  shows "sound R (abi_output bs b c n)"
proof -
  have fp: "fp_buffer w = b" "fp_capacity w = c" "n \<in> fp_lengths w"
    using assms by (auto simp: buffer_output_def)
  have "keeps R (on_mem (modify (store_bytes b bs)))" if "length bs \<le> c"
    using fp that mem_within_stores(4) [of bs w]
    by (auto intro!: on_mem_keeps simp: modify_def)
  with fp show ?thesis
    unfolding abi_output_def by (auto intro!: pure_rules sound_rules store_keeps)
qed

lemma output_keeps: "buffer_output b c n = w \<Longrightarrow> keeps R (abi_output bs b c n)"
  using output_sound by (simp add: sound_def)

lemma output_json_sound: "buffer_output b c n = w \<Longrightarrow> sound R (output_json env v b c n)"
  unfolding output_json_def by (intro pure_rules sound_rules output_sound)

lemma logs_keeps: "keeps R (modify (\<lambda>s. s\<lparr>logs := f s\<rparr>))"
  by (auto intro!: keeps_modify logs_ok)

lemma lock_keeps: "keeps R lock_handles"
  unfolding lock_handles_def by (auto intro!: pure_rules)

lemma lookup_keeps: "keeps R (handle_lookup i)"
  unfolding handle_lookup_def by (auto intro!: pure_rules lock_keeps)

lemma on_handle_keeps:
  assumes "keeps handle_le m"
  shows "keeps R (on_handle i m)"
proof (rule keepsI)
  fix s
  show "R s (snd (on_handle i m s))"
  proof (cases "map_of (handles s) i")
    case None
    then show ?thesis by (simp add: on_handle_def on_part_def split_beta Let_def R_refl)
  next
    case (Some h)
    then have "R s (s\<lparr>handles := AList.update i (snd (m h)) (handles s)\<rparr>)"
      using keepsD [OF assms] by (rule handle_ok)
    with Some show ?thesis by (simp add: on_handle_def on_part_def split_beta Let_def)
  qed
qed

lemma with_handle_keeps: "keeps handle_le m \<Longrightarrow> keeps R (with_handle i m)"
  unfolding with_handle_def by (auto intro!: pure_rules lookup_keeps on_handle_keeps)

lemma input_keeps:
  "keeps R (input_with_limit d l n)" "keeps R (abi_input d l)" "keeps R (input_str d l)"
  unfolding input_with_limit_def abi_input_def input_str_def by (auto intro!: pure_rules)

lemma caller_keeps: "keeps R (caller_in_callback t)"
  unfolding caller_in_callback_def by (auto intro!: pure_rules)

lemma create_registered_keeps:
  assumes "out_ptr \<in> fp_u64 w"
  shows "keeps R (create_registered env out_ptr config hooks)"
proof (rule keepsI)
  fix s :: "'k ffi"
  let ?s = "s\<lparr>next_id := next_id s + 1\<rparr>"
  let ?h = "Handle_new (env_target env) (env_core env) config hooks"
  have store: "R a (a\<lparr>mem := store_u64 out_ptr v (mem a)\<rparr>)" for a v
    by (intro mem_ok mem_within_stores assms)
  show "R s (snd (create_registered env out_ptr config hooks s))"
  proof (cases "poisoned s \<or> \<not> length (handles s) < MAX_HANDLES \<or> next_id s = - 1")
    case True
    then show ?thesis
      by (auto simp: create_registered_def lock_handles_def take_id_def andthen_def gets_def
          panic_def ret_def ensure_def bail_def R_refl)
  next
    case False
    then have take: "R s ?s" by (intro take_ok) simp
    show ?thesis
    proof (cases ?h)
      case (Done h)
      let ?t = "s\<lparr>next_id := next_id s + 1, handles := AList.update (next_id s) h (handles s)\<rparr>"
      have "R s ?t" using False by (intro create_ok Handle_new_inv [OF Done]) auto
      then have "R s (?t\<lparr>mem := store_u64 out_ptr (next_id s) (mem ?t)\<rparr>)"
        using store R_trans by blast
      with False Done show ?thesis
        by (simp add: create_registered_def lock_handles_def take_id_def register_def andthen_def
            gets_def ret_def ensure_def on_mem_def on_part_def modify_def)
    next
      case (Fail e)
      with False take show ?thesis
        by (simp add: create_registered_def lock_handles_def take_id_def register_def andthen_def
            gets_def ret_def ensure_def)
    next
      case (Panicked e)
      with False R_trans [OF take poison_ok] show ?thesis
        by (simp add: create_registered_def lock_handles_def take_id_def register_def andthen_def
            gets_def ret_def ensure_def)
    qed
  qed
qed

lemma create_registered_sound:
  assumes "out_ptr \<in> fp_u64 w"
  shows "sound R (create_registered env out_ptr config hooks)"
proof -
  have "x = META_OK" if "fst (create_registered env out_ptr config hooks s) = Done x" for s x
    using that
    by (cases "create_registered env out_ptr config hooks s")
      (auto simp: create_registered_def done_iffs)
  with create_registered_keeps [OF assms] show ?thesis by (auto simp: sound_def)
qed

lemma write_packet_sound: "sound R (with_handle i (handle_write_packet p))"
proof -
  have "x = META_OK \<or> x = META_WOULD_BLOCK"
    if "fst (with_handle i (handle_write_packet p) s) = Done x" for s x
    using with_handle_Done [OF that] write_packet_status by blast
  then show ?thesis
    using with_handle_keeps [OF write_packet_le] by (simp add: sound_def) blast
qed

lemmas call_rules =
  sound_rules pure_rules output_sound output_json_sound output_keeps store_keeps input_keeps
  caller_keeps lock_keeps lookup_keeps on_handle_keeps with_handle_keeps logs_keeps
  write_packet_sound
  write_packet_le read_steps_le on_core_le handle_ops_le probe_le

lemma buffer_calls_sound:
  assumes "w = buffer_output b c n"
  shows "sound_call R env t (meta_decrypt_config_v1 env t d l p pl b c n)"
    "sound_call R env t (meta_encrypt_config_v1 env t d l p pl b c n)"
    "sound_call R env t (meta_custom_rule_targets_v1 env t d l b c n)"
    "sound_call R env t (meta_custom_rules_apply_v1 env t d l p pl b c n)"
    "sound_call R env t (meta_overrides_apply_v1 env t d l p pl b c n)"
    "sound_call R env t (meta_yaml_check_v1 env t d l b c n)"
    "sound_call R env t (meta_cos_target_v1 env t d l b c n)"
    "sound_call R env t (meta_error_v1 env t b c n)"
    "sound_call R env t (meta_snapshot_v1 env t i b c n)"
    "sound_call R env t (meta_status_v1 env t i b c n)"
    "sound_call R env t (meta_test_route_v1 env t i d l b c n)"
    "sound_call R env t (meta_dns_leak_v1 env t i online b c n)"
  using assms
  unfolding meta_decrypt_config_v1_def meta_encrypt_config_v1_def meta_custom_rule_targets_v1_def
    meta_custom_rules_apply_v1_def meta_overrides_apply_v1_def meta_yaml_check_v1_def
    meta_cos_target_v1_def meta_error_v1_def meta_snapshot_v1_def meta_status_v1_def
    meta_test_route_v1_def meta_dns_leak_v1_def handle_test_route_def handle_dns_leak_test_def
  by (intro sound_callI call_rules; simp add: buffer_output_def)+

lemma drain_logs_sound:
  assumes "w = buffer_output b c n"
  shows "sound_call R env t (meta_drain_logs_v1 env t b c n)"
proof -
  have "sound R (andthen (abi_output bs b c n) (\<lambda>status.
      if status = META_OK
      then andthen (modify (\<lambda>s. s\<lparr>logs := (logs s)\<lparr>log_buffer := []\<rparr>\<rparr>)) (\<lambda>_. ret status)
      else ret status))" for bs
    using assms by (intro sound_bind [OF order] output_sound sound_rules logs_keeps; simp)
  then show ?thesis
    unfolding meta_drain_logs_v1_def drain_def
    by (rule sound_callI [OF sound_andthen [OF order keeps_pure(5) [OF order]]])
qed

lemma deliver_sound:
  assumes "buffer_output b c n = w"
  shows "sound R (deliver_packet i b c n)"
proof -
  have "sound R (andthen (abi_output packet b c n) (\<lambda>status.
      if status = META_OK
      then andthen (on_handle i (modify (\<lambda>h. h\<lparr>packet_output :=
             (packet_output h)\<lparr>pending := None\<rparr>\<rparr>))) (\<lambda>_. ret status)
      else ret status))" for packet
    using assms
    by (intro sound_bind [OF order] output_sound sound_rules on_handle_keeps read_steps_le; simp)
  then show ?thesis
    unfolding deliver_packet_def
    by (rule sound_andthen [OF order on_handle_keeps [OF read_steps_le(2)]])
qed

lemma read_packet_sound:
  assumes "w = buffer_output b c n"
  shows "sound_call R env t (meta_read_packet_v1 env t i b c n)"
  using assms
  unfolding meta_read_packet_v1_def
  by (intro sound_callI call_rules deliver_sound; simp add: buffer_output_def)

lemma plain_calls_sound:
  "sound_call R env t (meta_custom_rule_validate_v1 env t d l)"
  "sound_call R env t (meta_cos_put_v1 env t d l p pl)"
  "sound_call R env t (meta_prefetch_resources_v1 env t d l p pl)"
  "sound_call R env t (meta_start_v1 env t i)"
  "sound_call R env t (meta_stop_v1 env t i)"
  "sound_call R env t (meta_close_connections_v1 env t i)"
  "sound_call R env t (meta_network_changed_v1 env t i)"
  "sound_call R env t (meta_set_network_v1 env t i d l)"
  "sound_call R env t (meta_set_tun_fd_v1 env t i fd)"
  "sound_call R env t (meta_update_v1 env t i d l)"
  "sound_call R env t (meta_select_v1 env t i d l p pl)"
  "sound_call R env t (meta_close_connection_v1 env t i d l)"
  "sound_call R env t (meta_write_packet_v1 env t i d l)"
  unfolding meta_custom_rule_validate_v1_def meta_cos_put_v1_def meta_prefetch_resources_v1_def
    meta_start_v1_def meta_stop_v1_def meta_close_connections_v1_def meta_network_changed_v1_def
    meta_set_network_v1_def meta_set_tun_fd_v1_def meta_update_v1_def meta_select_v1_def
    meta_close_connection_v1_def meta_write_packet_v1_def
  by (intro sound_callI call_rules; simp)+

lemma destroy_sound: "sound_call R env t (meta_destroy_v1 env t i)"
  unfolding meta_destroy_v1_def
  by (intro sound_callI call_rules keeps_modify destroy_ok; simp)

lemma u32_calls_sound:
  assumes "w = no_output\<lparr>fp_u32 := {st}\<rparr>"
  shows "sound_call R env t (meta_resources_state_v1 env t d l p pl st)"
    "sound_call R env t (meta_probe_v1 env t i d l timeout_ms st)"
  using assms unfolding meta_resources_state_v1_def meta_probe_v1_def
  by (intro sound_callI call_rules; simp)+

lemma create_sound:
  assumes "w = no_output\<lparr>fp_u64 := {out_ptr}\<rparr>"
  shows "sound_call R env t (abi_create env t d l hooks out_ptr directory)"
  using assms unfolding abi_create_def host_directory_def host_hooks_input_def
  by (intro sound_callI call_rules create_registered_sound; simp)

lemma invoke_sound:
  assumes "footprint call = w"
  shows "sound_call R env t (invoke env t call)"
  using assms
  by (cases call)
    (auto simp: meta_create_v1_def meta_create_packet_tunnel_v1_def
      intro: buffer_calls_sound drain_logs_sound read_packet_sound plain_calls_sound u32_calls_sound
        create_sound destroy_sound)

end

subsection \<open>Memory\<close>

interpretation abi_mem: abi_relation "\<lambda>s s'. mem_within w (mem s) (mem s')" w
  for w
proof
  show "progress_order (\<lambda>s s' :: 'a ffi. mem_within w (mem s) (mem s'))"
    by (auto simp: progress_order_def reflp_def transp_def intro: mem_within_trans)
qed simp_all

subsection \<open>Threads\<close>

text \<open>The operations leave the thread-local state alone; only the boundary records errors.\<close>

definition same_threads :: "'k ffi \<Rightarrow> 'k ffi \<Rightarrow> bool" where
  "same_threads s s' \<longleftrightarrow> in_callback s' = in_callback s \<and> error_text s' = error_text s"

interpretation abi_thread: abi_relation same_threads w
  for w
proof
  show "progress_order (same_threads :: 'a ffi \<Rightarrow> 'a ffi \<Rightarrow> bool)"
    by (auto simp: progress_order_def reflp_def transp_def same_threads_def)
qed (simp_all add: same_threads_def)

subsection \<open>The registry\<close>

definition reg_inv :: "'k ffi \<Rightarrow> bool" where
  "reg_inv s \<longleftrightarrow>
     distinct (map fst (handles s)) \<and>
     (\<forall>(i, h) \<in> set (handles s). i \<noteq> 0 \<and> i < next_id s \<and> handle_inv h) \<and>
     length (handles s) \<le> MAX_HANDLES \<and>
     next_id s \<noteq> 0"

definition reg_step :: "'k ffi \<Rightarrow> 'k ffi \<Rightarrow> bool" where
  "reg_step s s' \<longleftrightarrow>
     (reg_inv s \<longrightarrow>
        reg_inv s' \<and> next_id s \<le> next_id s' \<and>
        (\<forall>i<next_id s. map_of (handles s) i = None \<longrightarrow> map_of (handles s') i = None) \<and>
        (\<forall>i h h'. map_of (handles s) i = Some h \<longrightarrow> map_of (handles s') i = Some h' \<longrightarrow>
           handle_le h h'))"

lemma reg_inv_key: "reg_inv s \<Longrightarrow> map_of (handles s) i = Some h \<Longrightarrow> i \<noteq> 0 \<and> i < next_id s \<and> handle_inv h"
  by (auto simp: reg_inv_def dest!: map_of_SomeD)

lemma reg_step_refl: "reg_step s s"
  by (auto simp: reg_step_def)

lemma reg_stepD:
  assumes "reg_step s s'" "reg_inv s"
  shows "reg_inv s'" "next_id s \<le> next_id s'"
    "i < next_id s \<Longrightarrow> map_of (handles s) i = None \<Longrightarrow> map_of (handles s') i = None"
    "map_of (handles s) i = Some h \<Longrightarrow> map_of (handles s') i = Some h' \<Longrightarrow> handle_le h h'"
  using assms by (auto simp: reg_step_def)

lemma reg_step_trans:
  assumes ab: "reg_step a b" and bc: "reg_step b c"
  shows "reg_step a c"
  unfolding reg_step_def
proof (intro impI conjI allI)
  assume a: "reg_inv a"
  note b = reg_stepD [OF ab a]
  note c = reg_stepD [OF bc b(1)]
  show "reg_inv c" by (rule c(1))
  show "next_id a \<le> next_id c" using b(2) c(2) by simp
  show "map_of (handles c) i = None" if "i < next_id a" "map_of (handles a) i = None" for i
    using that b(2) by (intro c(3) b(3)) auto
  show "handle_le h h'"
    if h: "map_of (handles a) i = Some h" "map_of (handles c) i = Some h'" for i h h'
  proof -
    have "i < next_id b" using reg_inv_key [OF a h(1)] b(2) by auto
    then obtain k where k: "map_of (handles b) i = Some k" using c(3) h(2) by fastforce
    show ?thesis using b(4) [OF h(1) k] c(4) [OF k h(2)] by (rule handle_le_trans)
  qed
qed

lemma update_existing:
  "map_of xs k = Some v \<Longrightarrow> map fst (AList.update k u xs) = map fst xs"
  by (induction xs) auto

lemma update_fresh: "map_of xs k = None \<Longrightarrow> AList.update k u xs = xs @ [(k, u)]"
  by (induction xs) auto

lemma set_update: "x \<in> set (AList.update k u xs) \<Longrightarrow> x = (k, u) \<or> x \<in> set xs"
  by (induction xs) (auto split: if_splits)

lemma set_delete: "x \<in> set (AList.delete k xs) \<Longrightarrow> x \<in> set xs"
  by (auto simp: AList.delete_eq)

lemma length_delete: "length (AList.delete k xs) \<le> length xs"
  by (auto simp: AList.delete_eq)

lemma word_less_Suc: "w \<noteq> - 1 \<Longrightarrow> w < w + (1 :: 'a::len word)"
  using unatSuc [of w] by (simp add: word_less_nat_alt add.commute eq_neg_iff_add_eq_0)

lemma reg_step_update:
  assumes h: "map_of (handles s) i = Some h" and le: "handle_le h h'"
  shows "reg_step s (s\<lparr>handles := AList.update i h' (handles s)\<rparr>)"
  unfolding reg_step_def
proof (intro impI conjI allI)
  assume inv: "reg_inv s"
  let ?s = "s\<lparr>handles := AList.update i h' (handles s)\<rparr>"
  have i: "i \<noteq> 0 \<and> i < next_id s \<and> handle_inv h" by (rule reg_inv_key [OF inv h])
  then have "handle_inv h'" using le by (simp add: handle_le_def)
  then have "\<forall>(j, k) \<in> set (handles ?s). j \<noteq> 0 \<and> j < next_id ?s \<and> handle_inv k"
    using inv i by (auto simp: reg_inv_def dest!: set_update)
  moreover have keys: "map fst (handles ?s) = map fst (handles s)"
    using update_existing [OF h] by simp
  moreover have "length (handles ?s) = length (handles s)" using keys by (metis length_map)
  ultimately show "reg_inv ?s" using inv by (simp add: reg_inv_def)
  show "map_of (handles ?s) j = None" if "map_of (handles s) j = None" for j
    using that h by (auto simp: update_conv')
  show "handle_le k k'" if "map_of (handles s) j = Some k" "map_of (handles ?s) j = Some k'" for j k k'
    using that h le by (auto simp: update_conv' split: if_splits)
qed simp

lemma reg_step_delete: "reg_step s (s\<lparr>handles := AList.delete i (handles s)\<rparr>)"
  unfolding reg_step_def
proof (intro impI conjI allI)
  assume inv: "reg_inv s"
  let ?s = "s\<lparr>handles := AList.delete i (handles s)\<rparr>"
  have "\<forall>(j, k) \<in> set (handles ?s). j \<noteq> 0 \<and> j < next_id ?s \<and> handle_inv k"
    using inv by (auto simp: reg_inv_def dest!: set_delete)
  moreover have "length (handles ?s) \<le> length (handles s)" by (simp add: length_delete)
  moreover have "distinct (map fst (handles ?s))"
    using inv by (simp add: reg_inv_def AList.distinct_delete)
  ultimately show "reg_inv ?s" using inv by (simp add: reg_inv_def)
  show "map_of (handles ?s) j = None" if "map_of (handles s) j = None" for j
    using that by (auto simp: AList.delete_conv')
  show "handle_le k k'" if "map_of (handles s) j = Some k" "map_of (handles ?s) j = Some k'" for j k k'
    using that by (auto simp: AList.delete_conv' split: if_splits)
qed simp

lemma reg_step_create:
  assumes n: "next_id s \<noteq> - 1" "length (handles s) < MAX_HANDLES" and h: "handle_inv h"
  shows "reg_step s (s\<lparr>next_id := next_id s + 1, handles := AList.update (next_id s) h (handles s)\<rparr>)"
  unfolding reg_step_def
proof (intro impI conjI allI)
  assume inv: "reg_inv s"
  let ?s = "s\<lparr>next_id := next_id s + 1, handles := AList.update (next_id s) h (handles s)\<rparr>"
  have less: "next_id s < next_id s + 1" using n(1) by (rule word_less_Suc)
  have fresh: "map_of (handles s) (next_id s) = None"
    using reg_inv_key [OF inv, of "next_id s"] by (cases "map_of (handles s) (next_id s)") auto
  then have eq: "handles ?s = handles s @ [(next_id s, h)]" by (simp add: update_fresh)
  have "next_id s \<notin> fst ` set (handles s)" using fresh by (simp add: map_of_eq_None_iff)
  moreover have "j < next_id s + 1" if "j < next_id s" for j using that less by (rule less_trans)
  moreover have "next_id s + 1 \<noteq> 0" using less by auto
  ultimately show "reg_inv ?s"
    using inv n h less by (fastforce simp: reg_inv_def eq)
  show "next_id s \<le> next_id ?s" using less by simp
  show "map_of (handles ?s) j = None" if "j < next_id s" "map_of (handles s) j = None" for j
    using that by (auto simp: eq map_add_def)
  show "handle_le k k'" if "map_of (handles s) j = Some k" "map_of (handles ?s) j = Some k'" for j k k'
    using that fresh by (auto simp: eq map_add_def split: if_splits option.splits)
qed

interpretation abi_registry: abi_relation reg_step w
  for w
proof
  show "progress_order (reg_step :: 'a ffi \<Rightarrow> 'a ffi \<Rightarrow> bool)"
    using reg_step_trans reg_step_refl by (auto simp: progress_order_def reflp_def transp_def)
  show "reg_step s (s\<lparr>next_id := next_id s + 1\<rparr>)" if "next_id s \<noteq> - 1" for s :: "'a ffi"
  proof -
    have "next_id s < next_id s + 1" using that by (rule word_less_Suc)
    then show ?thesis by (auto simp: reg_step_def reg_inv_def)
  qed
qed (auto simp: reg_step_update reg_step_delete reg_step_create, auto simp: reg_step_def reg_inv_def)

subsection \<open>Every call\<close>

lemma abi_relation_conj:
  assumes "abi_relation R w" "abi_relation R' w"
  shows "abi_relation (\<lambda>s s'. R s s' \<and> R' s s') w"
proof
  show "progress_order (\<lambda>s s'. R s s' \<and> R' s s')"
    using abi_relation.order [OF assms(1)] abi_relation.order [OF assms(2)]
    unfolding progress_order_def reflp_def transp_def by blast
qed (use abi_relation.mem_ok [OF assms(1)] abi_relation.mem_ok [OF assms(2)]
    abi_relation.logs_ok [OF assms(1)] abi_relation.logs_ok [OF assms(2)]
    abi_relation.poison_ok [OF assms(1)] abi_relation.poison_ok [OF assms(2)]
    abi_relation.handle_ok [OF assms(1)] abi_relation.handle_ok [OF assms(2)]
    abi_relation.destroy_ok [OF assms(1)] abi_relation.destroy_ok [OF assms(2)]
    abi_relation.take_ok [OF assms(1)] abi_relation.take_ok [OF assms(2)]
    abi_relation.create_ok [OF assms(1)] abi_relation.create_ok [OF assms(2)] in auto)

interpretation abi_all:
  abi_relation "\<lambda>s s'. mem_within w (mem s) (mem s') \<and> same_threads s s' \<and> reg_step s s'" w
  for w
  by (intro abi_relation_conj abi_mem.abi_relation_axioms abi_thread.abi_relation_axioms
      abi_registry.abi_relation_axioms)

text \<open>
  Every call is the boundary around an operation that writes only the call's outputs, leaves
  the threads alone and moves the registry forward.
\<close>

lemma invoke_boundary:
  obtains m where "invoke env t call = boundary env t m"
    "\<And>s. mem_within (footprint call) (mem s) (mem (snd (m s)))"
    "\<And>s. same_threads s (snd (m s))" "\<And>s. reg_step s (snd (m s))"
    "\<And>s x. fst (m s) = Done x \<Longrightarrow> x \<in> {META_OK, META_WOULD_BLOCK, META_BUFFER_TOO_SMALL}"
  using abi_all.invoke_sound [OF refl, of call env t]
  unfolding sound_call_def sound_def keeps_def by metis

lemma boundary_simps [simp]:
  "mem (snd (boundary env t m s)) = mem (snd (m s))"
  "handles (snd (boundary env t m s)) = handles (snd (m s))"
  "next_id (snd (boundary env t m s)) = next_id (snd (m s))"
  "poisoned (snd (boundary env t m s)) = poisoned (snd (m s))"
  "in_callback (snd (boundary env t m s)) = in_callback (snd (m s))"
  by (auto simp: boundary_def split: prod.splits outcome.splits)

lemma reg_step_frame:
  "handles s' = handles u \<Longrightarrow> next_id s' = next_id u \<Longrightarrow> reg_step s s' = reg_step s u"
  by (simp add: reg_step_def reg_inv_def)

lemma invoke_reg_step: "reg_step s (snd (invoke env t call s))"
proof -
  obtain m where "invoke env t call = boundary env t m" "\<And>s. reg_step s (snd (m s))"
    by (rule invoke_boundary [of env t call]) blast
  then show ?thesis using reg_step_frame [of "snd (boundary env t m s)" "snd (m s)" s] by simp
qed

end
