(* ===== verification/Ffi_Ops.thy ===== *)
theory Ffi_Ops
  imports Ffi_Calls
begin

text \<open>
  When the operations behind the C interface return a value, and which one: equations for
  their successful outcomes, from which the contracts of the calls are derived, and the
  outcome of a whole call from that of its operation.
\<close>

subsection \<open>How the operations succeed\<close>

lemma input_with_limit_Done_iff:
  "input_with_limit d l n s = (Done y, u) \<longleftrightarrow>
   u = s \<and> l \<le> n \<and> (l = 0 \<or> d \<noteq> 0) \<and> y = load_bytes d l (mem s)"
  by (auto simp: input_with_limit_def done_iffs load_bytes_def)

lemma abi_input_Done_iff:
  "abi_input d l s = (Done y, u) \<longleftrightarrow>
   u = s \<and> l \<le> LIMIT \<and> (l = 0 \<or> d \<noteq> 0) \<and> y = load_bytes d l (mem s)"
  by (simp add: abi_input_def input_with_limit_Done_iff)

lemma input_str_Done_iff:
  "input_str d l s = (Done y, u) \<longleftrightarrow>
   u = s \<and> l \<le> LIMIT \<and> (l = 0 \<or> d \<noteq> 0) \<and> from_utf8 (load_bytes d l (mem s)) = Done y"
  by (auto simp: input_str_def done_iffs abi_input_Done_iff)

lemma on_mem_modify [simp]: "on_mem (modify f) s = (Done (), s\<lparr>mem := f (mem s)\<rparr>)"
  by (simp add: on_mem_def on_part_def modify_def)

lemma set_length_eq [simp]: "set_length n v s = (Done (), s\<lparr>mem := store_usize n v (mem s)\<rparr>)"
  by (simp add: set_length_def)

lemma lock_handles_Done_iff: "lock_handles s = (Done y, u) \<longleftrightarrow> u = s \<and> \<not> poisoned s"
  by (auto simp: lock_handles_def done_iffs panic_def)

lemma handle_lookup_Done_iff:
  "handle_lookup i s = (Done h, u) \<longleftrightarrow>
   u = s \<and> \<not> poisoned s \<and> map_of (handles s) i = Some h"
  by (auto simp: handle_lookup_def done_iffs lock_handles_Done_iff)

lemma on_handle_Some:
  "map_of (handles s) i = Some h \<Longrightarrow>
   on_handle i m s = (fst (m h), s\<lparr>handles := AList.update i (snd (m h)) (handles s)\<rparr>)"
  by (simp add: on_handle_def on_part_def split_beta Let_def)

lemma on_handle_Done_iff:
  assumes "map_of (handles s) i = Some h"
  shows "on_handle i m s = (Done y, u) \<longleftrightarrow>
    (\<exists>h'. m h = (Done y, h') \<and> u = s\<lparr>handles := AList.update i h' (handles s)\<rparr>)"
  by (simp add: on_handle_Some [OF assms]) (metis prod.collapse prod.inject)

lemma on_handle_mem: "on_handle i m s = (r, u) \<Longrightarrow> mem u = mem s"
  by (auto simp: on_handle_def on_part_def split_beta Let_def)

lemma with_handle_eq:
  "with_handle i m s =
     (if poisoned s
      then (Panicked ''called `Result::unwrap()` on an `Err` value: PoisonError { .. }'', s)
      else case map_of (handles s) i of
        None \<Rightarrow> (Fail ''invalid or destroyed core handle'', s)
      | Some h \<Rightarrow> (fst (m h), s\<lparr>handles := AList.update i (snd (m h)) (handles s)\<rparr>))"
  by (simp add: with_handle_def handle_lookup_def lock_handles_def andthen_def gets_def panic_def
      ret_def attempt_def opt_context_def on_handle_Some split: option.splits)

lemma with_handle_Done_iff:
  "with_handle i m s = (Done y, u) \<longleftrightarrow>
   (\<exists>h h'. \<not> poisoned s \<and> map_of (handles s) i = Some h \<and> m h = (Done y, h') \<and>
      u = s\<lparr>handles := AList.update i h' (handles s)\<rparr>)"
  by (auto simp: with_handle_def done_iffs handle_lookup_Done_iff on_handle_Some)
    (metis prod.collapse)

lemma caller_in_callback_Done_iff:
  "caller_in_callback t s = (Done y, u) \<longleftrightarrow> u = s \<and> y = in_callback s t"
  by (auto simp: caller_in_callback_def done_iffs)

lemma check_lifecycle_Done_iff: "check_lifecycle cb s = (Done y, u) \<longleftrightarrow> u = s \<and> \<not> cb"
  by (auto simp: check_lifecycle_def done_iffs)

lemma abi_output_Done_iff:
  "abi_output bs b c n s = (Done x, u) \<longleftrightarrow>
   n \<noteq> 0 \<and>
   (if c < length bs
    then x = META_BUFFER_TOO_SMALL \<and> u = s\<lparr>mem := store_usize n (length bs) (mem s)\<rparr>
    else (bs = [] \<or> b \<noteq> 0) \<and> x = META_OK \<and>
         u = s\<lparr>mem := store_bytes b bs (store_usize n (length bs) (mem s))\<rparr>)"
  by (auto simp: abi_output_def done_iffs)

lemma abi_output_eq:
  assumes "n \<noteq> 0" "c = 0 \<or> b \<noteq> 0"
  shows "abi_output bs b c n s =
    (if c < length bs
     then (Done META_BUFFER_TOO_SMALL, s\<lparr>mem := store_usize n (length bs) (mem s)\<rparr>)
     else (Done META_OK, s\<lparr>mem := store_bytes b bs (store_usize n (length bs) (mem s))\<rparr>))"
  using assms by (auto simp: abi_output_Done_iff)

lemma output_json_Done_iff:
  "output_json env v b c n s = (Done x, u) \<longleftrightarrow>
   (\<exists>bs. to_vec (env_json env) v = Done bs \<and> abi_output bs b c n s = (Done x, u))"
  by (auto simp: output_json_def done_iffs)

lemmas op_iffs =
  done_iffs input_with_limit_Done_iff abi_input_Done_iff input_str_Done_iff lock_handles_Done_iff
  handle_lookup_Done_iff with_handle_Done_iff caller_in_callback_Done_iff
  check_lifecycle_Done_iff output_json_Done_iff

lemma boundary_iff:
  "x \<noteq> META_ERROR \<Longrightarrow> boundary env t m s = (x, u) \<longleftrightarrow> m s = (Done x, u)"
  by (auto simp: boundary_def split: prod.splits outcome.splits)

lemma boundary_Fail:
  "m s = (Fail e, u) \<Longrightarrow>
   boundary env t m s = (META_ERROR, u\<lparr>error_text := (error_text u)(t := e)\<rparr>)"
  by (simp add: boundary_def)

subsection \<open>Operations that fail without a trace\<close>

text \<open>\<open>m\<close> either fails or panics in the state it started from, or ends as \<open>P\<close> says.\<close>

definition ends :: "('s, 'a) io \<Rightarrow> 's \<Rightarrow> ('a outcome \<Rightarrow> 's \<Rightarrow> bool) \<Rightarrow> bool" where
  "ends m s P \<longleftrightarrow>
     (\<forall>r u. m s = (r, u) \<longrightarrow> u = s \<and> (\<forall>x. r \<noteq> Done x) \<or> P r u)"

lemma ends_andthen:
  assumes "snd (m s) = s" "\<And>x. m s = (Done x, s) \<Longrightarrow> ends (f x) s P"
  shows "ends (andthen m f) s P"
proof (cases "m s")
  case (Pair r u)
  with assms show ?thesis by (cases r) (auto simp: ends_def andthen_def)
qed

lemma ends_ensure: "(c \<Longrightarrow> ends m s P) \<Longrightarrow> ends (ensure c e m) s P"
  by (auto simp: ends_def ensure_def bail_def)

lemma endsI: "(\<And>r u. m s = (r, u) \<Longrightarrow> P r u) \<Longrightarrow> ends m s P"
  by (auto simp: ends_def)

lemma ends_if: "(c \<Longrightarrow> ends m s P) \<Longrightarrow> (\<not> c \<Longrightarrow> ends m' s P) \<Longrightarrow> ends (if c then m else m') s P"
  by simp

lemma reads_only [simp]:
  "snd (input_with_limit d l n s) = s" "snd (abi_input d l s) = s" "snd (input_str d l s) = s"
  "snd (attempt r s) = s" "snd (gets g s) = s" "snd (check_lifecycle cb s) = s"
  "snd (lock_handles s) = s" "snd (handle_lookup i s) = s" "snd (caller_in_callback t s) = s"
  by (simp_all add: input_with_limit_def abi_input_def input_str_def attempt_def gets_def
      check_lifecycle_def lock_handles_def handle_lookup_def caller_in_callback_def ensure_def
      andthen_def bail_def ret_def panic_def split: prod.splits outcome.splits)

end
