(* ===== verification/Ffi_Example.thy ===== *)
theory Ffi_Example
  imports Ffi_Abi
begin

text \<open>
  A concrete environment on which the theorems of the C interface are evaluated: a
  configuration is any nonempty text, JSON is read as the empty object and printed as
  \<^verbatim>\<open>{}\<close>, the core counts the calls it gets, and the worker answers at once.
\<close>

definition demo_config :: "unit config" where
  "demo_config =
     \<lparr>cfg_port = 7890, cfg_socks_port = 7891, cfg_mixed_port = 0, cfg_allow_lan = True,
      cfg_external_controller = Some ''127.0.0.1:9090'', cfg_external_ui = ''ui'',
      cfg_log_level = ''info'', cfg_log_path = ''log'', cfg_dns_enable = True,
      cfg_tun = \<lparr>tun_enable = True, tun_auto_route = True, tun_auto_dns = True,
        tun_auto_detect_interface = True, tun_interface = None, tun_mtu = 9000,
        tun_dns_hijack = []\<rparr>,
      cfg_directory = [], cfg_internal_host_packet_io = False, cfg_rest = ()\<rparr>"

definition demo_config_api :: "unit config_api" where
  "demo_config_api =
     \<lparr>Config_parse = (\<lambda>bs. if bs = [] then Fail ''empty'' else Done demo_config),
      custom_validate = (\<lambda>_. Done ()),
      custom_targets = (\<lambda>_. Done [''DIRECT'', ''REJECT'']),
      custom_apply = (\<lambda>yaml _. Done (yaml, JArray [])),
      overrides_apply = (\<lambda>_ yaml. Done yaml),
      syntax_check = (\<lambda>_. JNull),
      cos_target_from_url = (\<lambda>_. JNull),
      cos_put_object = (\<lambda>_ _ _ _. Fail ''offline''),
      parse_test_target = (\<lambda>host port. Done (host, case port of None \<Rightarrow> 443 | Some p \<Rightarrow> p))\<rparr>"

definition demo_json :: json_api where
  "demo_json =
     \<lparr>from_slice = (\<lambda>_. Done (JObject [])),
      to_vec = (\<lambda>_. Done (as_bytes ''{}'')),
      json_to_string = (\<lambda>_. ''{}''),
      strings_from_slice = (\<lambda>_. Done []),
      overrides_from_slice = (\<lambda>_. Done \<lparr>ov_log_level = None, ov_ipv6 = None, ov_sniffing = None,
        ov_adblock = None, ov_tailscale = None\<rparr>),
      cos_request_from_slice = (\<lambda>_. Fail ''missing field''),
      network_info_from_slice = (\<lambda>_. Done \<lparr>info_kind = None, info_ssid = None,
        info_addresses = [], info_gateways = []\<rparr>),
      strings_from_value = (\<lambda>_. Done []),
      mode_from_value = (\<lambda>_. Done Direct)\<rparr>"

definition demo_core :: "(unit, nat) core_api" where
  "demo_core =
     \<lparr>Core_new = (\<lambda>_ _. Done 0),
      Core_new_default_hooks = (\<lambda>_. Done 0),
      runtime_build = Done (),
      thread_spawn = Done (),
      start_inner = (\<lambda>k. (Done (), k + 1)),
      core_shutdown = (\<lambda>_ k. k),
      core_probe = (\<lambda>_ timeout_ms k. (Done timeout_ms, k + 1)),
      core_test_route = (\<lambda>_ _ k. (Done JNull, k + 1)),
      core_dns_leak_test = (\<lambda>k. (Done JNull, k + 1)),
      native_tun_from_fd = (\<lambda>_. Done ()),
      core_close_connections = (\<lambda>k. k + 1),
      core_close_connection = (\<lambda>_ k. k + 1),
      core_set_network = (\<lambda>_ k. (Done (), k + 1)),
      core_set_adblock_allow = (\<lambda>_ k. (Done (), k + 1)),
      core_update_policy = (\<lambda>_ _ k. (Done (), k + 1)),
      core_select = (\<lambda>_ _ k. (Done (), k + 1)),
      core_snapshot = (\<lambda>_. []),
      core_connection_count = (\<lambda>k. k),
      core_upload = (\<lambda>k. k),
      core_download = (\<lambda>k. k),
      core_dns_leak_audit = (\<lambda>_. JNull),
      resource_freshness = (\<lambda>_. Done Current),
      prepare_resources = (\<lambda>_. Done ())\<rparr>"

definition demo_env :: "(unit, nat) env" where
  "demo_env =
     \<lparr>env_target = \<lparr>pointer_bytes = 8, is_android = False\<rparr>,
      env_config = demo_config_api, env_json = demo_json, env_ciphers = toy_ciphers,
      env_core = demo_core,
      env_worker = \<lparr>command_slot = None, reply = Replied, worker_panicked = False\<rparr>,
      path_is_dir = (\<lambda>_. True), clone_fd = (\<lambda>fd. Done fd), panic_time = JNull,
      log_lock_free = True, panic_file_opens = True\<rparr>"

lemmas demo_defs =
  demo_env_def demo_core_def demo_json_def demo_config_api_def demo_config_def

lemma demo_env_simps [simp]:
  "env_target demo_env = \<lparr>pointer_bytes = 8, is_android = False\<rparr>"
  "env_config demo_env = demo_config_api"
  "env_json demo_env = demo_json"
  "env_ciphers demo_env = toy_ciphers"
  "env_core demo_env = demo_core"
  "env_worker demo_env = \<lparr>command_slot = None, reply = Replied, worker_panicked = False\<rparr>"
  "path_is_dir demo_env path"
  by (simp_all add: demo_env_def)

lemma demo_api_simps [simp]:
  "Config_parse demo_config_api bs = (if bs = [] then Fail ''empty'' else Done demo_config)"
  "from_slice demo_json bs = Done (JObject [])"
  "to_vec demo_json v = Done (as_bytes ''{}'')"
  by (simp_all add: demo_config_api_def demo_json_def)

text \<open>How the operations of a call compute.\<close>

lemmas run_defs =
  boundary_def andthen_def ret_def bail_def panic_def attempt_def gets_def modify_def ensure_def
  on_part_def on_mem_def set_length_def input_with_limit_def abi_input_def input_str_def
  abi_output_def output_json_def lock_handles_def handle_lookup_def on_handle_def with_handle_def
  opt_context_def check_lifecycle_def caller_in_callback_def

text \<open>Memory that holds \<open>bs\<close> at address \<open>p\<close>, and a process with it that created no core yet.\<close>

definition demo_mem :: "nat \<Rightarrow> byte list \<Rightarrow> host_mem" where
  "demo_mem p bs =
     store_bytes p bs
       \<lparr>u8_at = (\<lambda>_. 0), usize_at = (\<lambda>_. 0), u32_at = (\<lambda>_. 0), u64_at = (\<lambda>_. 0),
        hooks_at = (\<lambda>_. \<lparr>hooks_size = 0, hooks_version = 0, hooks_context = 0,
          hooks_protect_socket = 0, hooks_packet_ready = 0\<rparr>)\<rparr>"

definition ffi_init :: "host_mem \<Rightarrow> 'k ffi" where
  "ffi_init m =
     \<lparr>mem = m, error_text = (\<lambda>_. []), in_callback = (\<lambda>_. False), handles = [],
      poisoned = False, next_id = 1,
      logs = \<lparr>log_buffer = [], log_filter = None, panic_file = None, panic_log = []\<rparr>\<rparr>"

text \<open>A core with a packet queue, fresh from its creation, and a process that holds it.\<close>

definition demo_handle :: "nat handle" where
  "demo_handle =
     \<lparr>core = 0, core_tun_enable = True, stopped = False, lifecycle = False, running = False,
      packet_source = Some Host_Queue, network = 0, worker = True,
      packet_input = Some new_channel,
      packet_output = \<lparr>receiver = new_channel, pending = None, wake = False\<rparr>,
      packet_queue_enabled = True, handle_hooks = HostHooks_default\<rparr>"

definition demo_state :: "host_mem \<Rightarrow> nat handle \<Rightarrow> nat ffi" where
  "demo_state m h = (ffi_init m)\<lparr>handles := [(1, h)], next_id := 2\<rparr>"

lemma ffi_init_simps [simp]:
  "mem (ffi_init m) = m" "error_text (ffi_init m) t = []" "\<not> in_callback (ffi_init m) t"
  "handles (ffi_init m) = []" "\<not> poisoned (ffi_init m)" "next_id (ffi_init m) = 1"
  by (simp_all add: ffi_init_def)

lemma demo_state_simps [simp]:
  "mem (demo_state m h) = m" "error_text (demo_state m h) t = []"
  "\<not> in_callback (demo_state m h) t" "handles (demo_state m h) = [(1, h)]"
  "\<not> poisoned (demo_state m h)" "next_id (demo_state m h) = 2"
  by (simp_all add: demo_state_def)

lemma load_demo_mem [simp]: "load_bytes p (length bs) (demo_mem p bs) = bs"
  by (simp add: demo_mem_def load_store_bytes)

lemma demo_create: 
  "Handle_new \<lparr>pointer_bytes = 8, is_android = False\<rparr> demo_core demo_config HostHooks_default =
     Done demo_handle"
  by (simp add: Handle_new_def demo_defs demo_handle_def new_channel_def)

end
