(* ===== verification/Ffi_Packet_Calls.thy ===== *)
theory Ffi_Packet_Calls
  imports Ffi_Ops Ffi_Example
begin

text \<open>
  The packet calls, \<^verbatim>\<open>meta_read_packet_v1\<close> and \<^verbatim>\<open>meta_write_packet_v1\<close>: the host reads the
  packets of the core in order and loses none to a buffer that is too small, and writes only
  IP packets of a valid length into a bounded queue.
\<close>

subsection \<open>Reading\<close>

lemma update_twice [simp]: "AList.update k v (AList.update k u xs) = AList.update k v xs"
  by (induction xs) auto

lemma check_packet_queue_Done_iff:
  "check_packet_queue h = (Done x, h') \<longleftrightarrow> h' = h \<and> packet_queue_enabled h"
  by (auto simp: check_packet_queue_def done_iffs)

text \<open>What is left of a handle whose next packet was made pending, and taken.\<close>

definition filled :: "'k handle \<Rightarrow> 'k handle" where
  "filled h = h\<lparr>packet_output := snd (packets_fill (packet_output h))\<rparr>"

definition taken :: "'k handle \<Rightarrow> 'k handle" where
  "taken h = h\<lparr>packet_output := (packet_output h)\<lparr>pending := None\<rparr>\<rparr>"

lemma unread_filled [simp]: "unread (packet_output (filled h)) = unread (packet_output h)"
  by (simp add: filled_def packets_fill_unread)

lemma unread_taken:
  assumes "unread (packet_output h) = p # ps"
  shows "unread (packet_output (taken (filled h))) = ps"
  using assms
  by (auto simp: taken_def filled_def unread_def packets_fill_eq split: option.splits list.splits)

lemma pending_filled:
  "unread (packet_output h) = p # ps \<Longrightarrow> pending (packet_output (filled h)) = Some p"
  using packets_fill_pending [of "packet_output h"] packets_fill_True_iff [of "packet_output h"]
  by (simp add: filled_def)

lemma fill_on_part:
  "on_part packet_output (\<lambda>q h. h\<lparr>packet_output := q\<rparr>) packets_fill h =
   (fst (packets_fill (packet_output h)), filled h)"
  by (simp add: on_part_def filled_def split_beta Let_def)

lemma read_queue_eq:
  assumes "map_of (handles s) i = Some h" "\<not> poisoned s" "packet_queue_enabled h" "n \<noteq> 0"
  defines "s0 \<equiv> s\<lparr>mem := store_usize n 0 (mem s),
    handles := AList.update i (filled h) (handles s)\<rparr>"
  shows "meta_read_packet_v1 env t i b c n s =
    boundary env t (\<lambda>s. case fst (packets_fill (packet_output h)) of
        Done True \<Rightarrow> deliver_packet i b c n s0
      | Done False \<Rightarrow> (Done META_WOULD_BLOCK, s0)
      | Fail e \<Rightarrow> (Fail e, s0)
      | Panicked e \<Rightarrow> (Panicked e, s0)) s"
proof -
  let ?s1 = "s\<lparr>mem := store_usize n 0 (mem s)\<rparr>"
  have "with_handle i check_packet_queue ?s1 = (Done (), ?s1)"
    using assms by (simp add: with_handle_Done_iff check_packet_queue_Done_iff update_triv)
  moreover have "on_handle i (on_part packet_output (\<lambda>q h. h\<lparr>packet_output := q\<rparr>) packets_fill) ?s1 =
      (fst (packets_fill (packet_output h)), s0)"
    using assms by (simp add: on_handle_Some fill_on_part)
  ultimately show ?thesis
    using assms(4)
    by (auto simp: meta_read_packet_v1_def boundary_def andthen_def ensure_def ret_def
        split: outcome.splits bool.splits)
qed

lemma deliver_eq:
  assumes "map_of (handles s) i = Some h" "pending (packet_output h) = Some p" "n \<noteq> 0" "b \<noteq> 0"
  shows "deliver_packet i b c n s =
    (if c < length p
     then (Done META_BUFFER_TOO_SMALL, s\<lparr>mem := store_usize n (length p) (mem s)\<rparr>)
     else (Done META_OK, s\<lparr>mem := store_bytes b p (store_usize n (length p) (mem s)),
       handles := AList.update i (taken h) (handles s)\<rparr>))"
proof -
  have "on_handle i (gets (\<lambda>h. the (pending (packet_output h)))) s = (Done p, s)"
    using assms by (simp add: on_handle_Some gets_def update_triv)
  moreover have "abi_output p b c n s =
     (if c < length p
      then (Done META_BUFFER_TOO_SMALL, s\<lparr>mem := store_usize n (length p) (mem s)\<rparr>)
      else (Done META_OK, s\<lparr>mem := store_bytes b p (store_usize n (length p) (mem s))\<rparr>))"
    using assms by (simp add: abi_output_Done_iff)
  ultimately show ?thesis
    using assms by (simp add: deliver_packet_def andthen_def ret_def on_handle_Some modify_def taken_def)
qed

lemma read_packet_cases:
  assumes h: "map_of (handles s) i = Some h" "\<not> poisoned s" "packet_queue_enabled h"
    and nb: "n \<noteq> 0" "b \<noteq> 0"
  shows "invoke env t (Meta_read_packet i b c n) s =
    (let s0 = s\<lparr>mem := store_usize n 0 (mem s), handles := AList.update i (filled h) (handles s)\<rparr>
     in case unread (packet_output h) of
       [] \<Rightarrow>
         if senders_gone (receiver (packet_output h))
         then (META_ERROR, s0\<lparr>error_text := (error_text s)(t := ''packet channel closed'')\<rparr>)
         else (META_WOULD_BLOCK, s0)
     | p # ps \<Rightarrow>
         if c < length p
         then (META_BUFFER_TOO_SMALL, s0\<lparr>mem := store_usize n (length p) (mem s)\<rparr>)
         else (META_OK, s0\<lparr>mem := store_bytes b p (store_usize n (length p) (mem s)),
                handles := AList.update i (taken (filled h)) (handles s)\<rparr>))"
proof (cases "unread (packet_output h)")
  case Nil
  then show ?thesis
    by (auto simp: read_queue_eq [OF h nb(1)] boundary_def packets_fill_eq unread_def Let_def
        split: option.splits list.splits)
next
  case (Cons p ps)
  let ?s0 = "s\<lparr>mem := store_usize n 0 (mem s), handles := AList.update i (filled h) (handles s)\<rparr>"
  have "map_of (handles ?s0) i = Some (filled h)" by (simp add: update_conv')
  note del = deliver_eq [OF this pending_filled [OF Cons] nb, of c]
  have "fst (packets_fill (packet_output h)) = Done True"
    using Cons by (simp add: packets_fill_True_iff)
  with Cons del show ?thesis by (simp add: read_queue_eq [OF h nb(1)] boundary_def Let_def)
qed

text \<open>
  C17. Reading a packet: when the host has packets to read, the call reports the length of the
  first one; a buffer with room for it receives exactly its bytes and the packet is gone,
  while a buffer that is too small receives nothing and the packet stays first. When there is
  none, the call reports \<^verbatim>\<open>META_WOULD_BLOCK\<close> with length zero and re-arms the notification,
  or fails once the core's end of the queue is gone.
\<close>

theorem read_packet_spec:
  assumes h: "map_of (handles s) i = Some h" "\<not> poisoned s" "packet_queue_enabled h"
    and nb: "n \<noteq> 0" "b \<noteq> 0"
    and call: "invoke env t (Meta_read_packet i b c n) s = (status, s')"
  shows "\<exists>h'. map_of (handles s') i = Some h' \<and>
    (case unread (packet_output h) of
       [] \<Rightarrow>
         status = (if senders_gone (receiver (packet_output h)) then META_ERROR
                   else META_WOULD_BLOCK) \<and>
         unread (packet_output h') = [] \<and> usize_at (mem s') n = 0 \<and>
         (status = META_WOULD_BLOCK \<longrightarrow> \<not> wake (packet_output h'))
     | p # ps \<Rightarrow>
         usize_at (mem s') n = length p \<and>
         (if c < length p
          then status = META_BUFFER_TOO_SMALL \<and> unread (packet_output h') = p # ps \<and>
               u8_at (mem s') = u8_at (mem s)
          else status = META_OK \<and> unread (packet_output h') = ps \<and>
               load_bytes b (length p) (mem s') = p))"
proof (cases "unread (packet_output h)")
  case Nil
  moreover have "\<not> wake (packet_output (filled h))" if "\<not> senders_gone (receiver (packet_output h))"
    using that Nil packets_fill_rearms [of "packet_output h"]
    by (simp add: filled_def packets_fill_False_iff)
  ultimately show ?thesis
    using call unfolding read_packet_cases [OF h nb]
    by (auto simp: Let_def update_conv' split: if_splits)
next
  case (Cons p ps)
  then show ?thesis
    using call unread_taken [OF Cons] unfolding read_packet_cases [OF h nb]
    by (auto simp: Let_def update_conv' load_store_bytes split: if_splits)
qed

theorem read_packet_spec_witness:
  "\<exists>s' h'. invoke demo_env 0 (Meta_read_packet 1 100 64 8)
      (demo_state (demo_mem 0 []) (demo_handle\<lparr>packet_output :=
        \<lparr>receiver = new_channel\<lparr>items := [[2, 3]]\<rparr>, pending = Some [1], wake = True\<rparr>\<rparr>)) =
      (META_OK, s') \<and> map_of (handles s') 1 = Some h' \<and>
    unread (packet_output h') = [[2, 3]] \<and> load_bytes 100 1 (mem s') = [1]"
proof -
  let ?h = "demo_handle\<lparr>packet_output :=
    \<lparr>receiver = new_channel\<lparr>items := [[2, 3]]\<rparr>, pending = Some [1], wake = True\<rparr>\<rparr>"
  let ?s = "demo_state (demo_mem 0 []) ?h"
  obtain x s' where r: "invoke demo_env 0 (Meta_read_packet 1 100 64 8) ?s = (x, s')" by fastforce
  have "unread (packet_output ?h) = [[1], [2, 3]]" by (simp add: unread_def)
  moreover have "packet_queue_enabled ?h" by (simp add: demo_handle_def)
  ultimately show ?thesis
    using read_packet_spec [OF _ _ _ _ _ r, of ?h] r by (auto simp: unread_def)
qed

subsection \<open>Draining\<close>

text \<open>
  What the header asks of a host that was notified: read until a read does not return a
  packet, here at most \<open>k\<close> times into the same buffer. The result is the packets read and the
  last status.
\<close>

fun host_drain ::
    "('c, 'k) env \<Rightarrow> nat \<Rightarrow> meta_handle \<Rightarrow> nat \<Rightarrow> nat \<Rightarrow> nat \<Rightarrow> nat \<Rightarrow> 'k ffi \<Rightarrow> packet list \<times> int \<times> 'k ffi"
  where
  "host_drain env t i b c n 0 s = ([], META_OK, s)"
| "host_drain env t i b c n (Suc k) s =
     (case invoke env t (Meta_read_packet i b c n) s of
        (status, s') \<Rightarrow>
          if status = META_OK
          then (case host_drain env t i b c n k s' of
                  (ps, r) \<Rightarrow> (load_bytes b (usize_at (mem s') n) (mem s') # ps, r))
          else ([], status, s'))"

lemma filled_frame [simp]:
  "packet_queue_enabled (filled h) = packet_queue_enabled h"
  "packet_queue_enabled (taken h) = packet_queue_enabled h"
  "senders_gone (receiver (packet_output (filled h))) = senders_gone (receiver (packet_output h))"
  "senders_gone (receiver (packet_output (taken h))) = senders_gone (receiver (packet_output h))"
  by (simp_all add: filled_def taken_def)

text \<open>
  C20. A host that drains as the header asks gets every packet that is queued, each exactly once and
  in the order the core queued them, and is then told \<^verbatim>\<open>META_WOULD_BLOCK\<close>: one read more than
  there are packets is enough, with a buffer that has room for each of them.
\<close>

theorem drain_reads_all:
  assumes "map_of (handles s) i = Some h" "\<not> poisoned s" "packet_queue_enabled h"
    and "\<not> senders_gone (receiver (packet_output h))" "n \<noteq> 0" "b \<noteq> 0"
    and "list_all (\<lambda>p. length p \<le> c) (unread (packet_output h))"
    and "length (unread (packet_output h)) < k"
  shows "\<exists>s' h'. host_drain env t i b c n k s = (unread (packet_output h), META_WOULD_BLOCK, s') \<and>
    map_of (handles s') i = Some h' \<and> unread (packet_output h') = []"
  using assms
proof (induction k arbitrary: s h)
  case (Suc k)
  note call = read_packet_cases [OF Suc.prems(1,2,3,5,6), of env t c]
  show ?case
  proof (cases "unread (packet_output h)")
    case Nil
    with call Suc.prems(4) show ?thesis by (auto simp: Let_def update_conv')
  next
    case (Cons p ps)
    with Suc.prems(7) have p: "length p \<le> c" by simp
    let ?h = "taken (filled h)"
    let ?s = "s\<lparr>mem := store_bytes b p (store_usize n (length p) (mem s)),
      handles := AList.update i ?h (handles s)\<rparr>"
    have read: "invoke env t (Meta_read_packet i b c n) s = (META_OK, ?s)"
      using call Cons p by (simp add: Let_def)
    have "\<exists>s' h'. host_drain env t i b c n k ?s = (unread (packet_output ?h), META_WOULD_BLOCK, s') \<and>
        map_of (handles s') i = Some h' \<and> unread (packet_output h') = []"
      using Suc.prems Cons unread_taken [OF Cons] by (intro Suc.IH) (auto simp: update_conv')
    with read unread_taken [OF Cons] Cons show ?thesis by (auto simp: load_store_bytes)
  qed
qed simp

theorem drain_reads_all_witness:
  "\<exists>s'. host_drain demo_env 0 1 100 64 8 3
      (demo_state (demo_mem 0 []) (demo_handle\<lparr>packet_output :=
        \<lparr>receiver = new_channel\<lparr>items := [[2, 3]]\<rparr>, pending = Some [1], wake = True\<rparr>\<rparr>)) =
     ([[1], [2, 3]], META_WOULD_BLOCK, s')"
proof -
  let ?h = "demo_handle\<lparr>packet_output :=
    \<lparr>receiver = new_channel\<lparr>items := [[2, 3]]\<rparr>, pending = Some [1], wake = True\<rparr>\<rparr>"
  have "unread (packet_output ?h) = [[1], [2, 3]]" by (simp add: unread_def)
  then show ?thesis
    using drain_reads_all [of "demo_state (demo_mem 0 []) ?h" 1 ?h 8 100 64 3 demo_env 0]
    by (auto simp: demo_handle_def new_channel_def)
qed

subsection \<open>Writing\<close>

text \<open>The packets that may be written: IPv4 or IPv6, of 20 to 65535 bytes.\<close>

definition ip_packet :: "byte list \<Rightarrow> bool" where
  "ip_packet p \<longleftrightarrow> 20 \<le> length p \<and> length p \<le> 65535 \<and> unat (hd p) div 16 \<in> {4, 6}"

text \<open>The queue into which the host may write for \<open>i\<close>.\<close>

definition write_queue :: "meta_handle \<Rightarrow> 'k ffi \<Rightarrow> packet channel option" where
  "write_queue i s =
     (if poisoned s then None
      else case map_of (handles s) i of
        None \<Rightarrow> None
      | Some h \<Rightarrow>
          if stopped h \<or> \<not> packet_queue_enabled h then None
          else case packet_input h of
            None \<Rightarrow> None
          | Some c \<Rightarrow> if receiver_gone c then None else Some c)"

lemma ip_version:
  "drop_bit 4 b = (4 :: byte) \<or> drop_bit 4 b = 6 \<longleftrightarrow> unat b div 16 \<in> {4, 6}"
proof -
  have d: "unat (drop_bit 4 b) = unat b div 16"
    by (simp add: drop_bit_eq_div unat_div)
  have "drop_bit 4 b = k \<longleftrightarrow> unat b div 16 = unat k" for k :: byte
    unfolding word_unat_eq_iff d by simp
  then show ?thesis by simp
qed

lemma handle_write_packet_eq:
  "handle_write_packet p h =
     (if stopped h then (Fail ''core is stopped'', h)
      else if \<not> packet_queue_enabled h
      then (Fail ''host packet queue unavailable: TUN is disabled or uses an Android fd'', h)
      else case packet_input h of
        None \<Rightarrow> (Fail ''TUN is disabled'', h)
      | Some c \<Rightarrow>
          if receiver_gone c then (Fail ''packet channel closed'', h)
          else if length (items c) < PACKET_QUEUE
          then (Done META_OK, h\<lparr>packet_input := Some (c\<lparr>items := items c @ [p]\<rparr>)\<rparr>)
          else (Done META_WOULD_BLOCK, h))"
  by (auto simp: handle_write_packet_def check_packet_queue_def andthen_def gets_def ensure_def
      ret_def bail_def attempt_def opt_context_def try_send_def modify_def split: option.splits)

lemma write_queue_Some:
  assumes "write_queue i s = Some c"
  obtains h where "\<not> poisoned s" "map_of (handles s) i = Some h" "\<not> stopped h"
    "packet_queue_enabled h" "packet_input h = Some c" "\<not> receiver_gone c"
  using assms by (auto simp: write_queue_def split: if_splits option.splits)

lemma write_queue_None:
  assumes "write_queue i s = None"
  shows "\<exists>r. with_handle i (handle_write_packet p) s = (r, s) \<and> (\<forall>x. r \<noteq> Done x)"
proof (cases "poisoned s \<or> map_of (handles s) i = None")
  case False
  then obtain h where h: "map_of (handles s) i = Some h" "\<not> poisoned s" by auto
  with assms have "\<exists>e. handle_write_packet p h = (Fail e, h)"
    by (cases "packet_input h") (auto simp: write_queue_def handle_write_packet_eq split: if_splits)
  with h show ?thesis by (auto simp: with_handle_eq update_triv)
qed (auto simp: with_handle_eq)

lemma write_queue_room:
  assumes "write_queue i s = Some c"
  shows "length (items c) < PACKET_QUEUE \<Longrightarrow>
      \<exists>s'. with_handle i (handle_write_packet p) s = (Done META_OK, s') \<and>
        write_queue i s' = Some (c\<lparr>items := items c @ [p]\<rparr>)"
    and "\<not> length (items c) < PACKET_QUEUE \<Longrightarrow>
      with_handle i (handle_write_packet p) s = (Done META_WOULD_BLOCK, s)"
proof -
  obtain h where "\<not> poisoned s" "map_of (handles s) i = Some h" "\<not> stopped h"
    "packet_queue_enabled h" "packet_input h = Some c" "\<not> receiver_gone c"
    using assms by (rule write_queue_Some)
  note h = this
  show "length (items c) < PACKET_QUEUE \<Longrightarrow>
      \<exists>s'. with_handle i (handle_write_packet p) s = (Done META_OK, s') \<and>
        write_queue i s' = Some (c\<lparr>items := items c @ [p]\<rparr>)"
    using h by (simp add: with_handle_eq handle_write_packet_eq write_queue_def update_conv')
  show "\<not> length (items c) < PACKET_QUEUE \<Longrightarrow>
      with_handle i (handle_write_packet p) s = (Done META_WOULD_BLOCK, s)"
    using h by (simp add: with_handle_eq handle_write_packet_eq update_triv)
qed

text \<open>
  C18. Writing a packet: it is queued exactly when it is an IPv4 or IPv6 packet of 20 to 65535 bytes
  and the handle has an open queue with room; then it is the last of that queue. A full queue
  answers \<^verbatim>\<open>META_WOULD_BLOCK\<close> and changes nothing, and everything else is an error that
  changes no handle.
\<close>

theorem write_packet_spec:
  assumes "invoke env t (Meta_write_packet i d l) s = (status, s')"
  shows "if d \<noteq> 0 \<and> ip_packet (load_bytes d l (mem s)) \<and> write_queue i s \<noteq> None
    then if length (items (the (write_queue i s))) < PACKET_QUEUE
      then status = META_OK \<and>
        write_queue i s' = Some ((the (write_queue i s))
          \<lparr>items := items (the (write_queue i s)) @ [load_bytes d l (mem s)]\<rparr>)
      else status = META_WOULD_BLOCK \<and> s' = s
    else status = META_ERROR \<and> handles s' = handles s"
proof -
  let ?p = "load_bytes d l (mem s)"
  let ?m = "with_handle i (handle_write_packet ?p)"
  have LIMIT: "l \<le> 65535 \<Longrightarrow> l \<le> LIMIT" by (simp add: LIMIT_def)
  show ?thesis
  proof (cases "d \<noteq> 0 \<and> ip_packet ?p")
    case True
    then have "invoke env t (Meta_write_packet i d l) s = boundary env t ?m s"
      using LIMIT
      by (auto simp: meta_write_packet_v1_def boundary_def andthen_def ensure_def abi_input_def
          input_with_limit_def gets_def ip_packet_def ip_version)
    then have call: "boundary env t ?m s = (status, s')" using assms by simp
    show ?thesis
    proof (cases "write_queue i s")
      case None
      with call write_queue_None [of i s ?p] show ?thesis
        by (auto simp: boundary_def split: outcome.splits)
    next
      case (Some c)
      with call True write_queue_room [OF Some, of ?p] show ?thesis
        by (cases "length (items c) < PACKET_QUEUE") (auto simp: boundary_def)
    qed
  next
    case False
    have "\<exists>e. invoke env t (Meta_write_packet i d l) s =
        (META_ERROR, s\<lparr>error_text := (error_text s)(t := e)\<rparr>)"
    proof (cases "20 \<le> l \<and> l \<le> 65535 \<and> d \<noteq> 0")
      case True
      with False LIMIT show ?thesis
        by (auto simp: meta_write_packet_v1_def boundary_def andthen_def ensure_def abi_input_def
            input_with_limit_def gets_def bail_def ip_packet_def ip_version)
    next
      case False
      then show ?thesis
        by (auto simp: meta_write_packet_v1_def boundary_def andthen_def ensure_def abi_input_def
            input_with_limit_def bail_def)
    qed
    with False assms show ?thesis by auto
  qed
qed

theorem write_packet_spec_witness:
  "\<exists>s'. invoke demo_env 0 (Meta_write_packet 1 100 20)
      (demo_state (demo_mem 100 (0x45 # replicate 19 0)) demo_handle) = (META_OK, s') \<and>
     write_queue 1 s' = Some (new_channel\<lparr>items := [0x45 # replicate 19 0]\<rparr>)"
proof -
  let ?p = "0x45 # replicate 19 (0 :: byte)"
  let ?s = "demo_state (demo_mem 100 ?p) demo_handle"
  obtain x s' where r: "invoke demo_env 0 (Meta_write_packet 1 100 20) ?s = (x, s')" by fastforce
  have load: "load_bytes 100 20 (mem ?s) = ?p" using load_demo_mem [of 100 ?p] by simp
  have "ip_packet ?p" by (simp add: ip_packet_def)
  moreover have "write_queue 1 ?s = Some new_channel"
    by (simp add: write_queue_def demo_handle_def new_channel_def)
  ultimately show ?thesis
    using write_packet_spec [OF r] r unfolding load by (simp add: new_channel_def PACKET_QUEUE_def)
qed

end
