(* ===== verification/Ffi_Buffers.thy ===== *)
theory Ffi_Buffers
  imports Ffi_Packet_Calls
begin

text \<open>
  What \<^verbatim>\<open>clyntis.h\<close> says of every call: which memory it writes, what its status means, where
  its error text is found, and the contract of caller buffers with its size queries; and of
  the calls that only move data through buffers: configurations, settings and logs.
\<close>

subsection \<open>Every call\<close>

text \<open>
  C1. No call writes memory outside the output parameters of its prototype: bytes only inside
  the caller's buffer (never past its capacity), lengths, words and handles only through the
  pointers given for them. This holds for every state, every input and every outcome.
\<close>

theorem calls_write_only_outputs:
  "mem_within (footprint call) (mem s) (mem (snd (invoke env t call s)))"
proof -
  obtain m where "invoke env t call = boundary env t m"
    "\<And>s. mem_within (footprint call) (mem s) (mem (snd (m s)))"
    by (rule invoke_boundary [of env t call]) blast
  then show ?thesis by simp
qed

text \<open>
  C26. Every call returns one of the four status codes of the header, never changes which threads
  are inside a callback, and touches the error text of no other thread; only a call that
  returns \<^verbatim>\<open>META_ERROR\<close> changes the error text of its own thread.
\<close>

theorem call_status_and_threads:
  assumes "invoke env t call s = (status, s')"
  shows "status \<in> {META_OK, META_ERROR, META_WOULD_BLOCK, META_BUFFER_TOO_SMALL} \<and>
    in_callback s' = in_callback s \<and>
    (\<forall>u. u \<noteq> t \<or> status \<noteq> META_ERROR \<longrightarrow> error_text s' u = error_text s u)"
proof -
  obtain m where m: "invoke env t call = boundary env t m"
    "\<And>s. same_threads s (snd (m s))"
    "\<And>s x. fst (m s) = Done x \<Longrightarrow> x \<in> {META_OK, META_WOULD_BLOCK, META_BUFFER_TOO_SMALL}"
    by (rule invoke_boundary [of env t call]) blast
  obtain r s1 where r: "m s = (r, s1)" by fastforce
  have "in_callback s1 = in_callback s" "error_text s1 = error_text s"
    using m(2) [of s] r by (simp_all add: same_threads_def)
  moreover have "r = Done x \<Longrightarrow> x \<in> {META_OK, META_WOULD_BLOCK, META_BUFFER_TOO_SMALL}" for x
    using m(3) [of s x] r by simp
  moreover have "boundary env t m s = (status, s')" using assms m(1) by simp
  ultimately show ?thesis using r by (cases r) (auto simp: boundary_def)
qed

theorem call_status_and_threads_witness:
  "\<exists>s'. invoke demo_env 0 (Meta_yaml_check 0 0 0 0 8) (ffi_init (demo_mem 0 []) :: nat ffi) =
     (META_BUFFER_TOO_SMALL, s') \<and> error_text s' 0 = []"
proof -
  let ?s = "ffi_init (demo_mem 0 []) :: nat ffi"
  obtain x s' where r: "invoke demo_env 0 (Meta_yaml_check 0 0 0 0 8) ?s = (x, s')" by fastforce
  moreover have "x = META_BUFFER_TOO_SMALL"
    using r by (auto simp: meta_yaml_check_v1_def run_defs from_utf8_def as_bytes_def)
  ultimately show ?thesis using call_status_and_threads [OF r] by simp
qed

text \<open>
  After a call returned \<^verbatim>\<open>META_ERROR\<close>, the thread reads its error text with
  \<^verbatim>\<open>meta_error_v1\<close>, as often as it likes: with room for the text the call succeeds, the text
  is in the buffer, its length is reported, and the text stays recorded.
\<close>

theorem error_text_readable:
  assumes "invoke env t call s = (META_ERROR, s')"
    and "n \<noteq> 0" "b \<noteq> 0" "length (error_text s' t) \<le> c"
  shows "\<exists>s''. invoke env' t (Meta_error b c n) s' = (META_OK, s'') \<and>
    load_bytes b (usize_at (mem s'') n) (mem s'') = as_bytes (error_text s' t) \<and>
    error_text s'' = error_text s'"
proof -
  let ?text = "as_bytes (error_text s' t)"
  let ?s = "s'\<lparr>mem := store_bytes b ?text (store_usize n (length ?text) (mem s'))\<rparr>"
  have "invoke env' t (Meta_error b c n) s' = (META_OK, ?s)"
    using assms by (simp add: meta_error_v1_def boundary_iff op_iffs abi_output_Done_iff)
  moreover have "load_bytes b (usize_at (mem ?s) n) (mem ?s) = ?text"
    using load_store_bytes [of b ?text "store_usize n (length ?text) (mem s')"] by simp
  ultimately show ?thesis by auto
qed

theorem error_text_readable_witness:
  "\<exists>s' s''. invoke demo_env 0 (Meta_start 1) (ffi_init (demo_mem 0 [])) = (META_ERROR, s') \<and>
     invoke demo_env 0 (Meta_error 100 64 8) s' = (META_OK, s'') \<and>
     load_bytes 100 (usize_at (mem s'') 8) (mem s'') = as_bytes ''invalid or destroyed core handle''"
proof -
  let ?s = "ffi_init (demo_mem 0 []) :: nat ffi"
  let ?s' = "?s\<lparr>error_text := (error_text ?s)(0 := ''invalid or destroyed core handle'')\<rparr>"
  have r: "invoke demo_env 0 (Meta_start 1) ?s = (META_ERROR, ?s')"
    by (simp add: meta_start_v1_def run_defs)
  from error_text_readable [OF r, of 8 100 64 demo_env] obtain s'' where
    "invoke demo_env 0 (Meta_error 100 64 8) ?s' = (META_OK, s'')"
    "load_bytes 100 (usize_at (mem s'') 8) (mem s'') = as_bytes ''invalid or destroyed core handle''"
    by auto
  with r show ?thesis by blast
qed

subsection \<open>Caller buffers\<close>

text \<open>The same call with another buffer.\<close>

fun retarget :: "nat \<Rightarrow> nat \<Rightarrow> meta_call \<Rightarrow> meta_call" where
  "retarget b c (Meta_decrypt_config d l p pl _ _ n) = Meta_decrypt_config d l p pl b c n"
| "retarget b c (Meta_encrypt_config d l p pl _ _ n) = Meta_encrypt_config d l p pl b c n"
| "retarget b c (Meta_custom_rule_targets d l _ _ n) = Meta_custom_rule_targets d l b c n"
| "retarget b c (Meta_custom_rules_apply d l r rl _ _ n) = Meta_custom_rules_apply d l r rl b c n"
| "retarget b c (Meta_overrides_apply d l r rl _ _ n) = Meta_overrides_apply d l r rl b c n"
| "retarget b c (Meta_yaml_check d l _ _ n) = Meta_yaml_check d l b c n"
| "retarget b c (Meta_cos_target d l _ _ n) = Meta_cos_target d l b c n"
| "retarget b c (Meta_drain_logs _ _ n) = Meta_drain_logs b c n"
| "retarget b c (Meta_error _ _ n) = Meta_error b c n"
| "retarget b c (Meta_snapshot i _ _ n) = Meta_snapshot i b c n"
| "retarget b c (Meta_status i _ _ n) = Meta_status i b c n"
| "retarget b c (Meta_test_route i d l _ _ n) = Meta_test_route i d l b c n"
| "retarget b c (Meta_dns_leak i online _ _ n) = Meta_dns_leak i online b c n"
| "retarget b c (Meta_read_packet i _ _ n) = Meta_read_packet i b c n"
| "retarget b c call = call"

text \<open>The two queries whose answer the core computes anew.\<close>

fun asks_core :: "meta_call \<Rightarrow> bool" where
  "asks_core (Meta_test_route i d l b c n) \<longleftrightarrow> True"
| "asks_core (Meta_dns_leak i online b c n) \<longleftrightarrow> online \<noteq> 0"
| "asks_core call \<longleftrightarrow> False"

lemma output_too_small:
  "abi_output bs b c n s = (Done META_BUFFER_TOO_SMALL, s') \<longleftrightarrow>
   n \<noteq> 0 \<and> c < length bs \<and> s' = s\<lparr>mem := store_usize n (length bs) (mem s)\<rparr>"
  by (auto simp: abi_output_Done_iff)

lemma output_fits:
  "b \<noteq> 0 \<Longrightarrow> abi_output bs b c n s = (Done META_OK, s') \<longleftrightarrow>
   n \<noteq> 0 \<and> length bs \<le> c \<and>
   s' = s\<lparr>mem := store_bytes b bs (store_usize n (length bs) (mem s))\<rparr>"
  by (auto simp: abi_output_Done_iff)

lemmas output_iffs =
  output_too_small [unfolded meta_status_defs] output_fits [unfolded meta_status_defs]

text \<open>A call that found its buffer too small did nothing but report the length.\<close>

definition retries :: "('c, 'k) env \<Rightarrow> nat \<Rightarrow> meta_call \<Rightarrow> nat \<Rightarrow> nat \<Rightarrow> bool" where
  "retries env t call c n \<longleftrightarrow>
     (\<forall>s s' b' c'. invoke env t call s = (META_BUFFER_TOO_SMALL, s') \<longrightarrow> b' \<noteq> 0 \<longrightarrow>
        usize_at (mem s') n \<le> c' \<longrightarrow>
        (\<exists>bs. n \<noteq> 0 \<and> c < length bs \<and> s' = s\<lparr>mem := store_usize n (length bs) (mem s)\<rparr> \<and>
          invoke env t (retarget b' c' call) s' =
            (META_OK, s'\<lparr>mem := store_bytes b' bs (mem s')\<rparr>)))"

lemma text_retries:
  "retries env t (Meta_yaml_check d l b c n) c n"
  "retries env t (Meta_cos_target d l b c n) c n"
  "retries env t (Meta_custom_rule_targets d l b c n) c n"
  "retries env t (Meta_custom_rules_apply d l p pl b c n) c n"
  "retries env t (Meta_overrides_apply d l p pl b c n) c n"
  "retries env t (Meta_error b c n) c n"
  unfolding retries_def
  by (auto simp: meta_yaml_check_v1_def meta_cos_target_v1_def meta_custom_rule_targets_v1_def
      meta_custom_rules_apply_v1_def meta_overrides_apply_v1_def meta_error_v1_def
      boundary_iff op_iffs output_iffs)
    (metis length_as_bytes)+

lemma crypto_retries:
  "retries env t (Meta_decrypt_config d l p pl b c n) c n"
  "retries env t (Meta_encrypt_config d l p pl b c n) c n"
  unfolding retries_def
  by (auto simp: meta_decrypt_config_v1_def meta_encrypt_config_v1_def
      boundary_iff op_iffs output_iffs Let_def)
    (metis length_as_bytes length_0_conv)+

lemma query_retries:
  "retries env t (Meta_snapshot i b c n) c n"
  "retries env t (Meta_status i b c n) c n"
  "retries env t (Meta_dns_leak i 0 b c n) c n"
  unfolding retries_def
  by (auto simp: meta_snapshot_v1_def meta_status_v1_def meta_dns_leak_v1_def
      boundary_iff op_iffs output_iffs Let_def)

lemma drain_retries:
  assumes "invoke env t (Meta_drain_logs b c n) s = (META_BUFFER_TOO_SMALL, s')"
    "b' \<noteq> 0" "usize_at (mem s') n \<le> c'"
  shows "\<exists>bs. n \<noteq> 0 \<and> c < length bs \<and> s' = s\<lparr>mem := store_usize n (length bs) (mem s)\<rparr> \<and>
    invoke env t (Meta_drain_logs b' c' n) s' =
      (META_OK, s'\<lparr>mem := store_bytes b' bs (mem s'), logs := (logs s')\<lparr>log_buffer := []\<rparr>\<rparr>)"
  using assms
  by (auto simp: meta_drain_logs_v1_def drain_def boundary_iff op_iffs output_iffs split: if_splits)

lemma asked_too_small:
  assumes "invoke env t call s = (META_BUFFER_TOO_SMALL, s')"
    "call = Meta_test_route i d l b c n \<or> call = Meta_dns_leak i online b c n"
  shows "n \<noteq> 0 \<and> c < usize_at (mem s') n \<and> mem s' = store_usize n (usize_at (mem s') n) (mem s)"
  using assms
  by (auto simp: meta_test_route_v1_def meta_dns_leak_v1_def boundary_iff op_iffs on_handle_Done_iff
      output_iffs Let_def split: if_splits)

lemma read_too_small:
  assumes "invoke env t (Meta_read_packet i b c n) s = (META_BUFFER_TOO_SMALL, s')"
  shows "\<exists>h p ps. n \<noteq> 0 \<and> \<not> poisoned s \<and> map_of (handles s) i = Some h \<and>
    packet_queue_enabled h \<and> unread (packet_output h) = p # ps \<and> c < length p \<and>
    s' = s\<lparr>mem := store_usize n (length p) (mem s),
           handles := AList.update i (filled h) (handles s)\<rparr>"
proof -
  have h: "n \<noteq> 0" "\<not> poisoned s" "\<exists>h. map_of (handles s) i = Some h \<and> packet_queue_enabled h"
    using assms
    by (auto simp: meta_read_packet_v1_def boundary_iff op_iffs check_packet_queue_Done_iff)
  then obtain h where h': "map_of (handles s) i = Some h" "packet_queue_enabled h" by blast
  let ?s0 = "s\<lparr>mem := store_usize n 0 (mem s), handles := AList.update i (filled h) (handles s)\<rparr>"
  have del: "deliver_packet i b c n ?s0 = (Done META_BUFFER_TOO_SMALL, s')"
    and "fst (packets_fill (packet_output h)) = Done True"
    using assms
    by (auto simp: read_queue_eq [OF h'(1) h(2) h'(2) h(1)] boundary_iff
        split: outcome.splits bool.splits)
  then obtain p ps where p: "unread (packet_output h) = p # ps"
    by (auto simp: packets_fill_True_iff neq_Nil_conv)
  have "c < length p \<and> s' = s\<lparr>mem := store_usize n (length p) (mem s),
      handles := AList.update i (filled h) (handles s)\<rparr>"
    using del pending_filled [OF p]
    by (auto simp: deliver_packet_def op_iffs on_handle_Some gets_def update_conv' update_triv
        output_iffs split: if_splits)
  with h h' p show ?thesis by blast
qed

lemma no_buffer_not_too_small:
  assumes "fp_lengths (footprint call) = {}"
  shows "fst (invoke env t call s) \<noteq> META_BUFFER_TOO_SMALL"
proof
  assume "fst (invoke env t call s) = META_BUFFER_TOO_SMALL"
  then obtain s' where "invoke env t call s = (META_BUFFER_TOO_SMALL, s')" by (metis prod.collapse)
  with assms show False
    by (cases call)
      (auto simp: no_output_def buffer_output_def boundary_iff op_iffs on_handle_Done_iff Let_def
        meta_custom_rule_validate_v1_def meta_cos_put_v1_def meta_prefetch_resources_v1_def
        meta_resources_state_v1_def meta_create_v1_def meta_create_packet_tunnel_v1_def abi_create_def
        create_registered_def meta_start_v1_def meta_stop_v1_def meta_destroy_v1_def
        meta_close_connections_v1_def meta_network_changed_v1_def meta_set_network_v1_def
        meta_set_tun_fd_v1_def meta_update_v1_def meta_select_v1_def meta_close_connection_v1_def
        meta_probe_v1_def meta_write_packet_v1_def handle_write_packet_eq
        split: if_splits option.splits)
qed

text \<open>Both halves of the contract, for a call with the buffer \<open>b\<close> of \<open>c\<close> bytes.\<close>

definition only_length :: "nat \<Rightarrow> nat \<Rightarrow> 'k ffi \<Rightarrow> 'k ffi \<Rightarrow> bool" where
  "only_length c n s s' \<longleftrightarrow>
     n \<noteq> 0 \<and> c < usize_at (mem s') n \<and> mem s' = store_usize n (usize_at (mem s') n) (mem s)"

definition retry_fits :: "('c, 'k) env \<Rightarrow> nat \<Rightarrow> meta_call \<Rightarrow> nat \<Rightarrow> 'k ffi \<Rightarrow> bool" where
  "retry_fits env t call n s' \<longleftrightarrow>
     (\<forall>b' c'. b' \<noteq> 0 \<longrightarrow> usize_at (mem s') n \<le> c' \<longrightarrow>
        (\<exists>s''. invoke env t (retarget b' c' call) s' = (META_OK, s'') \<and>
          usize_at (mem s'') n = usize_at (mem s') n))"

lemma retriesD:
  assumes "retries env t call c n" "invoke env t call s = (META_BUFFER_TOO_SMALL, s')"
  shows "only_length c n s s' \<and> retry_fits env t call n s'"
proof -
  have r: "\<exists>bs. n \<noteq> 0 \<and> c < length bs \<and> s' = s\<lparr>mem := store_usize n (length bs) (mem s)\<rparr> \<and>
      invoke env t (retarget b' c' call) s' = (META_OK, s'\<lparr>mem := store_bytes b' bs (mem s')\<rparr>)"
    if "b' \<noteq> 0" "usize_at (mem s') n \<le> c'" for b' c'
    using assms that unfolding retries_def by blast
  obtain bs :: "byte list" where bs: "n \<noteq> 0" "c < length bs" "s' = s\<lparr>mem := store_usize n (length bs) (mem s)\<rparr>"
    using r [OF one_neq_zero order_refl] by blast
  have "only_length c n s s'" using bs by (simp add: only_length_def)
  moreover have "retry_fits env t call n s'"
    unfolding retry_fits_def
  proof (intro allI impI)
    fix b' c' :: nat
    assume "b' \<noteq> 0" "usize_at (mem s') n \<le> c'"
    from r [OF this] obtain bs' where
      "invoke env t (retarget b' c' call) s' = (META_OK, s'\<lparr>mem := store_bytes b' bs' (mem s')\<rparr>)"
      by blast
    then show "\<exists>s''. invoke env t (retarget b' c' call) s' = (META_OK, s'') \<and>
        usize_at (mem s'') n = usize_at (mem s') n"
      by simp
  qed
  ultimately show ?thesis ..
qed

lemma drain_too_small:
  assumes "invoke env t (Meta_drain_logs b c n) s = (META_BUFFER_TOO_SMALL, s')"
  shows "only_length c n s s' \<and> retry_fits env t (Meta_drain_logs b c n) n s'"
proof -
  obtain bs :: "byte list" where bs: "n \<noteq> 0" "c < length bs" "s' = s\<lparr>mem := store_usize n (length bs) (mem s)\<rparr>"
    using drain_retries [OF assms one_neq_zero order_refl] by blast
  then have "only_length c n s s'" by (simp add: only_length_def)
  moreover have "retry_fits env t (Meta_drain_logs b c n) n s'"
    unfolding retry_fits_def
  proof (intro allI impI)
    fix b' c' :: nat
    assume "b' \<noteq> 0" "usize_at (mem s') n \<le> c'"
    from drain_retries [OF assms this] obtain bs' where
      "invoke env t (Meta_drain_logs b' c' n) s' =
        (META_OK, s'\<lparr>mem := store_bytes b' bs' (mem s'), logs := (logs s')\<lparr>log_buffer := []\<rparr>\<rparr>)"
      by blast
    then show "\<exists>s''. invoke env t (retarget b' c' (Meta_drain_logs b c n)) s' = (META_OK, s'') \<and>
        usize_at (mem s'') n = usize_at (mem s') n"
      by simp
  qed
  ultimately show ?thesis ..
qed

lemma read_packet_too_small:
  assumes "invoke env t (Meta_read_packet i b c n) s = (META_BUFFER_TOO_SMALL, s')"
  shows "only_length c n s s' \<and> retry_fits env t (Meta_read_packet i b c n) n s'"
proof -
  obtain h p ps where h: "n \<noteq> 0" "\<not> poisoned s" "map_of (handles s) i = Some h"
    "packet_queue_enabled h" "unread (packet_output h) = p # ps" "c < length p"
    and s': "s' = s\<lparr>mem := store_usize n (length p) (mem s),
      handles := AList.update i (filled h) (handles s)\<rparr>"
    using read_too_small [OF assms] by blast
  have "map_of (handles s') i = Some (filled h)" "\<not> poisoned s'" "packet_queue_enabled (filled h)"
    using h s' by (simp_all add: update_conv')
  note retry = read_packet_cases [OF this h(1), of _ env t]
  have "retry_fits env t (Meta_read_packet i b c n) n s'"
    unfolding retry_fits_def
  proof (intro allI impI)
    fix b' c' :: nat
    assume "b' \<noteq> 0" "usize_at (mem s') n \<le> c'"
    moreover have "usize_at (mem s') n = length p" using s' by simp
    ultimately show "\<exists>s''. invoke env t (retarget b' c' (Meta_read_packet i b c n)) s' = (META_OK, s'') \<and>
        usize_at (mem s'') n = usize_at (mem s') n"
      using h(5) retry [of b' c'] by (auto simp: Let_def simp del: invoke.simps)
  qed
  moreover have "only_length c n s s'" using h s' by (simp add: only_length_def)
  ultimately show ?thesis by blast
qed

lemma buffer_output_inject [simp]:
  "buffer_output b c n = buffer_output b' c' n' \<longleftrightarrow> b = b' \<and> c = c' \<and> n = n'"
  by (auto simp: buffer_output_def no_output_def)

lemma buffer_output_neq [simp]:
  "no_output \<noteq> buffer_output b c n"
  "no_output\<lparr>fp_u32 := x\<rparr> \<noteq> buffer_output b c n"
  "no_output\<lparr>fp_u64 := x\<rparr> \<noteq> buffer_output b c n"
  by (simp_all add: buffer_output_def no_output_def)

lemma too_small_cases:
  assumes "invoke env t call s = (META_BUFFER_TOO_SMALL, s')" "footprint call = buffer_output b c n"
  shows "only_length c n s s' \<and> (asks_core call \<or> retry_fits env t call n s')"
proof (cases call)
  case (Meta_decrypt_config d l p pl b' c' n')
  with assms show ?thesis using retriesD [OF crypto_retries(1) [of env t d l p pl b c n], of s s'] by simp
next
  case (Meta_encrypt_config d l p pl b' c' n')
  with assms show ?thesis using retriesD [OF crypto_retries(2) [of env t d l p pl b c n], of s s'] by simp
next
  case (Meta_custom_rule_targets d l b' c' n')
  with assms show ?thesis using retriesD [OF text_retries(3) [of env t d l b c n], of s s'] by simp
next
  case (Meta_custom_rules_apply d l p pl b' c' n')
  with assms show ?thesis using retriesD [OF text_retries(4) [of env t d l p pl b c n], of s s'] by simp
next
  case (Meta_overrides_apply d l p pl b' c' n')
  with assms show ?thesis using retriesD [OF text_retries(5) [of env t d l p pl b c n], of s s'] by simp
next
  case (Meta_yaml_check d l b' c' n')
  with assms show ?thesis using retriesD [OF text_retries(1) [of env t d l b c n], of s s'] by simp
next
  case (Meta_cos_target d l b' c' n')
  with assms show ?thesis using retriesD [OF text_retries(2) [of env t d l b c n], of s s'] by simp
next
  case (Meta_error b' c' n')
  with assms show ?thesis using retriesD [OF text_retries(6) [of env t b c n], of s s'] by simp
next
  case (Meta_snapshot i b' c' n')
  with assms show ?thesis using retriesD [OF query_retries(1) [of env t i b c n], of s s'] by simp
next
  case (Meta_status i b' c' n')
  with assms show ?thesis using retriesD [OF query_retries(2) [of env t i b c n], of s s'] by simp
next
  case (Meta_drain_logs b' c' n')
  with assms show ?thesis using drain_too_small [of env t b c n s s'] by simp
next
  case (Meta_read_packet i b' c' n')
  with assms show ?thesis using read_packet_too_small [of env t i b c n s s'] by simp
next
  case (Meta_test_route i d l b' c' n')
  with assms show ?thesis
    using asked_too_small [of env t call s s' i d l b c n 0] by (simp add: only_length_def)
next
  case (Meta_dns_leak i online b' c' n')
  with assms show ?thesis
    using asked_too_small [of env t call s s' i 0 0 b c n online]
      retriesD [OF query_retries(3) [of env t i b c n], of s s']
    by (cases "online = 0") (simp_all add: only_length_def)
qed (use assms in simp_all)

lemma too_small_has_buffer:
  assumes "invoke env t call s = (META_BUFFER_TOO_SMALL, s')"
  shows "\<exists>b c n. footprint call = buffer_output b c n"
  using no_buffer_not_too_small [of call env t s] assms
  by (cases call) (auto simp: no_output_def)



subsection \<open>Results that fit\<close>

definition emitted :: "nat \<Rightarrow> nat \<Rightarrow> nat \<Rightarrow> host_mem \<Rightarrow> host_mem \<Rightarrow> bool" where
  "emitted b c n m m' \<longleftrightarrow>
     (\<exists>bs. n \<noteq> 0 \<and> length bs \<le> c \<and> m' = store_bytes b bs (store_usize n (length bs) m))"

lemma emitted_length [simp]: "emitted b c n (store_usize n v m) m' = emitted b c n m m'"
  by (simp add: emitted_def)

lemma output_emits:
  assumes "abi_output bs b c n s = (Done 0, s')"
  shows "emitted b c n (mem s) (mem s')"
  unfolding emitted_def
  by (rule exI [of _ bs]) (use assms in \<open>auto simp: abi_output_Done_iff split: if_splits\<close>)

lemma drain_emits:
  assumes "invoke env t (Meta_drain_logs b c n) s = (META_OK, s')"
  shows "emitted b c n (mem s) (mem s')"
  using assms
  by (auto simp: meta_drain_logs_v1_def drain_def boundary_iff op_iffs dest!: output_emits
      split: if_splits)

lemma read_emits:
  assumes "invoke env t (Meta_read_packet i b c n) s = (META_OK, s')"
  shows "emitted b c n (mem s) (mem s')"
proof -
  have "n \<noteq> 0" "\<not> poisoned s" "\<exists>h. map_of (handles s) i = Some h \<and> packet_queue_enabled h"
    using assms
    by (auto simp: meta_read_packet_v1_def boundary_iff op_iffs check_packet_queue_Done_iff)
  then obtain h where h: "map_of (handles s) i = Some h" "\<not> poisoned s" "packet_queue_enabled h"
    "n \<noteq> 0" by blast
  let ?s0 = "s\<lparr>mem := store_usize n 0 (mem s), handles := AList.update i (filled h) (handles s)\<rparr>"
  have "deliver_packet i b c n ?s0 = (Done META_OK, s')"
    using assms by (auto simp: read_queue_eq [OF h] boundary_iff split: outcome.splits bool.splits)
  then show ?thesis
    by (auto simp: deliver_packet_def op_iffs dest!: output_emits on_handle_mem split: if_splits)
qed

lemma ok_emits:
  assumes "invoke env t call s = (META_OK, s')" "footprint call = buffer_output b c n"
  shows "emitted b c n (mem s) (mem s')"
proof (cases call)
  case (Meta_drain_logs b' c' n')
  with assms show ?thesis using drain_emits [of env t b c n s s'] by simp
next
  case (Meta_read_packet i b' c' n')
  with assms show ?thesis using read_emits [of env t i b c n s s'] by simp
qed (use assms in \<open>auto simp: boundary_iff op_iffs on_handle_Done_iff Let_def
      meta_decrypt_config_v1_def meta_encrypt_config_v1_def meta_custom_rule_targets_v1_def
      meta_custom_rules_apply_v1_def meta_overrides_apply_v1_def meta_yaml_check_v1_def
      meta_cos_target_v1_def meta_error_v1_def meta_snapshot_v1_def meta_status_v1_def
      meta_test_route_v1_def meta_dns_leak_v1_def
      dest!: output_emits split: if_splits\<close>)

text \<open>
  When a call with a caller buffer succeeds, the length it reports is within the capacity and
  no byte past that length is written: what the host reads with it is the whole result. With
  a null buffer of capacity zero, success thus means an empty result.
\<close>

theorem success_within_length:
  assumes "invoke env t call s = (META_OK, s')" "footprint call = buffer_output b c n"
  shows "usize_at (mem s') n \<le> c \<and>
    {a. u8_at (mem s') a \<noteq> u8_at (mem s) a} \<subseteq> {b..<b + usize_at (mem s') n}"
  using ok_emits [OF assms] by (auto simp: emitted_def store_bytes_def split: if_splits)

theorem success_within_length_witness:
  "\<exists>s'. invoke demo_env 0 (Meta_yaml_check 0 0 100 64 8) (ffi_init (demo_mem 0 []) :: nat ffi) =
     (META_OK, s') \<and> usize_at (mem s') 8 \<le> 64"
proof -
  let ?s = "ffi_init (demo_mem 0 []) :: nat ffi"
  obtain x s' where r: "invoke demo_env 0 (Meta_yaml_check 0 0 100 64 8) ?s = (x, s')" by fastforce
  moreover have "x = META_OK"
    using r by (auto simp: meta_yaml_check_v1_def run_defs from_utf8_def as_bytes_def)
  ultimately show ?thesis
    using success_within_length [of demo_env 0 "Meta_yaml_check 0 0 100 64 8" ?s s' 100 64 8]
    by simp
qed

end
