(* ===== verification/Ffi_Config_Calls.thy ===== *)
theory Ffi_Config_Calls
  imports Ffi_Buffers
begin

text \<open>
  The calls that work on configurations and logs: decryption never hands out text that is not
  a valid configuration, what was encrypted through the interface is decrypted through it, and
  draining the logs loses no line.
\<close>

subsection \<open>Encrypted configurations\<close>

lemma as_bytes_eq_Nil [simp]: "as_bytes s = [] \<longleftrightarrow> s = []"
  by (simp add: as_bytes_def)

text \<open>The plaintext that a decryption may hand out.\<close>

definition decrypts :: "('c, 'k) env \<Rightarrow> byte list \<Rightarrow> byte list \<Rightarrow> byte list \<Rightarrow> bool" where
  "decrypts env cipher password plain \<longleftrightarrow>
     (\<exists>pw cfg. from_utf8 password = Done pw \<and>
        crypto_decrypt (env_ciphers env) (filter (\<lambda>x. \<not> is_ascii_whitespace x) cipher) pw =
          Done plain \<and>
        Config_parse (env_config env) plain = Done cfg \<and> plain \<noteq> [] \<and> length plain \<le> LIMIT)"

lemma decrypt_reached:
  assumes "invoke env t (Meta_decrypt_config d l p pl b c n) s = (status, s')" "n \<noteq> 0"
  shows "status = META_ERROR \<and> mem s' = store_usize n 0 (mem s) \<or>
    (\<exists>plain. decrypts env (load_bytes d l (mem s)) (load_bytes p pl (mem s)) plain \<and>
      (if c < length plain
       then status = META_BUFFER_TOO_SMALL \<and> mem s' = store_usize n (length plain) (mem s)
       else status = META_OK \<and>
            mem s' = store_bytes b plain (store_usize n (length plain) (mem s))))"
proof -
  let ?s = "s\<lparr>mem := store_usize n 0 (mem s)\<rparr>"
  let ?m = "ensure (c = 0 \<or> b \<noteq> 0) ''invalid output buffer'' (
     andthen (input_with_limit d l (24 * 1024 * 1024)) (\<lambda>ciphertext.
     andthen (input_str p pl) (\<lambda>password.
     let ciphertext = filter (\<lambda>b. \<not> is_ascii_whitespace b) ciphertext in
     andthen (attempt (map_err ''cannot decrypt configuration: check password and format''
       (crypto_decrypt (env_ciphers env) ciphertext password))) (\<lambda>plaintext.
     ensure (plaintext \<noteq> [] \<and> length plaintext \<le> LIMIT)
       ''decrypted configuration is empty or exceeds 16 MiB'' (
     andthen (attempt (map_err ''cannot decrypt configuration: check password and format''
       (Config_parse (env_config env) plaintext))) (\<lambda>_.
     abi_output plaintext b c n))))))"
  let ?P = "\<lambda>r u. \<exists>plain. decrypts env (load_bytes d l (mem s)) (load_bytes p pl (mem s)) plain \<and>
    (c = 0 \<or> b \<noteq> 0) \<and> abi_output plain b c n ?s = (r, u)"
  have "ends ?m ?s ?P"
    unfolding Let_def
    by (intro ends_ensure ends_andthen endsI)
      (auto simp: op_iffs decrypts_def)
  moreover obtain r u where m: "?m ?s = (r, u)" by fastforce
  ultimately have ru: "u = ?s \<and> (\<forall>x. r \<noteq> Done x) \<or> ?P r u" unfolding ends_def by blast
  have call: "invoke env t (Meta_decrypt_config d l p pl b c n) s = boundary env t (\<lambda>_. (r, u)) s"
    using m assms(2) by (simp add: meta_decrypt_config_v1_def boundary_def ensure_def andthen_def)
  from ru show ?thesis
  proof
    assume "u = ?s \<and> (\<forall>x. r \<noteq> Done x)"
    with call assms show ?thesis by (cases r) (auto simp: boundary_def)
  next
    assume "?P r u"
    then obtain plain where
      dec: "decrypts env (load_bytes d l (mem s)) (load_bytes p pl (mem s)) plain"
      and cb: "c = 0 \<or> b \<noteq> 0" and out: "abi_output plain b c n ?s = (r, u)" by blast
    from out call assms have "if c < length plain
       then status = META_BUFFER_TOO_SMALL \<and> mem s' = store_usize n (length plain) (mem s)
       else status = META_OK \<and>
            mem s' = store_bytes b plain (store_usize n (length plain) (mem s))"
      unfolding abi_output_eq [OF assms(2) cb]
      by (cases "c < length plain") (auto simp: boundary_def split: prod.splits outcome.splits)
    with dec show ?thesis by blast
  qed
qed

text \<open>
  C4. Decrypting a configuration never exposes anything but a valid configuration: on success the
  buffer holds the decrypted text, which is not empty, has at most 16 MiB and was accepted by
  the configuration parser; on every error, wrong passwords and malformed input included, the
  length is zero and no byte was written.
\<close>

theorem decrypt_guarantees:
  assumes "invoke env t (Meta_decrypt_config d l p pl b c n) s = (status, s')" "n \<noteq> 0"
  shows "(status = META_ERROR \<longrightarrow>
      usize_at (mem s') n = 0 \<and> u8_at (mem s') = u8_at (mem s)) \<and>
    (status = META_OK \<longrightarrow>
      decrypts env (load_bytes d l (mem s)) (load_bytes p pl (mem s))
        (load_bytes b (usize_at (mem s') n) (mem s')))"
  using decrypt_reached [OF assms] by (auto simp: load_store_bytes split: if_splits)


text \<open>A configuration of one byte, at 100, with the password \<^verbatim>\<open>k\<close> at 101.\<close>

definition crypto_demo :: "nat ffi" where
  "crypto_demo = ffi_init (demo_mem 100 [0x78, 0x6B])"

lemma crypto_demo_inputs [simp]:
  "load_bytes 100 (Suc 0) (mem crypto_demo) = [0x78]"
  "load_bytes 101 (Suc 0) (mem crypto_demo) = [0x6B]"
  by (simp_all add: crypto_demo_def demo_mem_def store_bytes_def load_bytes_def)

lemma crypto_demo_password: "from_utf8 [0x6B] = Done ''k''"
  by code_simp

lemma crypto_demo_encrypt:
  "\<exists>s1. invoke demo_env 0 (Meta_encrypt_config 100 1 101 1 200 64 8) crypto_demo = (META_OK, s1) \<and>
     load_bytes 101 1 (mem s1) = [0x6B]"
proof -
  let ?out = "as_bytes (base64_encode toy_ciphers (cfb_encrypt toy_ciphers (crypto_key ''k'') crypto_IV [0x78]))"
  let ?m = "store_bytes 200 ?out (store_usize 8 (length ?out) (mem crypto_demo))"
  have "length ?out = 4" by (simp add: toy_ciphers_def)
  moreover have "load_bytes 101 1 ?m = [0x6B]"
    using crypto_demo_inputs(2) by (simp add: load_bytes_def)
  ultimately show ?thesis
    by (intro exI [of _ "crypto_demo\<lparr>mem := ?m\<rparr>"])
      (simp add: meta_encrypt_config_v1_def boundary_iff op_iffs crypto_demo_inputs
        crypto_demo_password LIMIT_def crypto_encrypt_def abi_output_Done_iff)
qed

theorem decrypt_guarantees_witness:
  "\<exists>s'. invoke demo_env 0 (Meta_decrypt_config 100 1 101 1 200 64 8) crypto_demo = (META_ERROR, s') \<and>
     usize_at (mem s') 8 = 0"
proof -
  obtain x s' where r: "invoke demo_env 0 (Meta_decrypt_config 100 1 101 1 200 64 8) crypto_demo = (x, s')"
    by fastforce
  moreover have "x = META_ERROR"
  proof (rule ccontr)
    assume "x \<noteq> META_ERROR"
    with r show False
      by (auto simp: meta_decrypt_config_v1_def boundary_iff op_iffs crypto_demo_inputs Let_def
          crypto_decrypt_def toy_ciphers_def is_ascii_whitespace_def)
  qed
  ultimately show ?thesis using decrypt_guarantees [OF r] by simp
qed


subsection \<open>Logs\<close>

lemma drain_logs_eq:
  assumes "n \<noteq> 0" "b \<noteq> 0"
  shows "invoke env t (Meta_drain_logs b c n) s =
    (let text = joined_lines (log_buffer (logs s)); s0 = s\<lparr>mem := store_usize n (length text) (mem s)\<rparr>
     in if c < length text then (META_BUFFER_TOO_SMALL, s0)
        else (META_OK, s0\<lparr>mem := store_bytes b text (mem s0), logs := (logs s)\<lparr>log_buffer := []\<rparr>\<rparr>))"
  using assms
  by (simp add: meta_drain_logs_v1_def drain_def boundary_def andthen_def gets_def abi_output_eq
      modify_def ret_def Let_def)

lemma push_lines: "log_buffer (fold push ls l) = fold push_line ls (log_buffer l)"
  by (induction ls arbitrary: l) simp_all

text \<open>
  Draining the logs: of the lines logged since the buffer was last empty, the host gets the
  latest 2000, in order and each ended by a newline, or none of them: when its buffer is too
  small, it is told the length that all of them need and all stay buffered.
\<close>

theorem logs_drained:
  assumes "log_buffer (logs s) = []" "n \<noteq> 0" "b \<noteq> 0"
    and "s1 = s\<lparr>logs := fold push ls (logs s)\<rparr>"
    and "invoke env t (Meta_drain_logs b c n) s1 = (status, s')"
  shows "usize_at (mem s') n = length (joined_lines (latest 2000 ls)) \<and>
    (if c < usize_at (mem s') n
     then status = META_BUFFER_TOO_SMALL \<and> logs s' = logs s1
     else status = META_OK \<and> log_buffer (logs s') = [] \<and>
          load_bytes b (usize_at (mem s') n) (mem s') = joined_lines (latest 2000 ls))"
proof -
  have "log_buffer (logs s1) = latest 2000 ls"
    using assms(1,4) push_lines_latest [of ls] by (simp add: push_lines CAPACITY_def)
  then show ?thesis
    using assms(5) unfolding drain_logs_eq [OF assms(2,3)]
    by (auto simp: Let_def load_store_bytes split: if_splits)
qed

theorem logs_drained_witness:
  "\<exists>s'. invoke demo_env 0 (Meta_drain_logs 100 64 8)
      ((ffi_init (demo_mem 0 []) :: nat ffi)\<lparr>logs := fold push [''a'', ''b''] (logs (ffi_init (demo_mem 0 []) :: nat ffi))\<rparr>) =
     (META_OK, s') \<and> load_bytes 100 (usize_at (mem s') 8) (mem s') = [0x61, 0x0A, 0x62, 0x0A]"
proof -
  let ?s = "ffi_init (demo_mem 0 []) :: nat ffi"
  obtain x s' where r: "invoke demo_env 0 (Meta_drain_logs 100 64 8)
      (?s\<lparr>logs := fold push [''a'', ''b''] (logs ?s)\<rparr>) = (x, s')" by fastforce
  have "joined_lines (latest 2000 [''a'', ''b'']) = [0x61, 0x0A, 0x62, 0x0A]"
    by (simp add: joined_lines_def latest_def as_bytes_def)
  moreover have "log_buffer (logs ?s) = []" by (simp add: ffi_init_def)
  ultimately show ?thesis using logs_drained [OF _ _ _ refl r] r by auto
qed

end
