(* ===== verification/Ffi_Lifecycle.thy ===== *)
theory Ffi_Lifecycle
  imports Ffi_Config_Calls
begin

text \<open>
  The life of cores behind their handles. A process runs as a list of events: calls of the
  host on any thread, with any environment, and between them the steps of the worker threads
  and of the core. Along every run the registry keeps its invariant, identifiers are never
  used again, and every handle only moves forward through its phases.
\<close>

subsection \<open>Runs\<close>

datatype ('c, 'k) event =
    Call "('c, 'k) env" nat meta_call
  | Core_sends meta_handle packet
  | Core_receives meta_handle nat
  | Core_works meta_handle "'k \<Rightarrow> 'k"
  | Core_stops meta_handle
  | Worker_ends meta_handle "('c, 'k) core_api" bool
  | Callback_begins nat
  | Callback_ends nat bool
  | Log_event "json \<Rightarrow> string" json level "(string \<times> string) list"

text \<open>A step of a worker on the handle \<open>i\<close>, if that handle is still there.\<close>

definition at_handle :: "meta_handle \<Rightarrow> ('k handle \<Rightarrow> 'k handle) \<Rightarrow> 'k ffi \<Rightarrow> 'k ffi" where
  "at_handle i f s =
     (case map_of (handles s) i of
        None \<Rightarrow> s
      | Some h \<Rightarrow> s\<lparr>handles := AList.update i (f h) (handles s)\<rparr>)"

definition core_sends :: "packet \<Rightarrow> 'k handle \<Rightarrow> 'k handle" where
  "core_sends p h =
     h\<lparr>packet_output :=
        snd (packets_send (hook_notify (handle_hooks h) \<noteq> None) p (packet_output h))\<rparr>"

definition core_receives :: "nat \<Rightarrow> 'k handle \<Rightarrow> 'k handle" where
  "core_receives room h =
     h\<lparr>packet_input := map_option (\<lambda>c. snd (packets_recv room c)) (packet_input h)\<rparr>"

definition worker_ends :: "('c, 'k) core_api \<Rightarrow> bool \<Rightarrow> 'k handle \<Rightarrow> 'k handle" where
  "worker_ends api panicked h = (if stopped h \<or> panicked then worker_exit api panicked h else h)"

primrec ffi_event :: "('c, 'k) event \<Rightarrow> 'k ffi \<Rightarrow> 'k ffi" where
  "ffi_event (Call env t call) s = snd (invoke env t call s)"
| "ffi_event (Core_sends i p) s = at_handle i (core_sends p) s"
| "ffi_event (Core_receives i room) s = at_handle i (core_receives room) s"
| "ffi_event (Core_works i f) s = at_handle i (\<lambda>h. h\<lparr>core := f (core h)\<rparr>) s"
| "ffi_event (Core_stops i) s = at_handle i (\<lambda>h. h\<lparr>stopped := True\<rparr>) s"
| "ffi_event (Worker_ends i api panicked) s = at_handle i (worker_ends api panicked) s"
| "ffi_event (Callback_begins t) s = s\<lparr>in_callback := (in_callback s)(t := snd (scope_enter (in_callback s t)))\<rparr>"
| "ffi_event (Callback_ends t previous) s =
     s\<lparr>in_callback := (in_callback s)(t := scope_drop previous (in_callback s t))\<rparr>"
| "ffi_event (Log_event to_string time l entries) s =
     s\<lparr>logs := log_event to_string time l entries (logs s)\<rparr>"

definition run :: "('c, 'k) event list \<Rightarrow> 'k ffi \<Rightarrow> 'k ffi" where
  "run evs s = fold ffi_event evs s"

lemma run_simps [simp]: "run [] s = s" "run (e # es) s = run es (ffi_event e s)"
  by (simp_all add: run_def)

lemma core_sends_le: "handle_le h (core_sends p h)"
  by (auto simp: core_sends_def packets_send_def try_send_def wake_queued_def handle_le_def
      handle_inv_def spent_def split: if_splits)

lemma core_receives_le: "handle_le h (core_receives room h)"
proof -
  have "length (items (snd (packets_recv room c))) \<le> length (items c)" for c
    by (simp add: packets_recv_def try_recv_def split: list.splits)
  then show ?thesis
    by (auto simp: core_receives_def handle_le_def handle_inv_def spent_def intro: le_trans)
qed

lemma worker_ends_le: "handle_le h (worker_ends api panicked h)"
  by (simp add: worker_ends_def worker_exit_le)

lemma at_handle_step: "(\<And>h. handle_le h (f h)) \<Longrightarrow> reg_step s (at_handle i f s)"
  by (auto simp: at_handle_def reg_step_refl split: option.splits intro: reg_step_update)

lemma ffi_event_step: "reg_step s (ffi_event e s)"
proof (cases e)
  case (Call env t call)
  then show ?thesis using invoke_reg_step by simp
qed (auto intro!: at_handle_step core_sends_le core_receives_le worker_ends_le
    simp: reg_step_frame [of _ s] reg_step_refl)

lemma run_step: "reg_step s (run evs s)"
proof (induction evs arbitrary: s)
  case (Cons e evs)
  then show ?case using ffi_event_step reg_step_trans by (fastforce simp del: ffi_event.simps)
qed (simp add: reg_step_refl)

lemma run_inv: "reg_inv s \<Longrightarrow> reg_inv (run evs s)"
  using run_step reg_stepD(1) by blast

lemma run_gone:
  "reg_inv s \<Longrightarrow> i < next_id s \<Longrightarrow> map_of (handles s) i = None \<Longrightarrow> map_of (handles (run evs s)) i = None"
  using run_step reg_stepD(3) by blast

lemma run_handle:
  "reg_inv s \<Longrightarrow> map_of (handles s) i = Some h \<Longrightarrow> map_of (handles (run evs s)) i = Some h' \<Longrightarrow>
   handle_le h h'"
  using run_step reg_stepD(4) by blast

text \<open>What holds of a handle and is kept as it moves forward holds of it ever after.\<close>

lemma run_forward:
  assumes "reg_inv s" "i < next_id s" "\<And>h. map_of (handles s) i = Some h \<Longrightarrow> P h"
    "\<And>h h'. handle_le h h' \<Longrightarrow> P h \<Longrightarrow> P h'" "map_of (handles (run evs s)) i = Some h'"
  shows "P h'"
proof (cases "map_of (handles s) i")
  case None
  with assms run_gone [OF assms(1,2) None, of evs] show ?thesis by simp
next
  case (Some h)
  then show ?thesis using assms(3-5) run_handle [OF assms(1) Some] by blast
qed

subsection \<open>Checked handles\<close>

text \<open>The one call on a handle that does not look it up: an update that updates nothing.\<close>

definition empty_update :: "('c, 'k) env \<Rightarrow> meta_call \<Rightarrow> 'k ffi \<Rightarrow> bool" where
  "empty_update env call s \<longleftrightarrow>
     (case call of
        Meta_update i d l \<Rightarrow> from_slice (env_json env) (load_bytes d l (mem s)) = Done (JObject [])
      | _ \<Rightarrow> False)"

lemma opt_value_Done_iff:
  "opt_value f v = Done r \<longleftrightarrow> (v = None \<and> r = None) \<or> (\<exists>x y. v = Some x \<and> f x = Done y \<and> r = Some y)"
  by (auto simp: opt_value_def split: option.splits outcome.splits)

lemma json_as_object_iff: "json_as_object v = Some obj \<longleftrightarrow> v = JObject obj"
  by (auto simp: json_as_object_def split: json.splits)

lemma case_option_Done_iff:
  "(case v of None \<Rightarrow> m | Some x \<Rightarrow> f x) s = (Done y, u) \<longleftrightarrow>
   v = None \<and> m s = (Done y, u) \<or> (\<exists>x. v = Some x \<and> f x s = (Done y, u))"
  by (simp split: option.splits)

lemma update_needs_handle:
  assumes "map_of (handles s) i = None" "invoke env t (Meta_update i d l) s = (x, s')"
    "x \<noteq> META_ERROR"
  shows "from_slice (env_json env) (load_bytes d l (mem s)) = Done (JObject [])"
proof -
  obtain obj where obj: "from_slice (env_json env) (load_bytes d l (mem s)) = Done (JObject obj)"
    and keys: "list_all (\<lambda>(k, _). k = ''mode'' \<or> k = ''rules'' \<or> k = ''adblock-allow'') obj"
    and none: "map_of obj ''adblock-allow'' = None" "map_of obj ''mode'' = None"
      "map_of obj ''rules'' = None"
    using assms
    by (auto simp: meta_update_v1_def boundary_iff op_iffs json_as_object_iff opt_value_Done_iff
        case_option_Done_iff split: if_splits)
  have "obj = []"
  proof (rule ccontr)
    assume "obj \<noteq> []"
    then obtain k v rest where "obj = (k, v) # rest" by (cases obj) auto
    with keys none show False by (auto split: if_splits)
  qed
  with obj show ?thesis by simp
qed

lemma unknown_handle_fails:
  assumes "map_of (handles s) i = None" "call_handle call = Some i" "\<not> empty_update env call s"
  shows "fst (invoke env t call s) = META_ERROR"
proof (rule ccontr)
  assume "fst (invoke env t call s) \<noteq> META_ERROR"
  then obtain x s' where r: "invoke env t call s = (x, s')" "x \<noteq> META_ERROR"
    by (metis prod.collapse)
  with assms show False
  proof (cases call)
    case (Meta_update j d l)
    with r assms show False using update_needs_handle [of s i env t d l x s']
      by (auto simp: empty_update_def)
  qed (auto simp: boundary_iff op_iffs Let_def
      meta_start_v1_def meta_stop_v1_def meta_destroy_v1_def
      meta_close_connections_v1_def meta_network_changed_v1_def meta_set_network_v1_def
      meta_set_tun_fd_v1_def meta_select_v1_def meta_close_connection_v1_def
      meta_probe_v1_def meta_write_packet_v1_def meta_snapshot_v1_def meta_status_v1_def
      meta_test_route_v1_def meta_dns_leak_v1_def meta_read_packet_v1_def)
qed

lemma destroyed_gone:
  assumes "invoke env t (Meta_destroy i) s = (META_OK, s')"
  shows "map_of (handles s') i = None \<and> next_id s' = next_id s \<and>
    (\<exists>h. map_of (handles s) i = Some h)"
  using assms by (auto simp: meta_destroy_v1_def boundary_iff op_iffs AList.delete_conv')

text \<open>
  C3. A destroyed handle never becomes valid again: whatever happens afterwards, on any thread and
  for however long, the handle is not in the registry and every call on it, apart from an
  update that contains no setting, returns \<^verbatim>\<open>META_ERROR\<close>.
\<close>

theorem destroyed_stays_invalid:
  assumes "reg_inv s" "invoke env t (Meta_destroy i) s = (META_OK, s')"
    and "call_handle call = Some i" "\<not> empty_update env' call (run evs s')"
  shows "map_of (handles (run evs s')) i = None \<and>
    fst (invoke env' t' call (run evs s')) = META_ERROR"
proof -
  have d: "map_of (handles s') i = None" "next_id s' = next_id s"
    "\<exists>h. map_of (handles s) i = Some h"
    using destroyed_gone [OF assms(2)] by blast+
  have "reg_inv s'" using invoke_reg_step [of s env t "Meta_destroy i"] assms(1,2)
    by (auto dest!: reg_stepD(1))
  moreover have "i < next_id s'" using d reg_inv_key [OF assms(1)] by auto
  ultimately have gone: "map_of (handles (run evs s')) i = None" using d(1) by (rule run_gone)
  with unknown_handle_fails [OF gone assms(3,4)] show ?thesis by simp
qed

theorem destroyed_stays_invalid_witness:
  "\<exists>s'. invoke demo_env 0 (Meta_destroy 1) (demo_state (demo_mem 0 []) demo_handle) = (META_OK, s') \<and>
     fst (invoke demo_env 1 (Meta_start 1)
       (run [Call demo_env 0 (Meta_create 0 0 0 8), Callback_begins 1] s')) = META_ERROR"
proof -
  let ?s = "demo_state (demo_mem 0 []) demo_handle"
  have inv: "reg_inv ?s"
    by (simp add: reg_inv_def demo_handle_def handle_inv_def MAX_HANDLES_def new_channel_def spent_def)
  obtain x s' where r: "invoke demo_env 0 (Meta_destroy 1) ?s = (x, s')" by fastforce
  have "x = META_OK"
    using r by (auto simp: meta_destroy_v1_def handle_shutdown_def run_defs worker_exit_def Let_def
        drop_packet_ends_def demo_handle_def)
  with r destroyed_stays_invalid [OF inv, of demo_env 0 1 s' "Meta_start 1" demo_env
      "[Call demo_env 0 (Meta_create 0 0 0 8), Callback_begins 1]" 1]
  show ?thesis by (simp add: empty_update_def)
qed

lemma init_inv: "reg_inv (ffi_init m)"
  by (simp add: reg_inv_def)

text \<open>
  C16. Along every run of the process, from its start and through any interleaving of calls and
  worker steps, there are at most 16 handles, their identifiers are distinct, not zero and
  below the next one, and every handle keeps its invariant: it has a packet queue only if TUN
  is enabled, neither packet queue holds more than 256 packets, it runs only after it was
  started or stopped, and once its worker was joined it is stopped for good.
\<close>

theorem registry_invariant: "reg_inv (run evs (ffi_init m))"
  by (rule run_inv [OF init_inv])

subsection \<open>Starting and stopping\<close>

lemma command_within_Done_iff:
  "command_within env cb m h = (Done x, h') \<longleftrightarrow>
   \<not> cb \<and> \<not> stopped h \<and> command_slot env = None \<and> reply env = Replied \<and> m h = (Done x, h')"
proof -
  obtain r h1 where m: "m h = (r, h1)" by fastforce
  show ?thesis
    by (cases r; cases "reply env"; cases "command_slot env")
      (auto simp: command_within_def op_iffs m)
qed

lemma start_with_packets_Done_iff:
  "start_with_packets api p h = (Done x, h') \<longleftrightarrow>
   core_tun_enable h = p \<and> \<not> spent h \<and>
   (\<exists>k. start_inner api (core h) = (Done (), k) \<and> h' = h\<lparr>lifecycle := True, core := k\<rparr>)"
  by (auto simp: start_with_packets_def spent_def Let_def split: prod.splits outcome.splits)

lemma start_iff:
  "invoke env t (Meta_start i) s = (META_OK, s') \<longleftrightarrow>
   \<not> poisoned s \<and> \<not> in_callback s t \<and> command_slot (env_worker env) = None \<and>
   reply (env_worker env) = Replied \<and>
   (\<exists>h k. map_of (handles s) i = Some h \<and> \<not> spent h \<and>
      core_tun_enable h = (packet_source h \<noteq> None) \<and>
      start_inner (env_core env) (core h) = (Done (), k) \<and>
      s' = s\<lparr>handles := AList.update i (h\<lparr>lifecycle := True, core := k, running := True\<rparr>) (handles s)\<rparr>)"
  by (auto simp: meta_start_v1_def boundary_iff op_iffs handle_start_def command_within_Done_iff
      worker_start_def start_with_packets_Done_iff spent_def)

text \<open>
  C22. A core starts at most once: after a successful \<^verbatim>\<open>meta_start_v1\<close>, and also after a core was
  stopped, no later start of that handle succeeds, whatever happens in between.
\<close>

theorem start_at_most_once:
  assumes "reg_inv s" "map_of (handles s) i = Some h" "spent h \<or> fst (invoke env t (Meta_start i) s) = META_OK"
  shows "fst (invoke env' t' (Meta_start i) (run evs (snd (invoke env t (Meta_start i) s)))) = META_ERROR"
proof -
  let ?s = "snd (invoke env t (Meta_start i) s)"
  have step: "reg_step s ?s" by (rule invoke_reg_step)
  have "spent h'" if h': "map_of (handles ?s) i = Some h'" for h'
  proof (cases "spent h")
    case True
    with reg_stepD(4) [OF step assms(1,2) h'] show ?thesis by (simp add: handle_le_def)
  next
    case False
    with assms(3) have "invoke env t (Meta_start i) s = (META_OK, ?s)" by (simp add: prod_eq_iff)
    with h' show ?thesis unfolding start_iff by (auto simp: update_conv' spent_def)
  qed
  moreover have "i < next_id ?s"
    using reg_inv_key [OF assms(1,2)] reg_stepD(2) [OF step assms(1)] by auto
  ultimately have "spent h'" if "map_of (handles (run evs ?s)) i = Some h'" for h'
    using run_forward [OF reg_stepD(1) [OF step assms(1)], of i spent] that
    by (auto simp: handle_le_def)
  then have "invoke env' t' (Meta_start i) (run evs ?s) \<noteq> (META_OK, u)" for u
    unfolding start_iff by blast
  moreover have "x = META_OK" if "invoke env' t' (Meta_start i) v = (x, u)" "x \<noteq> META_ERROR" for x u v
    using that by (auto simp: meta_start_v1_def boundary_iff op_iffs)
  ultimately show ?thesis by (metis prod.collapse)
qed

theorem start_at_most_once_witness:
  "fst (invoke demo_env 0 (Meta_start 1) (demo_state (demo_mem 0 []) demo_handle)) = META_OK \<and>
   fst (invoke demo_env 1 (Meta_start 1) (run [Core_sends 1 [1], Core_works 1 (\<lambda>k. k + 1)]
     (snd (invoke demo_env 0 (Meta_start 1) (demo_state (demo_mem 0 []) demo_handle))))) = META_ERROR"
proof -
  let ?s = "demo_state (demo_mem 0 []) demo_handle"
  have inv: "reg_inv ?s"
    by (simp add: reg_inv_def demo_handle_def handle_inv_def MAX_HANDLES_def new_channel_def spent_def)
  have "\<exists>s'. invoke demo_env 0 (Meta_start 1) ?s = (META_OK, s')"
    unfolding start_iff by (simp add: demo_handle_def spent_def demo_core_def)
  then have ok: "fst (invoke demo_env 0 (Meta_start 1) ?s) = META_OK" by (metis fst_conv)
  with start_at_most_once [OF inv, of 1 demo_handle demo_env 0 demo_env 1
      "[Core_sends 1 [1], Core_works 1 (\<lambda>k. k + 1)]"]
  show ?thesis by simp
qed

text \<open>The calls that the header calls lifecycle functions, and those that also refuse callbacks.\<close>

fun lifecycle_call :: "meta_call \<Rightarrow> bool" where
  "lifecycle_call (Meta_create d l hooks out_ptr) = True"
| "lifecycle_call (Meta_create_packet_tunnel d l p pl hooks out_ptr) = True"
| "lifecycle_call (Meta_start i) = True"
| "lifecycle_call (Meta_stop i) = True"
| "lifecycle_call (Meta_destroy i) = True"
| "lifecycle_call (Meta_network_changed i) = True"
| "lifecycle_call (Meta_set_tun_fd i fd) = True"
| "lifecycle_call call = False"

lemma with_handle_refused:
  assumes "\<And>h. \<exists>e. m h = (Fail e, h)"
  shows "\<exists>r. with_handle i m s = (r, s) \<and> (\<forall>x. r \<noteq> Done x)"
proof (cases "poisoned s \<or> map_of (handles s) i = None")
  case False
  then obtain h where h: "map_of (handles s) i = Some h" "\<not> poisoned s" by auto
  then show ?thesis using assms [of h] by (auto simp: with_handle_eq update_triv)
qed (auto simp: with_handle_eq)

lemma refused_in_callback:
  "\<exists>e. handle_start api w True h = (Fail e, h)"
  "\<exists>e. handle_set_fd api w True fd h = (Fail e, h)"
  "\<exists>e. handle_shutdown api w True h = (Fail e, h)"
  "\<exists>e. handle_network_changed True h = (Fail e, h)"
  by (simp_all add: handle_start_def handle_set_fd_def command_within_def handle_shutdown_def
      handle_network_changed_def check_lifecycle_def andthen_def ensure_def bail_def)

lemma refused_on_handle:
  "\<exists>r. with_handle i (handle_start api w True) s = (r, s) \<and> (\<forall>x. r \<noteq> Done x)"
  "\<exists>r. with_handle i (handle_set_fd api w True fd) s = (r, s) \<and> (\<forall>x. r \<noteq> Done x)"
  "\<exists>r. with_handle i (handle_shutdown api w True) s = (r, s) \<and> (\<forall>x. r \<noteq> Done x)"
  "\<exists>r. with_handle i (handle_network_changed True) s = (r, s) \<and> (\<forall>x. r \<noteq> Done x)"
  by (rule with_handle_refused, rule refused_in_callback)+

text \<open>
  C24. Lifecycle calls cannot run inside a callback: on a thread that is in one, creating, starting,
  stopping and destroying a core, and also reporting a network change and handing over a TUN
  descriptor, fail with \<^verbatim>\<open>META_ERROR\<close> and leave every handle and the identifiers as they
  were, whatever the arguments.
\<close>

theorem callbacks_refuse_lifecycle:
  assumes "in_callback s t" "lifecycle_call call"
  shows "fst (invoke env t call s) = META_ERROR \<and> handles (snd (invoke env t call s)) = handles s \<and>
    next_id (snd (invoke env t call s)) = next_id s"
  using assms(2)
proof (cases call)
  case (Meta_create d l hooks out_ptr)
  with assms(1) show ?thesis
    by (simp add: meta_create_v1_def abi_create_def boundary_def andthen_def ensure_def bail_def
        gets_def check_lifecycle_def)
next
  case (Meta_create_packet_tunnel d l p pl hooks out_ptr)
  with assms(1) show ?thesis
    by (simp add: meta_create_packet_tunnel_v1_def abi_create_def boundary_def andthen_def ensure_def
        bail_def gets_def check_lifecycle_def)
next
  case (Meta_start i)
  with assms(1) refused_on_handle(1) [of i "env_core env" "env_worker env" s]
  show ?thesis
    by (auto simp: meta_start_v1_def boundary_def andthen_def caller_in_callback_def gets_def
        split: outcome.splits)
next
  case (Meta_stop i)
  with assms(1) refused_on_handle(3) [of i "env_core env" "env_worker env" s]
  show ?thesis
    by (auto simp: meta_stop_v1_def boundary_def andthen_def caller_in_callback_def gets_def
        split: outcome.splits)
next
  case (Meta_destroy i)
  with assms(1) refused_on_handle(3) [of i "env_core env" "env_worker env" s]
  show ?thesis
    by (auto simp: meta_destroy_v1_def boundary_def andthen_def caller_in_callback_def gets_def
        split: outcome.splits)
next
  case (Meta_network_changed i)
  with assms(1) refused_on_handle(4) [of i s] show ?thesis
    by (auto simp: meta_network_changed_v1_def boundary_def andthen_def caller_in_callback_def
        gets_def split: outcome.splits)
next
  case (Meta_set_tun_fd i fd)
  note defs = meta_set_tun_fd_v1_def boundary_def andthen_def caller_in_callback_def gets_def
    attempt_def ensure_def bail_def
  show ?thesis
  proof (cases "clone_fd env fd")
    case (Done x)
    obtain r where "with_handle i (handle_set_fd (env_core env) (env_worker env) True x) s = (r, s)"
      "\<forall>y. r \<noteq> Done y" using refused_on_handle(2) by blast
    with assms(1) Meta_set_tun_fd Done show ?thesis by (cases r) (simp_all add: defs)
  qed (use assms(1) Meta_set_tun_fd in \<open>simp_all add: defs\<close>)
qed simp_all

theorem callbacks_refuse_lifecycle_witness:
  "fst (invoke demo_env 3 (Meta_stop 1)
     (run [Callback_begins 3] (demo_state (demo_mem 0 []) demo_handle) :: nat ffi)) = META_ERROR"
proof -
  let ?s = "run [Callback_begins 3 :: (unit, nat) event] (demo_state (demo_mem 0 []) demo_handle)"
  have "in_callback ?s 3" by (simp add: scope_enter_def)
  from callbacks_refuse_lifecycle [OF this, of "Meta_stop 1" demo_env]
  show ?thesis by (simp add: scope_enter_def)
qed

definition joined :: "'k handle \<Rightarrow> bool" where
  "joined h \<longleftrightarrow> stopped h \<and> \<not> running h \<and> \<not> worker h \<and> senders_gone (receiver (packet_output h))"

lemma shutdown_Done:
  assumes "handle_shutdown api w cb h = (Done x, h')" "handle_inv h"
  shows "joined h'"
  using assms
  by (auto simp: handle_shutdown_def op_iffs worker_exit_def drop_packet_ends_def joined_def Let_def
      handle_inv_def split: if_splits)

lemma stop_joins_now:
  assumes "reg_inv s" "invoke env t (Meta_stop i) s = (META_OK, s')"
  shows "\<exists>h h'. map_of (handles s) i = Some h \<and> map_of (handles s') i = Some h' \<and> joined h'"
proof -
  obtain h h' where h: "map_of (handles s) i = Some h"
      "handle_shutdown (env_core env) (env_worker env) (in_callback s t) h = (Done (), h')"
      "s' = s\<lparr>handles := AList.update i h' (handles s)\<rparr>"
    using assms(2) by (auto simp: meta_stop_v1_def boundary_iff op_iffs)
  then have "joined h'" using shutdown_Done reg_inv_key [OF assms(1)] by blast
  with h show ?thesis by (auto simp: update_conv')
qed

lemma joined_forward:
  assumes "handle_le h h'" "handle_inv h \<and> \<not> worker h"
  shows "handle_inv h' \<and> \<not> worker h'"
  using assms by (simp add: handle_le_def)

lemma not_worker_joined: "handle_inv h \<Longrightarrow> \<not> worker h \<Longrightarrow> joined h"
  by (simp add: handle_inv_def joined_def)

lemma stopped_refuses:
  assumes "map_of (handles s) i = Some h" "stopped h"
  shows "fst (invoke env t (Meta_start i) s) = META_ERROR"
    "fst (invoke env t (Meta_network_changed i) s) = META_ERROR"
    "fst (invoke env t (Meta_write_packet i d l) s) = META_ERROR"
proof -
  have "x = META_ERROR" if "invoke env t (Meta_start i) s = (x, s')" for x s'
    using that assms
    by (cases "x = META_ERROR")
      (auto simp: meta_start_v1_def boundary_iff op_iffs handle_start_def command_within_Done_iff)
  then show "fst (invoke env t (Meta_start i) s) = META_ERROR" by (metis prod.collapse)
  have "x = META_ERROR" if "invoke env t (Meta_network_changed i) s = (x, s')" for x s'
    using that assms
    by (cases "x = META_ERROR")
      (auto simp: meta_network_changed_v1_def boundary_iff op_iffs handle_network_changed_def)
  then show "fst (invoke env t (Meta_network_changed i) s) = META_ERROR" by (metis prod.collapse)
  have "x = META_ERROR" if "invoke env t (Meta_write_packet i d l) s = (x, s')" for x s'
    using that assms
    by (cases "x = META_ERROR")
      (auto simp: meta_write_packet_v1_def boundary_iff op_iffs handle_write_packet_eq)
  then show "fst (invoke env t (Meta_write_packet i d l) s) = META_ERROR" by (metis prod.collapse)
qed

lemma stop_again:
  assumes "map_of (handles s) i = Some h" "joined h" "\<not> in_callback s t" "\<not> poisoned s"
  shows "invoke env t (Meta_stop i) s = (META_OK, s)"
proof -
  have "handle_shutdown (env_core env) (env_worker env) False h = (Done (), h)"
    using assms(2) by (simp add: handle_shutdown_def op_iffs joined_def)
  with assms show ?thesis
    by (auto simp: meta_stop_v1_def boundary_iff op_iffs update_triv)
qed

text \<open>
  C23. Stopping joins the worker: after a successful \<^verbatim>\<open>meta_stop_v1\<close> the core is stopped, its
  worker is joined and does not run, and no end of the packet queues is left to it. That stays
  so for as long as the handle lives, and in that time the host can neither start the core,
  write packets to it, nor report network changes, while stopping it again succeeds.
\<close>

theorem stop_is_final:
  assumes "reg_inv s" "invoke env t (Meta_stop i) s = (META_OK, s')"
    and "map_of (handles (run evs s')) i = Some h"
  shows "joined h \<and>
    fst (invoke env' t' (Meta_start i) (run evs s')) = META_ERROR \<and>
    fst (invoke env' t' (Meta_write_packet i d l) (run evs s')) = META_ERROR \<and>
    fst (invoke env' t' (Meta_network_changed i) (run evs s')) = META_ERROR \<and>
    (in_callback (run evs s') t' \<or> poisoned (run evs s') \<or>
     invoke env' t' (Meta_stop i) (run evs s') = (META_OK, run evs s'))"
proof -
  obtain h0 h1 where h1: "map_of (handles s) i = Some h0" "map_of (handles s') i = Some h1" "joined h1"
    using stop_joins_now [OF assms(1,2)] by blast
  have inv: "reg_inv s'"
    using reg_stepD(1) [OF invoke_reg_step assms(1), of env t "Meta_stop i"] assms(2) by simp
  have "handle_inv h \<and> \<not> worker h"
    using run_forward [OF inv, of i "\<lambda>h. handle_inv h \<and> \<not> worker h" evs h] joined_forward
      reg_inv_key [OF inv h1(2)] h1 assms(3) by (auto simp: joined_def)
  then have "joined h" by (simp add: not_worker_joined)
  with stopped_refuses [OF assms(3), of env' t'] stop_again [OF assms(3), of t' env'] show ?thesis
    by (auto simp: joined_def)
qed

theorem stop_is_final_witness:
  "\<exists>s' h. invoke demo_env 0 (Meta_stop 1) (demo_state (demo_mem 0 []) demo_handle) = (META_OK, s') \<and>
     map_of (handles (run [Core_sends 1 [7]] s')) 1 = Some h \<and> joined h \<and>
     fst (invoke demo_env 0 (Meta_start 1) (run [Core_sends 1 [7]] s')) = META_ERROR"
proof -
  let ?s = "demo_state (demo_mem 0 []) demo_handle"
  let ?evs = "[Core_sends 1 [7]] :: (unit, nat) event list"
  have inv: "reg_inv ?s"
    by (simp add: reg_inv_def demo_handle_def handle_inv_def MAX_HANDLES_def new_channel_def spent_def)
  obtain x s' where r: "invoke demo_env 0 (Meta_stop 1) ?s = (x, s')" by fastforce
  have x: "x = META_OK"
    using r by (auto simp: meta_stop_v1_def handle_shutdown_def run_defs worker_exit_def Let_def
        drop_packet_ends_def demo_handle_def)
  then obtain h0 where "map_of (handles s') 1 = Some h0"
    using r stop_joins_now [OF inv, of demo_env 0 1 s'] by auto
  then have h: "map_of (handles (run ?evs s')) 1 = Some (core_sends [7] h0)"
    by (simp add: at_handle_def update_conv')
  with r x stop_is_final [OF inv _ h, of demo_env 0 demo_env 0] show ?thesis by auto
qed

end
