(* ===== verification/Ffi_Create.thy ===== *)
theory Ffi_Create
  imports Ffi_Lifecycle
begin

text \<open>
  Creating cores: what \<^verbatim>\<open>meta_create_v1\<close> and \<^verbatim>\<open>meta_create_packet_tunnel_v1\<close> return and register,
  which configuration a packet tunnel gets, and the phases every core goes through. The last
  part states where the behaviour differs from what the header says.
\<close>

subsection \<open>Operations that change nothing when they fail\<close>

definition fails_keep :: "('s \<Rightarrow> 's \<Rightarrow> bool) \<Rightarrow> ('s, 'a) io \<Rightarrow> bool" where
  "fails_keep R m \<longleftrightarrow> (\<forall>s r s'. m s = (r, s') \<longrightarrow> (\<forall>x. r \<noteq> Done x) \<longrightarrow> R s s')"

lemma fails_keepD: "fails_keep R m \<Longrightarrow> m s = (r, s') \<Longrightarrow> (\<And>x. r \<noteq> Done x) \<Longrightarrow> R s s'"
  by (simp add: fails_keep_def)

lemma fails_keep_andthen:
  assumes "progress_order R" "keeps R m" "\<And>x. fails_keep R (f x)"
  shows "fails_keep R (andthen m f)"
  unfolding fails_keep_def
proof (intro allI impI)
  fix s r s'
  assume run: "andthen m f s = (r, s')" "\<forall>x. r \<noteq> Done x"
  obtain r1 s1 where m: "m s = (r1, s1)" by fastforce
  then have "R s s1" using keepsD [OF assms(2), of s] by simp
  moreover have "R s1 s'" if "r1 = Done x" for x
    using run m that fails_keepD [OF assms(3)] by (simp add: andthen_def)
  moreover have "s' = s1" if "\<And>x. r1 \<noteq> Done x" using run m that by (cases r1) (auto simp: andthen_def)
  ultimately show "R s s'"
    using assms(1) by (cases r1) (auto simp: progress_order_def dest: transpD)
qed

lemma fails_keep_ensure:
  "progress_order R \<Longrightarrow> fails_keep R m \<Longrightarrow> fails_keep R (ensure c e m)"
  by (auto simp: fails_keep_def ensure_def bail_def progress_order_def dest: reflpD)

subsection \<open>Creation\<close>

definition same_registry :: "'k ffi \<Rightarrow> 'k ffi \<Rightarrow> bool" where
  "same_registry s s' \<longleftrightarrow> handles s' = handles s \<and> u64_at (mem s') = u64_at (mem s)"

lemma same_registry_order: "progress_order same_registry"
  by (auto simp: progress_order_def reflp_def transp_def same_registry_def)

lemma reads_keep:
  assumes "progress_order R"
  shows "keeps R (abi_input d l)" "keeps R (input_str d l)" "keeps R (attempt r)"
    "keeps R (gets g)" "keeps R (check_lifecycle cb)"
  using assms by (auto simp: keeps_def progress_order_def dest: reflpD)

lemma logs_keep: "keeps same_registry (modify (\<lambda>s. s\<lparr>logs := f s\<rparr>))"
  by (rule keeps_modify) (simp add: same_registry_def)

lemma create_registered_fails: "fails_keep same_registry (create_registered env out_ptr config hooks)"
  unfolding fails_keep_def
proof (intro allI impI)
  fix s r s'
  let ?h = "Handle_new (env_target env) (env_core env) config hooks"
  assume run: "create_registered env out_ptr config hooks s = (r, s')" "\<forall>x. r \<noteq> Done x"
  note defs = create_registered_def lock_handles_def take_id_def register_def andthen_def gets_def
    panic_def ret_def ensure_def bail_def same_registry_def
  show "same_registry s s'"
  proof (cases "poisoned s \<or> \<not> length (handles s) < MAX_HANDLES \<or> next_id s = - 1")
    case True
    with run show ?thesis by (auto simp: defs split: if_splits)
  next
    case False
    with run show ?thesis by (cases ?h) (auto simp: defs)
  qed
qed

lemma host_directory_keeps: "keeps same_registry (host_directory env directory config)"
  unfolding host_directory_def
  by (auto intro!: keeps_rules logs_keep reads_keep same_registry_order split: option.splits)

lemma host_hooks_keeps: "keeps same_registry (host_hooks_input env hooks)"
  unfolding host_hooks_input_def by (auto intro!: keeps_rules same_registry_order)

text \<open>\<^verbatim>\<open>create\<close> from its check of the callback flag on.\<close>

definition create_tail ::
    "('c, 'k) env \<Rightarrow> nat \<Rightarrow> nat \<Rightarrow> nat \<Rightarrow> nat \<Rightarrow> nat \<Rightarrow> (nat \<times> nat) option \<Rightarrow> ('k ffi, int) io" where
  "create_tail env t data len hooks out_ptr directory =
     andthen (gets (\<lambda>s. in_callback s t)) (\<lambda>cb.
     andthen (check_lifecycle cb) (\<lambda>_.
     andthen (abi_input data len) (\<lambda>bytes.
     andthen (attempt (Config_parse (env_config env) bytes)) (\<lambda>config.
     andthen (modify (\<lambda>s. s\<lparr>logs := logs_init (cfg_log_level config) (logs s)\<rparr>)) (\<lambda>_.
     andthen (host_directory env directory config) (\<lambda>config.
     andthen (host_hooks_input env hooks) (\<lambda>hooks.
     create_registered env out_ptr config hooks)))))))"

lemma abi_create_tail:
  assumes "out_ptr \<noteq> 0"
  shows "abi_create env t data len hooks out_ptr directory s =
    boundary env t (\<lambda>_. create_tail env t data len hooks out_ptr directory
      (s\<lparr>mem := store_u64 out_ptr 0 (mem s)\<rparr>)) s"
  using assms by (simp add: abi_create_def create_tail_def boundary_def andthen_def ensure_def)

lemma create_tail_fails:
  "fails_keep same_registry (create_tail env t data len hooks out_ptr directory)"
  unfolding create_tail_def
  by (intro fails_keep_andthen same_registry_order host_directory_keeps host_hooks_keeps
      create_registered_fails reads_keep logs_keep)

lemma host_directory_Done:
  assumes "host_directory env directory config s = (Done config', s')"
  shows "same_registry s s' \<and> poisoned s' = poisoned s \<and> next_id s' = next_id s \<and>
    (case directory of
       None \<Rightarrow> config' = config
     | Some (p, pl) \<Rightarrow>
         \<exists>path. from_utf8 (load_bytes p pl (mem s)) = Done path \<and> path_is_absolute path \<and>
           path_is_dir env path \<and> config' = packet_tunnel_config path config)"
  using assms
  by (auto simp: host_directory_def op_iffs same_registry_def split: option.splits)

lemma host_hooks_Done: "host_hooks_input env hooks s = (Done h, s') \<Longrightarrow> s' = s"
  by (auto simp: host_hooks_input_def op_iffs split: if_splits)

lemma create_tail_Done:
  assumes "create_tail env t data len hooks out_ptr directory s = (Done x, s')"
  obtains config config' hooks' h where
    "x = META_OK" "Config_parse (env_config env) (load_bytes data len (mem s)) = Done config"
    "case directory of
       None \<Rightarrow> config' = config
     | Some (p, pl) \<Rightarrow>
         \<exists>path. from_utf8 (load_bytes p pl (mem s)) = Done path \<and> path_is_absolute path \<and>
           path_is_dir env path \<and> config' = packet_tunnel_config path config"
    "Handle_new (env_target env) (env_core env) config' hooks' = Done h"
    "length (handles s) < MAX_HANDLES" "next_id s \<noteq> - 1" "next_id s' = next_id s + 1"
    "handles s' = AList.update (next_id s) h (handles s)" "u64_at (mem s') out_ptr = next_id s"
proof -
  obtain config s1 config' s2 hooks' where
    parse: "Config_parse (env_config env) (load_bytes data len (mem s)) = Done config"
    and s1: "s1 = s\<lparr>logs := logs_init (cfg_log_level config) (logs s)\<rparr>"
    and dir: "host_directory env directory config s1 = (Done config', s2)"
    and reg: "create_registered env out_ptr config' hooks' s2 = (Done x, s')"
    using assms by (auto simp: create_tail_def op_iffs dest!: host_hooks_Done)
  note d = host_directory_Done [OF dir]
  obtain h where h: "Handle_new (env_target env) (env_core env) config' hooks' = Done h"
    "length (handles s2) < MAX_HANDLES" "next_id s2 \<noteq> - 1" "x = META_OK"
    "s' = s2\<lparr>next_id := next_id s2 + 1, handles := AList.update (next_id s2) h (handles s2),
       mem := store_u64 out_ptr (next_id s2) (mem s2)\<rparr>"
    using reg
    by (auto simp: create_registered_def op_iffs take_id_def register_def split: if_splits outcome.splits)
  show thesis
    by (rule that [of config config' hooks' h])
      (use parse d h s1 in \<open>auto simp: same_registry_def store_u64_def split: option.splits\<close>)
qed

definition create_call :: "nat \<Rightarrow> meta_call \<Rightarrow> bool" where
  "create_call out_ptr call \<longleftrightarrow>
     (case call of
        Meta_create d l hooks p \<Rightarrow> p = out_ptr
      | Meta_create_packet_tunnel d l q ql hooks p \<Rightarrow> p = out_ptr
      | _ \<Rightarrow> False)"

lemma create_call_tail:
  assumes "create_call out_ptr call" "out_ptr \<noteq> 0"
  obtains data len hooks directory where
    "\<And>s. invoke env t call s = boundary env t (\<lambda>_. create_tail env t data len hooks out_ptr directory
      (s\<lparr>mem := store_u64 out_ptr 0 (mem s)\<rparr>)) s"
  using assms
  by (auto simp: create_call_def meta_create_v1_def meta_create_packet_tunnel_v1_def
      abi_create_tail [OF assms(2)] split: meta_call.splits)

lemma new_handle_fresh: "Handle_new tgt api config hooks = Done h \<Longrightarrow> \<not> spent h \<and> worker h"
  by (auto simp: Handle_new_def spent_def Let_def split: if_splits outcome.splits)

lemma boundary_outcome:
  assumes "boundary env t (\<lambda>_. (r, u)) s = (x, s')"
  shows "mem s' = mem u" "handles s' = handles u" "next_id s' = next_id u"
    "r = Done y \<Longrightarrow> x = y" "(\<And>y. r \<noteq> Done y) \<Longrightarrow> x = META_ERROR"
  using assms by (auto simp: boundary_def split: outcome.splits)

text \<open>
  C32. Creating a core either succeeds, with fewer than 16 handles before, and returns through its
  output pointer an identifier that no handle has or ever had, under which a fresh core (not
  started, its worker running) is now registered; or it fails with \<^verbatim>\<open>META_ERROR\<close>, the output
  is zero, and the registry is as it was.
\<close>

theorem create_spec:
  assumes "reg_inv s" "create_call out_ptr call" "out_ptr \<noteq> 0"
    and "invoke env t call s = (status, s')"
  shows "if status = META_OK
    then \<exists>h. u64_at (mem s') out_ptr = next_id s \<and> next_id s \<noteq> 0 \<and> next_id s < next_id s' \<and>
      map_of (handles s) (next_id s) = None \<and> length (handles s) < 16 \<and>
      handles s' = handles s @ [(next_id s, h)] \<and> \<not> spent h \<and> worker h
    else status = META_ERROR \<and> u64_at (mem s') out_ptr = 0 \<and> handles s' = handles s"
proof -
  let ?s = "s\<lparr>mem := store_u64 out_ptr 0 (mem s)\<rparr>"
  obtain data len hooks directory where call: "invoke env t call s =
      boundary env t (\<lambda>_. create_tail env t data len hooks out_ptr directory ?s) s"
    using create_call_tail [OF assms(2,3), of env t] by metis
  obtain r u where m: "create_tail env t data len hooks out_ptr directory ?s = (r, u)" by fastforce
  note out = boundary_outcome [OF assms(4) [unfolded call m]]
  show ?thesis
  proof (cases "\<exists>x. r = Done x")
    case True
    then obtain x where r: "r = Done x" by blast
    obtain config config' hooks' h where h: "x = META_OK"
      "Handle_new (env_target env) (env_core env) config' hooks' = Done h"
      "length (handles ?s) < MAX_HANDLES" "next_id ?s \<noteq> - 1" "next_id u = next_id ?s + 1"
      "handles u = AList.update (next_id ?s) h (handles ?s)" "u64_at (mem u) out_ptr = next_id ?s"
      by (rule create_tail_Done [OF m [unfolded r]]) blast
    have fresh: "map_of (handles s) (next_id s) = None"
      using reg_inv_key [OF assms(1), of "next_id s"] by (cases "map_of (handles s) (next_id s)") auto
    have "next_id s < next_id s + 1" using h(4) by (intro word_less_Suc) simp
    with h r out fresh new_handle_fresh [OF h(2)] assms(1) show ?thesis
      by (auto simp: update_fresh reg_inv_def MAX_HANDLES_def)
  next
    case False
    then have "same_registry ?s u" using fails_keepD [OF create_tail_fails m] by blast
    with False out show ?thesis by (auto simp: same_registry_def store_u64_def)
  qed
qed

theorem create_spec_witness:
  "\<exists>s'. invoke demo_env 0 (Meta_create 100 1 0 8) (ffi_init (demo_mem 100 [0x78])) = (META_OK, s') \<and>
     u64_at (mem s') 8 = 1"
proof -
  let ?s = "ffi_init (demo_mem 100 [0x78]) :: nat ffi"
  obtain x s' where r: "invoke demo_env 0 (Meta_create 100 1 0 8) ?s = (x, s')" by fastforce
  have "create_call 8 (Meta_create 100 1 0 8)" by (simp add: create_call_def)
  moreover have "x = META_OK"
    using r demo_create
    by (auto simp: meta_create_v1_def abi_create_def create_registered_def host_directory_def
        host_hooks_input_def take_id_def register_def run_defs LIMIT_def MAX_HANDLES_def load_bytes_def)
  ultimately show ?thesis using create_spec [OF init_inv _ _ r, of 8] r by auto
qed

text \<open>
  C33. A packet tunnel forces the settings that the header lists, whatever the configuration says:
  the core is made from a configuration with packet I/O and TUN enabled, MTU 1280, DNS
  interception on every address, no local listener, controller or log file, and no change of
  routes, DNS or interfaces, in the given directory, which is absolute and exists. Everything
  else, credentials and routing policy included, is the host's configuration unchanged.
\<close>

theorem packet_tunnel_forced:
  assumes "invoke env t (Meta_create_packet_tunnel d l p pl hooks out_ptr) s = (META_OK, s')"
    and "out_ptr \<noteq> 0"
  shows "\<exists>config config' hooks' h path.
    Config_parse (env_config env) (load_bytes d l (mem s)) = Done config \<and>
    Handle_new (env_target env) (env_core env) config' hooks' = Done h \<and>
    map_of (handles s') (u64_at (mem s') out_ptr) = Some h \<and>
    path_is_absolute path \<and> path_is_dir env path \<and> as_bytes path = load_bytes p pl (mem s) \<and>
    cfg_directory config' = path \<and> cfg_internal_host_packet_io config' \<and>
    cfg_port config' = 0 \<and> cfg_socks_port config' = 0 \<and> cfg_mixed_port config' = 0 \<and>
    \<not> cfg_allow_lan config' \<and> cfg_external_controller config' = None \<and> cfg_external_ui config' = [] \<and>
    cfg_log_path config' = [] \<and> \<not> cfg_dns_enable config' \<and>
    cfg_tun config' = \<lparr>tun_enable = True, tun_auto_route = False, tun_auto_dns = False,
      tun_auto_detect_interface = False, tun_interface = None, tun_mtu = 1280,
      tun_dns_hijack = [''any:53'']\<rparr> \<and>
    cfg_log_level config' = cfg_log_level config \<and> cfg_rest config' = cfg_rest config \<and>
    packet_queue_enabled h"
proof -
  let ?s = "s\<lparr>mem := store_u64 out_ptr 0 (mem s)\<rparr>"
  let ?m = "create_tail env t d l hooks out_ptr (Some (p, pl))"
  have load: "load_bytes q n (mem ?s) = load_bytes q n (mem s)" for q n
    by (simp add: load_bytes_def store_u64_def)
  have m: "?m ?s = (Done META_OK, s')"
    using assms by (simp add: meta_create_packet_tunnel_v1_def abi_create_tail boundary_iff)
  obtain config config' hooks' h where h:
      "Config_parse (env_config env) (load_bytes d l (mem ?s)) = Done config"
      "\<exists>path. from_utf8 (load_bytes p pl (mem ?s)) = Done path \<and> path_is_absolute path \<and>
         path_is_dir env path \<and> config' = packet_tunnel_config path config"
      "Handle_new (env_target env) (env_core env) config' hooks' = Done h"
      "handles s' = AList.update (next_id ?s) h (handles ?s)" "u64_at (mem s') out_ptr = next_id ?s"
    by (rule create_tail_Done [OF m]) auto
  obtain path where path: "from_utf8 (load_bytes p pl (mem s)) = Done path" "path_is_absolute path"
    "path_is_dir env path" "config' = packet_tunnel_config path config"
    using h(2) unfolding load by blast
  have "as_bytes path = load_bytes p pl (mem s)" using from_utf8_Done [OF path(1)] .
  moreover have "packet_queue_enabled h"
    using h(3) path(4)
    by (auto simp: Handle_new_def packet_tunnel_config_def Let_def split: if_splits outcome.splits)
  moreover have "map_of (handles s') (u64_at (mem s') out_ptr) = Some h"
    using h(4,5) by (simp add: update_conv')
  ultimately show ?thesis
    using h(1,3) path unfolding load
    by (intro exI [of _ config] exI [of _ config'] exI [of _ hooks'] exI [of _ h] exI [of _ path])
      (simp add: packet_tunnel_config_def)
qed

theorem packet_tunnel_forced_witness:
  "\<exists>s' h. invoke demo_env 0 (Meta_create_packet_tunnel 100 1 101 1 0 8)
      (ffi_init (demo_mem 100 [0x78, 0x2F])) = (META_OK, s') \<and>
     map_of (handles s') (u64_at (mem s') 8) = Some h \<and> packet_queue_enabled h"
proof -
  let ?s = "ffi_init (demo_mem 100 [0x78, 0x2F]) :: nat ffi"
  obtain x s' where r: "invoke demo_env 0 (Meta_create_packet_tunnel 100 1 101 1 0 8) ?s = (x, s')"
    by fastforce
  have path: "from_utf8 [0x2F] = Done ''/''" by code_simp
  have "\<exists>h. Handle_new \<lparr>pointer_bytes = 8, is_android = False\<rparr> demo_core config HostHooks_default = Done h"
    for config by (simp add: Handle_new_def demo_core_def Let_def)
  then have "x = META_OK"
    using r path
    by (auto simp: meta_create_packet_tunnel_v1_def abi_create_def create_registered_def
        host_directory_def host_hooks_input_def take_id_def register_def run_defs LIMIT_def
        MAX_HANDLES_def load_bytes_def demo_mem_def store_bytes_def store_u64_def
        path_is_absolute_def split: outcome.splits)
      (metis outcome.distinct(1,3))+
  with r packet_tunnel_forced [of demo_env 0 100 1 101 1 0 8 ?s s'] show ?thesis by auto
qed

subsection \<open>Phases\<close>

text \<open>
  The life of a core as an abstract machine of four phases, in their order. \<open>phase\<close> abstracts a
  handle to it.
\<close>

datatype phase = Created | Started | Stopping | Joined

instantiation phase :: linorder
begin

fun phase_rank :: "phase \<Rightarrow> nat" where
  "phase_rank Created = 0"
| "phase_rank Started = 1"
| "phase_rank Stopping = 2"
| "phase_rank Joined = 3"

definition less_eq_phase :: "phase \<Rightarrow> phase \<Rightarrow> bool" where
  "p \<le> q \<longleftrightarrow> phase_rank p \<le> phase_rank q"

definition less_phase :: "phase \<Rightarrow> phase \<Rightarrow> bool" where
  "p < q \<longleftrightarrow> phase_rank p < phase_rank q"

instance
proof
  fix p q :: phase
  show "p \<le> q \<Longrightarrow> q \<le> p \<Longrightarrow> p = q"
    by (cases p; cases q) (simp_all add: less_eq_phase_def)
qed (auto simp: less_eq_phase_def less_phase_def)

end

definition phase :: "'k handle \<Rightarrow> phase" where
  "phase h =
     (if \<not> worker h then Joined else if stopped h then Stopping
      else if lifecycle h then Started else Created)"

lemma phase_le: "handle_inv h' \<Longrightarrow> handle_le h h' \<Longrightarrow> phase h \<le> phase h'"
  by (auto simp: phase_def handle_le_def handle_inv_def spent_def less_eq_phase_def)

text \<open>
  C34. Every core refines the machine of phases, created, started, stopping, joined: along every run
  its phase never goes back, a successful start takes it from created to started, and a
  successful stop takes it to joined, from whatever phase it is in.
\<close>

theorem phases_forward:
  assumes "reg_inv s" "map_of (handles s) i = Some h" "map_of (handles (run evs s)) i = Some h'"
  shows "phase h \<le> phase h' \<and>
    (fst (invoke env t (Meta_start i) s) = META_OK \<longrightarrow>
       phase h = Created \<and>
       map_option phase (map_of (handles (snd (invoke env t (Meta_start i) s))) i) = Some Started) \<and>
    (fst (invoke env t (Meta_stop i) s) = META_OK \<longrightarrow>
       map_option phase (map_of (handles (snd (invoke env t (Meta_stop i) s))) i) = Some Joined)"
proof (intro conjI impI)
  have "handle_inv h" "handle_inv h'"
    using reg_inv_key [OF assms(1,2)] reg_inv_key [OF run_inv [OF assms(1)] assms(3)] by auto
  then show "phase h \<le> phase h'" using phase_le run_handle [OF assms] by blast
next
  assume "fst (invoke env t (Meta_start i) s) = META_OK"
  then have "invoke env t (Meta_start i) s = (META_OK, snd (invoke env t (Meta_start i) s))"
    by (simp add: prod_eq_iff)
  then obtain k where k: "\<not> spent h"
      "handles (snd (invoke env t (Meta_start i) s)) =
         AList.update i (h\<lparr>lifecycle := True, core := k, running := True\<rparr>) (handles s)"
    unfolding start_iff using assms(2) by auto
  moreover have "worker h" using k(1) reg_inv_key [OF assms(1,2)] by (auto simp: handle_inv_def spent_def)
  ultimately show "phase h = Created"
    "map_option phase (map_of (handles (snd (invoke env t (Meta_start i) s))) i) = Some Started"
    by (auto simp: phase_def spent_def update_conv')
next
  assume "fst (invoke env t (Meta_stop i) s) = META_OK"
  then have "invoke env t (Meta_stop i) s = (META_OK, snd (invoke env t (Meta_stop i) s))"
    by (simp add: prod_eq_iff)
  from stop_joins_now [OF assms(1) this]
  show "map_option phase (map_of (handles (snd (invoke env t (Meta_stop i) s))) i) = Some Joined"
    by (auto simp: joined_def phase_def)
qed

theorem phases_forward_witness:
  "phase demo_handle \<le> phase (demo_handle\<lparr>stopped := True\<rparr>)"
proof -
  let ?s = "demo_state (demo_mem 0 []) demo_handle"
  have inv: "reg_inv ?s"
    by (simp add: reg_inv_def demo_handle_def handle_inv_def MAX_HANDLES_def new_channel_def spent_def)
  have "map_of (handles (run [Core_stops 1 :: (unit, nat) event] ?s)) 1 =
      Some (demo_handle\<lparr>stopped := True\<rparr>)"
    by (simp add: at_handle_def)
  from phases_forward [OF inv _ this, of demo_handle demo_env 0] show ?thesis by simp
qed

subsection \<open>Delays\<close>

text \<open>
  The delay test: whatever time limit the host asks for, the core is given one between 100 and
  30000 milliseconds, the host's own where it lies between them; the delay the core measured
  is written as it is, or as the largest 32-bit number where it does not fit.
\<close>

theorem probe_bounds:
  assumes "invoke env t (Meta_probe i d l timeout_ms out_ptr) s = (META_OK, s')"
  shows "\<exists>h name limit delay k. map_of (handles s) i = Some h \<and>
    from_utf8 (load_bytes d l (mem s)) = Done name \<and>
    core_probe (env_core env) name limit (core h) = (Done delay, k) \<and>
    100 \<le> limit \<and> limit \<le> 30000 \<and>
    (100 \<le> unat timeout_ms \<and> unat timeout_ms \<le> 30000 \<longrightarrow> limit = unat timeout_ms) \<and>
    unat (u32_at (mem s') out_ptr) = (if delay < 2 ^ 32 then delay else 2 ^ 32 - 1)"
proof -
  let ?limit = "clamp 100 30000 (unat timeout_ms)"
  obtain h h' name delay where h: "map_of (handles s) i = Some h"
      "from_utf8 (load_bytes d l (mem s)) = Done name"
      "handle_probe (env_core env) (env_worker env) name ?limit h = (Done delay, h')"
      "u32_at (mem s') out_ptr = of_nat (min delay (2 ^ 32 - 1))"
    using assms by (auto simp: meta_probe_v1_def boundary_iff op_iffs store_u32_def)
  have "\<exists>k. core_probe (env_core env) name ?limit (core h) = (Done delay, k)"
    using h(3)
    by (auto simp: handle_probe_def handle_query_def Let_def
        split: if_splits prod.splits reply_wait.splits outcome.splits)
  moreover have "unat (u32_at (mem s') out_ptr) = (if delay < 2 ^ 32 then delay else 2 ^ 32 - 1)"
    unfolding h(4) by (simp add: unat_of_nat take_bit_nat_eq_self)
  ultimately show ?thesis
    using h(1,2) by (intro exI [of _ h] exI [of _ name] exI [of _ ?limit] exI [of _ delay])
      (auto simp: clamp_def)
qed

theorem probe_bounds_witness:
  "\<exists>s'. invoke demo_env 0 (Meta_probe 1 0 0 5 8) (demo_state (demo_mem 0 []) demo_handle) = (META_OK, s') \<and>
     unat (u32_at (mem s') 8) = 100"
proof -
  let ?s = "demo_state (demo_mem 0 []) demo_handle"
  obtain x s' where r: "invoke demo_env 0 (Meta_probe 1 0 0 5 8) ?s = (x, s')" by fastforce
  have x: "x = META_OK" and v: "unat (u32_at (mem s') 8) = 100"
    using r by (auto simp: meta_probe_v1_def handle_probe_def handle_query_def run_defs clamp_def
        from_utf8_def demo_core_def store_u32_def Let_def)
  with r probe_bounds [of demo_env 0 1 0 0 5 8 ?s s'] show ?thesis by auto
qed

subsection \<open>Where the header says something else\<close>

text \<open>
  The header says that handles are checked identifiers. An update that is an empty JSON object
  is not: it succeeds and changes nothing for every handle value, also for one that was never
  created or was destroyed, because the handle is looked up only for the settings it contains.
\<close>

theorem empty_update_unchecked:
  assumes "from_slice (env_json env) (load_bytes d l (mem s)) = Done (JObject [])"
    and "l \<le> LIMIT" "l = 0 \<or> d \<noteq> 0"
  shows "invoke env t (Meta_update i d l) s = (META_OK, s)"
  using assms
  by (auto simp: meta_update_v1_def boundary_iff op_iffs json_as_object_iff opt_value_Done_iff)

theorem empty_update_unchecked_witness:
  "invoke demo_env 0 (Meta_update 77 100 2) (ffi_init (demo_mem 100 [0x7B, 0x7D]) :: nat ffi) =
     (META_OK, ffi_init (demo_mem 100 [0x7B, 0x7D]))"
  by (rule empty_update_unchecked) (simp_all add: LIMIT_def)

end
