(* ===== verification/Rust_Slices.thy ===== *)
theory Rust_Slices
  imports Rust_Io
begin

text \<open>
  Searching in sorted slices, as the standard library does it: \<^verbatim>\<open>binary_search_by\<close> halves a range
  that is kept by its base and its size, and \<^verbatim>\<open>partition_point\<close> and \<^verbatim>\<open>binary_search\<close> call it. On a
  slice that is ordered by the comparison they find the boundary, or an equal element.
\<close>

datatype ordering = Less | Equal | Greater

function bisect :: "('a \<Rightarrow> ordering) \<Rightarrow> 'a list \<Rightarrow> nat \<Rightarrow> nat \<Rightarrow> nat" where
  "bisect f xs base n =
     (if n > 1
      then
        (let half = n div 2; mid = base + half
         in bisect f xs (if f (xs ! mid) = Greater then base else mid) (n - half))
      else base)"
  by pat_completeness auto
termination
  by (relation "measure (\<lambda>(f, xs, base, n). n)") auto

declare bisect.simps [simp del]

text \<open>\<open>Inr i\<close>: an element that compares equal; \<open>Inl i\<close>: where one would be inserted.\<close>

definition binary_search_by :: "('a \<Rightarrow> ordering) \<Rightarrow> 'a list \<Rightarrow> nat + nat" where
  "binary_search_by f xs =
     (if xs = [] then Inl 0
      else
        (let base = bisect f xs 0 (length xs)
         in case f (xs ! base) of
              Equal \<Rightarrow> Inr base
            | Less \<Rightarrow> Inl (Suc base)
            | Greater \<Rightarrow> Inl base))"

definition cmp :: "'a::linorder \<Rightarrow> 'a \<Rightarrow> ordering" where
  "cmp x y = (if x < y then Less else if x = y then Equal else Greater)"

definition binary_search :: "'a::linorder \<Rightarrow> 'a list \<Rightarrow> nat + nat" where
  "binary_search x xs = binary_search_by (\<lambda>y. cmp y x) xs"

definition partition_point :: "('a \<Rightarrow> bool) \<Rightarrow> 'a list \<Rightarrow> nat" where
  "partition_point p xs =
     (case binary_search_by (\<lambda>x. if p x then Less else Greater) xs of Inr i \<Rightarrow> i | Inl i \<Rightarrow> i)"

subsection \<open>Correctness\<close>

text \<open>
  The range keeps the boundary between the elements that are not greater and the greater ones:
  \<open>k\<close> elements are not greater.
\<close>

lemma bisect_range:
  assumes cut: "\<And>i. i < length xs \<Longrightarrow> f (xs ! i) \<noteq> Greater \<longleftrightarrow> i < k"
    and "0 < n" "base + n \<le> length xs" "k \<le> base + n" "base < k \<or> base = 0"
  shows "bisect f xs base n < length xs \<and>
    (if k = 0 then bisect f xs base n = 0 else Suc (bisect f xs base n) = k)"
  using assms(2-)
proof (induction n arbitrary: base rule: less_induct)
  case (less n)
  show ?case
  proof (cases "n > 1")
    case False
    then have "n = 1" using less.prems(1) by simp
    moreover have "bisect f xs base n = base" using False by (simp add: bisect.simps [of f xs base n])
    ultimately show ?thesis using less.prems by auto
  next
    case True
    define half base' where "half = n div 2"
      and "base' = (if f (xs ! (base + half)) = Greater then base else base + half)"
    have half: "0 < half" "half \<le> n - half" "half < n" using True by (simp_all add: half_def)
    then have mid: "f (xs ! (base + half)) \<noteq> Greater \<longleftrightarrow> base + half < k"
      using cut [of "base + half"] less.prems(2) by simp
    have "bisect f xs base n = bisect f xs base' (n - half)"
      using True by (simp add: bisect.simps [of f xs base n] half_def base'_def Let_def)
    moreover have "n - half < n" "0 < n - half" using half by simp_all
    moreover have "base' + (n - half) \<le> length xs" "k \<le> base' + (n - half)" "base' < k \<or> base' = 0"
      using half mid less.prems by (auto simp: base'_def split: if_splits)
    ultimately show ?thesis using less.IH [of "n - half" base'] by simp
  qed
qed

lemma bisect_all:
  assumes "\<And>i. i < length xs \<Longrightarrow> f (xs ! i) \<noteq> Greater \<longleftrightarrow> i < k" "xs \<noteq> []" "k \<le> length xs"
  shows "bisect f xs 0 (length xs) < length xs \<and>
    (if k = 0 then bisect f xs 0 (length xs) = 0 else Suc (bisect f xs 0 (length xs)) = k)"
  using assms by (intro bisect_range) auto

lemma partition_point_eq:
  assumes "\<And>i. i < length xs \<Longrightarrow> p (xs ! i) \<longleftrightarrow> i < k" "k \<le> length xs"
  shows "partition_point p xs = k"
proof (cases "xs = []")
  case False
  let ?f = "\<lambda>x. if p x then Less else Greater"
  have cut: "?f (xs ! i) \<noteq> Greater \<longleftrightarrow> i < k" if "i < length xs" for i
    using assms(1) [OF that] by simp
  note b = bisect_all [of xs ?f k, OF cut False assms(2)]
  then have "p (xs ! bisect ?f xs 0 (length xs)) \<longleftrightarrow> bisect ?f xs 0 (length xs) < k"
    using assms(1) by blast
  then show ?thesis
    using b False by (auto simp: partition_point_def binary_search_by_def Let_def split: if_splits)
qed (use assms in \<open>simp add: partition_point_def binary_search_by_def\<close>)

text \<open>For a sorted slice the boundary of a downward closed predicate is where it stops holding.\<close>

lemma partition_point_sorted:
  assumes "sorted (map key xs)" "\<And>x y. key x \<le> key y \<Longrightarrow> p y \<Longrightarrow> p x"
  shows "partition_point p xs = length (takeWhile p xs)"
proof (rule partition_point_eq)
  show "length (takeWhile p xs) \<le> length xs" by (rule length_takeWhile_le)
  fix i assume i: "i < length xs"
  let ?k = "length (takeWhile p xs)"
  show "p (xs ! i) \<longleftrightarrow> i < ?k"
  proof
    assume "i < ?k"
    then show "p (xs ! i)" using set_takeWhileD nth_mem [of i "takeWhile p xs"] takeWhile_nth by metis
  next
    assume pi: "p (xs ! i)"
    show "i < ?k"
    proof (rule ccontr)
      assume "\<not> i < ?k"
      then have "?k \<le> i" "?k < length xs" using i by simp_all
      then have "key (xs ! ?k) \<le> key (xs ! i)"
        using sorted_nth_mono [OF assms(1), of ?k i] i by simp
      then have "p (xs ! ?k)" using assms(2) pi by blast
      then show False using nth_length_takeWhile [OF \<open>?k < length xs\<close>] by simp
    qed
  qed
qed

lemma binary_search_found:
  assumes "sorted xs"
  shows "(\<exists>i. binary_search x xs = Inr i) \<longleftrightarrow> x \<in> set xs"
proof (cases "xs = []")
  case False
  define k where "k = length (takeWhile (\<lambda>y. y \<le> x) xs)"
  have k: "i < k \<longleftrightarrow> xs ! i \<le> x" if "i < length xs" for i
  proof
    assume "i < k"
    then show "xs ! i \<le> x" using set_takeWhileD nth_mem takeWhile_nth unfolding k_def by metis
  next
    assume le: "xs ! i \<le> x"
    show "i < k"
    proof (rule ccontr)
      assume "\<not> i < k"
      then have "xs ! k \<le> xs ! i" "k < length xs" using sorted_nth_mono [OF assms] that by simp_all
      with le show False using nth_length_takeWhile [of "\<lambda>y. y \<le> x" xs] by (simp add: k_def)
    qed
  qed
  let ?f = "\<lambda>y. cmp y x" and ?b = "bisect (\<lambda>y. cmp y x) xs 0 (length xs)"
  have cut: "?f (xs ! i) \<noteq> Greater \<longleftrightarrow> i < k" if "i < length xs" for i
    using k [OF that] by (auto simp: cmp_def)
  have "k \<le> length xs" by (simp add: k_def length_takeWhile_le)
  note b = bisect_all [of xs ?f k, OF cut False this]
  have "(\<exists>i. binary_search x xs = Inr i) \<longleftrightarrow> xs ! ?b = x"
    using False by (auto simp: binary_search_def binary_search_by_def Let_def cmp_def split: ordering.splits)
  also have "\<dots> \<longleftrightarrow> x \<in> set xs"
  proof
    assume "x \<in> set xs"
    then obtain i where i: "i < length xs" "xs ! i = x" by (auto simp: in_set_conv_nth)
    then have "i < k" using k by simp
    then have "i \<le> ?b" "?b < k" using b by auto
    then have "x \<le> xs ! ?b" "xs ! ?b \<le> x" using sorted_nth_mono [OF assms, of i ?b] b k i by auto
    then show "xs ! ?b = x" by simp
  qed (use b nth_mem in metis)
  finally show ?thesis .
qed (simp add: binary_search_def binary_search_by_def)

end
