(* ===== verification/Rule_Ips.thy ===== *)
theory Rule_Ips
  imports Net_Types Rust_Slices "HOL-Library.Product_Lexorder"
begin

text \<open>
  \<^verbatim>\<open>IpSet\<close> of \<^verbatim>\<open>crates/config/src/rule.rs\<close>: many networks packed into sorted, merged ranges, which
  are searched by bisection. The lemmas show that packing changes nothing.
\<close>

type_synonym u128 = "128 word"
type_synonym ip_range = "u128 \<times> u128"

record ip_set =
  set_v4 :: "ip_range list"
  set_v6 :: "ip_range list"
  set_inverse :: bool

definition saturating_add :: "'a::len word \<Rightarrow> 'a word \<Rightarrow> 'a word" where
  "saturating_add a b = (if a + b < a then - 1 else a + b)"

text \<open>The first loop of \<^verbatim>\<open>IpSet::new\<close>.\<close>

fun ip_set_push :: "ip_net \<Rightarrow> ip_set \<Rightarrow> ip_set" where
  "ip_set_push (NetV4 a p) s =
     s\<lparr>set_v4 := set_v4 s @ [(ucast (prefix_low a p), ucast (prefix_high a p))]\<rparr>"
| "ip_set_push (NetV6 a p) s =
     s\<lparr>set_v6 := set_v6 s @ [(prefix_low a p, prefix_high a p)]\<rparr>"

text \<open>The second loop, which merges ranges that overlap or touch.\<close>

definition merge_range :: "ip_range list \<Rightarrow> ip_range \<Rightarrow> ip_range list" where
  "merge_range merged r =
     (if merged \<noteq> [] \<and> fst r \<le> saturating_add (snd (last merged)) 1
      then butlast merged @ [(fst (last merged), max (snd (last merged)) (snd r))]
      else merged @ [r])"

definition merge_ranges :: "ip_range list \<Rightarrow> ip_range list" where
  "merge_ranges ranges = foldl merge_range [] (sort ranges)"

definition IpSet_new :: "ip_net list \<Rightarrow> bool \<Rightarrow> ip_set" where
  "IpSet_new nets inverted =
     (let s = fold ip_set_push nets \<lparr>set_v4 = [], set_v6 = [], set_inverse = inverted\<rparr>
      in s\<lparr>set_v4 := merge_ranges (set_v4 s), set_v6 := merge_ranges (set_v6 s)\<rparr>)"

definition in_ranges :: "ip_range list \<Rightarrow> u128 \<Rightarrow> bool" where
  "in_ranges ranges n =
     (let i = partition_point (\<lambda>r. fst r \<le> n) ranges
      in i > 0 \<and> n \<le> snd (ranges ! (i - 1)))"

definition IpSet_matches :: "ip_set \<Rightarrow> ip_addr \<Rightarrow> bool" where
  "IpSet_matches s ip =
     ((case ip of IpV4 a \<Rightarrow> in_ranges (set_v4 s) (ucast a) | IpV6 a \<Rightarrow> in_ranges (set_v6 s) a)
       \<noteq> set_inverse s)"

subsection \<open>Merging\<close>

definition covers :: "ip_range list \<Rightarrow> u128 \<Rightarrow> bool" where
  "covers rs n \<longleftrightarrow> (\<exists>r\<in>set rs. fst r \<le> n \<and> n \<le> snd r)"

definition apart :: "ip_range list \<Rightarrow> bool" where
  "apart rs \<longleftrightarrow> (\<forall>r\<in>set rs. fst r \<le> snd r) \<and> sorted_wrt (\<lambda>r s. snd r < fst s) rs"

lemma covers_simps [simp]:
  "\<not> covers [] n"
  "covers (rs @ qs) n \<longleftrightarrow> covers rs n \<or> covers qs n"
  "covers (r # rs) n \<longleftrightarrow> fst r \<le> n \<and> n \<le> snd r \<or> covers rs n"
  by (auto simp: covers_def)

lemma le_saturating_add_1:
  fixes a b :: "'a::len word"
  shows "a \<le> saturating_add b 1 \<longleftrightarrow> (\<forall>n. b < n \<longrightarrow> a \<le> n)"
proof (cases "b = - 1")
  case True
  then have "saturating_add b 1 = - 1"
    by (simp add: saturating_add_def word_neq_0_conv [symmetric])
  then show ?thesis using True by (simp add: word_n1_ge leD)
next
  case False
  then have "1 + b \<noteq> 0" by (metis add.commute eq_neg_iff_add_eq_0)
  then have "unat (b + 1) = Suc (unat b)" using unatSuc [of b] by (simp add: add.commute)
  then have "\<not> b + 1 < b" and next_le: "b < n \<longleftrightarrow> b + 1 \<le> n" for n
    by (simp_all add: word_less_nat_alt word_le_nat_alt Suc_le_eq)
  then show ?thesis by (simp add: saturating_add_def) (metis order_refl order_trans)
qed

lemma merge_range_step:
  assumes "apart merged" "fst r \<le> snd r" "merged \<noteq> [] \<Longrightarrow> fst (last merged) \<le> fst r"
  shows "apart (merge_range merged r)" "merge_range merged r \<noteq> []"
    "fst (last (merge_range merged r)) \<le> fst r"
    "covers (merge_range merged r) n \<longleftrightarrow> covers merged n \<or> fst r \<le> n \<and> n \<le> snd r"
proof -
  have all: "apart (merge_range merged r) \<and> merge_range merged r \<noteq> [] \<and>
    fst (last (merge_range merged r)) \<le> fst r \<and>
    (covers (merge_range merged r) n \<longleftrightarrow> covers merged n \<or> fst r \<le> n \<and> n \<le> snd r)"
  proof (cases merged rule: rev_cases)
    case Nil
    then show ?thesis using assms by (simp add: merge_range_def apart_def)
  next
    case (snoc front l)
    have l: "fst l \<le> snd l" "\<forall>q\<in>set front. snd q < fst l" "apart front"
      using assms(1) snoc by (auto simp: apart_def sorted_wrt_append)
    show ?thesis
    proof (cases "fst r \<le> saturating_add (snd l) 1")
      case True
      have m: "merge_range merged r = front @ [(fst l, max (snd l) (snd r))]"
        using True snoc by (simp add: merge_range_def)
      have touch: "snd l < n \<Longrightarrow> fst r \<le> n" for n using True by (simp add: le_saturating_add_1)
      have "fst l \<le> n \<and> n \<le> max (snd l) (snd r) \<longleftrightarrow> fst l \<le> n \<and> n \<le> snd l \<or> fst r \<le> n \<and> n \<le> snd r"
        using touch [of n] assms(3) snoc by (cases "snd l < n") (auto simp: max_def)
      then show ?thesis
        using l assms(3) snoc unfolding m
        by (auto simp: apart_def sorted_wrt_append max_def intro: order_trans)
    next
      case False
      have m: "merge_range merged r = merged @ [r]"
        using False snoc by (simp add: merge_range_def)
      obtain n where "snd l < n" "\<not> fst r \<le> n" using False by (auto simp: le_saturating_add_1)
      then have "snd l < fst r" by simp
      then show ?thesis
        using l assms(1,2) snoc unfolding m
        by (auto simp: apart_def sorted_wrt_append intro: order_le_less_trans order_less_trans)
    qed
  qed
  then show "apart (merge_range merged r)" "merge_range merged r \<noteq> []"
    "fst (last (merge_range merged r)) \<le> fst r"
    "covers (merge_range merged r) n \<longleftrightarrow> covers merged n \<or> fst r \<le> n \<and> n \<le> snd r"
    by blast+
qed

lemma merge_foldl:
  assumes "sorted rs" "\<forall>r\<in>set rs. fst r \<le> snd r" "apart merged"
    "\<forall>r\<in>set rs. merged \<noteq> [] \<longrightarrow> fst (last merged) \<le> fst r"
  shows "apart (foldl merge_range merged rs) \<and>
    (covers (foldl merge_range merged rs) n \<longleftrightarrow> covers merged n \<or> covers rs n)"
  using assms
proof (induction rs arbitrary: merged)
  case (Cons r rs)
  have r: "fst r \<le> snd r" "merged \<noteq> [] \<Longrightarrow> fst (last merged) \<le> fst r" using Cons.prems by simp_all
  note step = merge_range_step [OF Cons.prems(3) r]
  have "fst r \<le> fst q" if "q \<in> set rs" for q
    using Cons.prems(1) that by (auto simp: less_eq_prod_def)
  then have "\<forall>q\<in>set rs. fst (last (merge_range merged r)) \<le> fst q"
    using step(3) order_trans by blast
  then show ?case
    using Cons.IH [of "merge_range merged r"] Cons.prems step by auto
qed simp

lemma merge_ranges_correct:
  assumes "\<forall>r\<in>set rs. fst r \<le> snd r"
  shows "apart (merge_ranges rs)" "covers (merge_ranges rs) n \<longleftrightarrow> covers rs n"
  using merge_foldl [of "sort rs" "[]" n] assms
  by (simp_all add: merge_ranges_def apart_def covers_def)

subsection \<open>Searching\<close>

lemma apart_sorted:
  assumes "apart rs"
  shows "sorted (map fst rs)"
proof -
  have "fst r \<le> fst s" if "r \<in> set rs" "snd r < fst s" for r s
    using assms that by (fastforce simp: apart_def)
  moreover have "sorted_wrt (\<lambda>r s. snd r < fst s) rs" using assms by (simp add: apart_def)
  ultimately have "sorted_wrt (\<lambda>r s. fst r \<le> fst s) rs" by (rule sorted_wrt_mono_rel)
  then show ?thesis by (simp add: sorted_map)
qed

lemma in_ranges_covers:
  assumes "apart rs"
  shows "in_ranges rs n \<longleftrightarrow> covers rs n"
proof -
  let ?low = "takeWhile (\<lambda>r. fst r \<le> n) rs"
  have i: "partition_point (\<lambda>r. fst r \<le> n) rs = length ?low"
    using partition_point_sorted [OF apart_sorted [OF assms], of "\<lambda>r. fst r \<le> n"] order_trans by blast
  have "fst r > n" if "r \<in> set (dropWhile (\<lambda>r. fst r \<le> n) rs)" for r
  proof -
    let ?high = "dropWhile (\<lambda>r. fst r \<le> n) rs"
    have "sorted (map fst (?low @ ?high))" using apart_sorted [OF assms] by simp
    then have "sorted (map fst ?high)" unfolding map_append sorted_append by blast
    then have "fst (hd ?high) \<le> fst r" using that by (cases ?high) auto
    moreover have "?high \<noteq> []" using that by (cases ?high) simp_all
    then have "\<not> fst (hd ?high) \<le> n" by (rule hd_dropWhile)
    ultimately show ?thesis by simp
  qed
  then have "covers (dropWhile (\<lambda>r. fst r \<le> n) rs) n \<longleftrightarrow> False"
    by (fastforce simp: covers_def)
  then have low: "covers rs n \<longleftrightarrow> covers ?low n"
    by (metis covers_simps(2) takeWhile_dropWhile_id)
  show ?thesis
  proof (cases ?low rule: rev_cases)
    case Nil
    then show ?thesis by (simp add: in_ranges_def i low)
  next
    case (snoc front l)
    have l: "fst l \<le> n" using snoc set_takeWhileD [of l "\<lambda>r. fst r \<le> n" rs] by simp
    have "apart (?low @ dropWhile (\<lambda>r. fst r \<le> n) rs)" using assms by simp
    then have "\<forall>q\<in>set front. snd q < fst l" by (simp add: snoc apart_def sorted_wrt_append)
    then have "\<not> covers front n" using l by (force simp: covers_def)
    then have "covers rs n \<longleftrightarrow> n \<le> snd l" using l by (simp add: low snoc)
    moreover have "rs ! (length ?low - 1) = l"
      using snoc takeWhile_nth [of "length ?low - 1" "\<lambda>r. fst r \<le> n" rs] by (simp add: nth_append)
    ultimately show ?thesis using snoc by (simp add: in_ranges_def i)
  qed
qed

subsection \<open>The set is the union of its networks\<close>

lemma prefix_le: "prefix_low a p \<le> prefix_high a p"
  by (simp add: prefix_high_def word_le_def unsigned_or_eq or_greater_eq)

definition net_range :: "ip_net \<Rightarrow> ip_range" where
  "net_range net =
     (case net of
        NetV4 a p \<Rightarrow> (ucast (prefix_low a p), ucast (prefix_high a p))
      | NetV6 a p \<Rightarrow> (prefix_low a p, prefix_high a p))"

definition is_v4 :: "ip_net \<Rightarrow> bool" where
  "is_v4 net \<longleftrightarrow> (case net of NetV4 _ _ \<Rightarrow> True | NetV6 _ _ \<Rightarrow> False)"

lemma fold_push:
  "fold ip_set_push nets s =
    s\<lparr>set_v4 := set_v4 s @ map net_range (filter is_v4 nets),
      set_v6 := set_v6 s @ map net_range (filter (\<lambda>n. \<not> is_v4 n) nets)\<rparr>"
proof (induction nets arbitrary: s)
  case (Cons net nets)
  then show ?case by (cases net) (simp_all add: net_range_def is_v4_def)
qed simp

lemma ucast_u128_simps:
  "(ucast (a :: 32 word) :: u128) \<le> ucast b \<longleftrightarrow> a \<le> b"
  by (simp add: word_le_nat_alt unat_ucast_up)

lemma net_range_le: "fst (net_range net) \<le> snd (net_range net)"
  by (cases net) (simp_all add: net_range_def prefix_le ucast_u128_simps)

lemma covers_nets:
  "covers (map net_range (filter is_v4 nets)) (ucast a) \<longleftrightarrow> list_ex (\<lambda>net. net_contains net (IpV4 a)) nets"
  "covers (map net_range (filter (\<lambda>n. \<not> is_v4 n) nets)) b \<longleftrightarrow>
    list_ex (\<lambda>net. net_contains net (IpV6 b)) nets"
proof -
  show "covers (map net_range (filter is_v4 nets)) (ucast a) \<longleftrightarrow>
      list_ex (\<lambda>net. net_contains net (IpV4 a)) nets"
  proof (induction nets)
    case (Cons net nets)
    then show ?case by (cases net) (simp_all add: net_range_def is_v4_def ucast_u128_simps)
  qed simp
  show "covers (map net_range (filter (\<lambda>n. \<not> is_v4 n) nets)) b \<longleftrightarrow>
      list_ex (\<lambda>net. net_contains net (IpV6 b)) nets"
  proof (induction nets)
    case (Cons net nets)
    then show ?case by (cases net) (simp_all add: net_range_def is_v4_def)
  qed simp
qed

lemma in_merged_ranges:
  "in_ranges (merge_ranges (map net_range nets)) n \<longleftrightarrow> covers (map net_range nets) n"
  using merge_ranges_correct [of "map net_range nets"] in_ranges_covers net_range_le by simp

lemma IpSet_matches_new:
  "IpSet_matches (IpSet_new nets inverted) ip \<longleftrightarrow>
   list_ex (\<lambda>net. net_contains net ip) nets \<noteq> inverted"
  by (cases ip) (simp_all add: IpSet_matches_def IpSet_new_def Let_def fold_push in_merged_ranges
      covers_nets)

text \<open>
  C28. A set of networks matches an address exactly when one of the networks contains it, or, when
  the set is inverted, exactly when none does: sorting, merging ranges that overlap or touch, also
  at the last address of a family, and searching by bisection change nothing, for any list of
  networks.
\<close>

theorem ip_set_correct:
  "IpSet_matches (IpSet_new nets inverted) ip \<longleftrightarrow>
   list_ex (\<lambda>net. net_contains net ip) nets \<noteq> inverted"
  by (rule IpSet_matches_new)

end
