(* ===== verification/Rust_Str.thy ===== *)
theory Rust_Str
  imports Utf8
begin

text \<open>
  String functions of the Rust standard library that the rule engine uses. A string is the list of
  its UTF-8 bytes. The characters that are searched for are ASCII, so searching bytes finds them; the
  white space that \<^verbatim>\<open>trim\<close> removes is given by the encodings of the characters with the property
  \<^verbatim>\<open>White_Space\<close>.
\<close>

definition ascii_lower :: "char \<Rightarrow> char" where
  "ascii_lower c =
     (let n = of_char c :: nat in if 65 \<le> n \<and> n \<le> 90 then char_of (n + 32) else c)"

definition to_ascii_lowercase :: "string \<Rightarrow> string" where
  "to_ascii_lowercase s = map ascii_lower s"

definition eq_ignore_ascii_case :: "char \<Rightarrow> char \<Rightarrow> bool" where
  "eq_ignore_ascii_case a b \<longleftrightarrow> ascii_lower a = ascii_lower b"

subsection \<open>Searching and splitting\<close>

definition str_find :: "char \<Rightarrow> string \<Rightarrow> nat option" where
  "str_find d s = (if d \<in> set s then Some (length (takeWhile (\<lambda>c. c \<noteq> d) s)) else None)"

definition str_rfind :: "char \<Rightarrow> string \<Rightarrow> nat option" where
  "str_rfind d s =
     (if d \<in> set s then Some (length s - Suc (length (takeWhile (\<lambda>c. c \<noteq> d) (rev s)))) else None)"

fun str_split :: "char \<Rightarrow> string \<Rightarrow> string list" where
  "str_split d [] = [[]]"
| "str_split d (c # s) =
     (if c = d then [] # str_split d s
      else (case str_split d s of [] \<Rightarrow> [[c]] | w # ws \<Rightarrow> (c # w) # ws))"

definition split_once :: "char \<Rightarrow> string \<Rightarrow> (string \<times> string) option" where
  "split_once d s =
     (case dropWhile (\<lambda>c. c \<noteq> d) s of
        [] \<Rightarrow> None
      | _ # r \<Rightarrow> Some (takeWhile (\<lambda>c. c \<noteq> d) s, r))"

definition strip_prefix :: "string \<Rightarrow> string \<Rightarrow> string option" where
  "strip_prefix p s = (if take (length p) s = p then Some (drop (length p) s) else None)"

definition strip_suffix :: "string \<Rightarrow> string \<Rightarrow> string option" where
  "strip_suffix p s = map_option rev (strip_prefix (rev p) (rev s))"

definition ends_with :: "char \<Rightarrow> string \<Rightarrow> bool" where
  "ends_with c s \<longleftrightarrow> s \<noteq> [] \<and> last s = c"

fun str_contains :: "string \<Rightarrow> string \<Rightarrow> bool" where
  "str_contains k [] \<longleftrightarrow> k = []"
| "str_contains k (c # s) \<longleftrightarrow> strip_prefix k (c # s) \<noteq> None \<or> str_contains k s"

definition trim_end_matches :: "char \<Rightarrow> string \<Rightarrow> string" where
  "trim_end_matches d s = rev (dropWhile (\<lambda>c. c = d) (rev s))"

definition trim_matches :: "char \<Rightarrow> string \<Rightarrow> string" where
  "trim_matches d s = trim_end_matches d (dropWhile (\<lambda>c. c = d) s)"

subsection \<open>White space\<close>

definition white_space :: "string list" where
  "white_space =
     map (\<lambda>c. of_bytes (utf8_encode c))
       ([9, 10, 11, 12, 13, 32, 0x85, 0xA0, 0x1680] @ [0x2000..<0x200B] @
        [0x2028, 0x2029, 0x202F, 0x205F, 0x3000])"

fun strip_any :: "string list \<Rightarrow> string \<Rightarrow> string option" where
  "strip_any [] s = None"
| "strip_any (w # ws) s = (case strip_prefix w s of Some r \<Rightarrow> Some r | None \<Rightarrow> strip_any ws s)"

text \<open>Each step removes one character, so the length of the string is enough fuel.\<close>

fun strip_all :: "nat \<Rightarrow> string list \<Rightarrow> string \<Rightarrow> string" where
  "strip_all 0 ws s = s"
| "strip_all (Suc n) ws s = (case strip_any ws s of None \<Rightarrow> s | Some r \<Rightarrow> strip_all n ws r)"

definition trim_start :: "string \<Rightarrow> string" where
  "trim_start s = strip_all (length s) white_space s"

definition trim_end :: "string \<Rightarrow> string" where
  "trim_end s = rev (strip_all (length s) (map rev white_space) (rev s))"

definition trim :: "string \<Rightarrow> string" where
  "trim s = trim_end (trim_start s)"

subsection \<open>Facts\<close>

lemma ascii_lower_idem [simp]: "ascii_lower (ascii_lower c) = ascii_lower c"
proof -
  have "of_char (char_of (n + 32) :: char) = n + 32" if "n \<le> 90" for n :: nat
    using that by (simp add: of_char_of)
  then show ?thesis by (auto simp: ascii_lower_def Let_def)
qed

lemma lowercase_idem [simp]: "to_ascii_lowercase (to_ascii_lowercase s) = to_ascii_lowercase s"
  by (simp add: to_ascii_lowercase_def)

lemma lowercase_append [simp]:
  "to_ascii_lowercase (s @ t) = to_ascii_lowercase s @ to_ascii_lowercase t"
  by (simp add: to_ascii_lowercase_def)

lemma trim_end_last: "trim_end_matches d s = [] \<or> last (trim_end_matches d s) \<noteq> d"
proof -
  let ?w = "dropWhile (\<lambda>c. c = d) (rev s)"
  have "?w \<noteq> [] \<Longrightarrow> hd ?w \<noteq> d" using hd_dropWhile [of "\<lambda>c. c = d" "rev s"] by blast
  then show ?thesis by (auto simp: trim_end_matches_def last_rev)
qed

lemma trim_end_stays: "s = [] \<or> last s \<noteq> d \<Longrightarrow> trim_end_matches d s = s"
  by (cases s rule: rev_cases) (auto simp: trim_end_matches_def)

lemma ascii_lower_dot: "ascii_lower c = CHR ''.'' \<longleftrightarrow> c = CHR ''.''"
proof
  assume "ascii_lower c = CHR ''.''"
  then show "c = CHR ''.''"
    by (cases "65 \<le> (of_char c :: nat) \<and> (of_char c :: nat) \<le> 90")
      (auto simp: ascii_lower_def Let_def dest: arg_cong [where f = "of_char :: char \<Rightarrow> nat"])
qed (simp add: ascii_lower_def)

lemma trim_lower_trim [simp]:
  "trim_end_matches CHR ''.'' (to_ascii_lowercase (trim_end_matches CHR ''.'' s)) =
    to_ascii_lowercase (trim_end_matches CHR ''.'' s)"
  using trim_end_last [of "CHR ''.''" s]
  by (intro trim_end_stays) (auto simp: to_ascii_lowercase_def last_map ascii_lower_dot)

lemma str_split_nonempty [simp]: "str_split d s \<noteq> []"
  by (cases s) (auto split: list.splits)

lemma str_split_append: "str_split d (s @ d # t) = str_split d s @ str_split d t"
proof (induction s)
  case (Cons c s)
  then show ?case by (cases "str_split d s") simp_all
qed simp

lemma str_split_plain: "d \<notin> set s \<Longrightarrow> str_split d s = [s]"
  by (induction s) auto

text \<open>Joining the parts again.\<close>

fun str_join :: "char \<Rightarrow> string list \<Rightarrow> string" where
  "str_join d [] = []"
| "str_join d [w] = w"
| "str_join d (w # ws) = w @ d # str_join d ws"

lemma str_join_Cons: "ws \<noteq> [] \<Longrightarrow> str_join d (w # ws) = w @ d # str_join d ws"
  by (cases ws) simp_all

lemma str_join_append: "vs \<noteq> [] \<Longrightarrow> ws \<noteq> [] \<Longrightarrow> str_join d (vs @ ws) = str_join d vs @ d # str_join d ws"
  by (induction vs rule: induct_list012) (simp_all add: str_join_Cons)

lemma str_join_split [simp]: "str_join d (str_split d s) = s"
proof (induction s)
  case (Cons c s)
  obtain w ws where w: "str_split d s = w # ws" by (cases "str_split d s") simp_all
  then have "str_join d ((c # w) # ws) = c # str_join d (w # ws)" by (cases ws) simp_all
  then show ?case using Cons w by (simp add: str_join_Cons)
qed simp

lemma strip_prefix_iff [simp]: "strip_prefix p s = Some r \<longleftrightarrow> s = p @ r"
  by (auto simp: strip_prefix_def) (metis append_take_drop_id)

lemma strip_suffix_iff [simp]: "strip_suffix p s = Some r \<longleftrightarrow> s = r @ p"
  by (auto simp: strip_suffix_def) (metis rev_append rev_rev_ident)+

lemma strip_at [simp]: "strip_prefix p (p @ r) = Some r" "strip_suffix p (r @ p) = Some r"
  by (simp_all only: strip_prefix_iff strip_suffix_iff)

lemma while_at:
  "d \<notin> set a \<Longrightarrow> dropWhile (\<lambda>c. c \<noteq> d) (a @ d # b) = d # b"
  "d \<notin> set a \<Longrightarrow> takeWhile (\<lambda>c. c \<noteq> d) (a @ d # b) = a"
  by (induction a) auto

lemma split_once_at:
  assumes "d \<notin> set a"
  shows "split_once d (a @ d # b) = Some (a, b)"
  unfolding split_once_def while_at [OF assms] by simp

lemma split_once_absent: "d \<notin> set s \<Longrightarrow> split_once d s = None"
proof -
  assume "d \<notin> set s"
  then have "\<forall>c\<in>set s. c \<noteq> d" by blast
  then have "dropWhile (\<lambda>c. c \<noteq> d) s = []" unfolding dropWhile_eq_Nil_conv .
  then show ?thesis unfolding split_once_def by (simp only: list.case)
qed

lemma split_once_None: "split_once d s = None \<longleftrightarrow> d \<notin> set s"
  using split_once_at split_once_absent split_list_first by (metis option.distinct(1))

lemma split_once_Some: "split_once d s = Some (a, b) \<longleftrightarrow> d \<notin> set a \<and> s = a @ d # b"
proof
  assume r: "split_once d s = Some (a, b)"
  then have "d \<in> set s" using split_once_absent [of d s] by (metis option.distinct(1))
  then obtain x y where "s = x @ d # y" "d \<notin> set x" using split_list_first by metis
  with r show "d \<notin> set a \<and> s = a @ d # b" using split_once_at by fastforce
qed (use split_once_at in blast)

lemma str_contains_iff: "str_contains k s \<longleftrightarrow> (\<exists>a b. s = a @ k @ b)"
proof (induction s)
  case (Cons c s)
  have "(\<exists>a b. c # s = a @ k @ b) \<longleftrightarrow> (\<exists>b. c # s = k @ b) \<or> (\<exists>a b. s = a @ k @ b)"
    by (metis append_Cons append_Nil neq_Nil_conv list.sel(3))
  then show ?case using Cons by auto
qed simp

subsection \<open>Trimming text that has nothing to trim\<close>

definition graphic :: "char \<Rightarrow> bool" where
  "graphic c \<longleftrightarrow> 33 \<le> (of_char c :: nat) \<and> (of_char c :: nat) < 128"

lemma white_space_not_graphic:
  "list_all (\<lambda>w. w \<noteq> [] \<and> \<not> graphic (hd w) \<and> \<not> graphic (last w)) white_space"
  by (simp add: white_space_def utf8_encode_def graphic_def of_bytes_def upt_rec)

lemma strip_any_None:
  assumes "list_all (\<lambda>w. w \<noteq> [] \<and> \<not> graphic (hd w)) ws" "s = [] \<or> graphic (hd s)"
  shows "strip_any ws s = None"
  using assms(1)
proof (induction ws)
  case (Cons w ws)
  have "strip_prefix w s = None"
  proof (cases "strip_prefix w s")
    case (Some r)
    then show ?thesis using Cons.prems assms(2) by (auto simp: hd_append)
  qed simp
  then show ?case using Cons by simp
qed simp

lemma strip_all_id: "strip_any ws s = None \<Longrightarrow> strip_all n ws s = s"
  by (cases n) simp_all

lemma trim_id:
  assumes "s = [] \<or> graphic (hd s) \<and> graphic (last s)"
  shows "trim s = s"
proof -
  have "strip_any white_space s = None" "strip_any (map rev white_space) (rev s) = None"
    using white_space_not_graphic assms
    by (auto intro!: strip_any_None simp: list_all_iff hd_rev)
  then show ?thesis by (simp add: trim_def trim_start_def trim_end_def strip_all_id)
qed

end
