(* ===== verification/Rule_Globs.thy ===== *)
theory Rule_Globs
  imports Rust_Str
begin

text \<open>
  Domain patterns with \<^verbatim>\<open>*\<close> in \<^verbatim>\<open>crates/config/src/rule.rs\<close>: \<^verbatim>\<open>label_matches\<close>, a greedy match that
  backtracks to the last star, \<^verbatim>\<open>glob_matches\<close>, which applies it label by label, and
  \<^verbatim>\<open>fixed_suffix\<close>, the labels behind the last star. The loop is shown to end and to compute what a
  star means.
\<close>

subsection \<open>The functions\<close>

text \<open>The loop of \<^verbatim>\<open>label_matches\<close> with its indices; \<open>None\<close> would be a loop that does not end.\<close>

partial_function (option) label_loop ::
    "string \<Rightarrow> string \<Rightarrow> nat \<Rightarrow> nat \<Rightarrow> (nat \<times> nat) option \<Rightarrow> bool option" where
  "label_loop pat lab p l star =
     (if l < length lab then
        (if p < length pat \<and> pat ! p = CHR ''*'' then label_loop pat lab (p + 1) l (Some (p, l))
         else if p < length pat \<and> eq_ignore_ascii_case (pat ! p) (lab ! l)
         then label_loop pat lab (p + 1) (l + 1) star
         else
           (case star of
              Some (sp, sl) \<Rightarrow> label_loop pat lab (sp + 1) (sl + 1) (Some (sp, sl + 1))
            | None \<Rightarrow> Some False))
      else Some (list_all (\<lambda>c. c = CHR ''*'') (drop p pat)))"

declare label_loop.simps [code]

definition label_matches :: "string \<Rightarrow> string \<Rightarrow> bool" where
  "label_matches pat lab \<longleftrightarrow> label_loop pat lab 0 0 None = Some True"

fun glob_parts :: "string list \<Rightarrow> string list \<Rightarrow> bool" where
  "glob_parts (part # parts) (label # labels) \<longleftrightarrow>
     label_matches part label \<and> glob_parts parts labels"
| "glob_parts (part # parts) [] \<longleftrightarrow> False"
| "glob_parts [] labels \<longleftrightarrow> labels = []"

definition glob_matches :: "string \<Rightarrow> string \<Rightarrow> bool" where
  "glob_matches pattern host \<longleftrightarrow>
     glob_parts (str_split CHR ''.'' pattern) (str_split CHR ''.'' host)"

definition fixed_suffix :: "string \<Rightarrow> string option" where
  "fixed_suffix pattern =
     (case str_rfind CHR ''*'' pattern of
        None \<Rightarrow> None
      | Some star \<Rightarrow>
          (case str_find CHR ''.'' (drop star pattern) of
             None \<Rightarrow> None
           | Some n \<Rightarrow> Some (drop (star + n + 1) pattern)))"

subsection \<open>What a star means\<close>

fun glob :: "string \<Rightarrow> string \<Rightarrow> bool" where
  "glob [] s \<longleftrightarrow> s = []"
| "glob (c # cs) [] \<longleftrightarrow> c = CHR ''*'' \<and> glob cs []"
| "glob (c # cs) (x # s) \<longleftrightarrow>
     (if c = CHR ''*'' then glob cs (x # s) \<or> glob (c # cs) s
      else eq_ignore_ascii_case c x \<and> glob cs s)"

lemma glob_star: "glob (CHR ''*'' # cs) s \<longleftrightarrow> (\<exists>a b. s = a @ b \<and> glob cs b)"
proof (induction s)
  case (Cons x s)
  have "(\<exists>a b. x # s = a @ b \<and> glob cs b) \<longleftrightarrow> glob cs (x # s) \<or> (\<exists>a b. s = a @ b \<and> glob cs b)"
    by (metis append_Cons append_Nil list.exhaust list.sel(3))
  then show ?case using Cons by simp
qed simp

lemma glob_star_drop:
  "glob (CHR ''*'' # cs) (drop l s) \<longleftrightarrow> (\<exists>k\<ge>l. k \<le> max l (length s) \<and> glob cs (drop k s))"
proof
  assume "glob (CHR ''*'' # cs) (drop l s)"
  then obtain a b where ab: "drop l s = a @ b" "glob cs b" by (auto simp: glob_star)
  then have "b = drop (length a + l) s" by (metis append_eq_conv_conj drop_drop)
  moreover have "length a + l \<le> max l (length s)"
  proof -
    have "length a \<le> length (drop l s)" by (simp add: ab(1))
    then show ?thesis by auto
  qed
  ultimately show "\<exists>k\<ge>l. k \<le> max l (length s) \<and> glob cs (drop k s)"
    using ab(2) by (intro exI [of _ "length a + l"]) simp
next
  assume "\<exists>k\<ge>l. k \<le> max l (length s) \<and> glob cs (drop k s)"
  then obtain k where k: "l \<le> k" "glob cs (drop k s)" by auto
  then have "drop l s = take (k - l) (drop l s) @ drop k s"
    by (metis append_take_drop_id drop_drop le_add_diff_inverse2)
  then show "glob (CHR ''*'' # cs) (drop l s)" unfolding glob_star using k(2) by blast
qed

lemma glob_nil: "glob cs [] \<longleftrightarrow> list_all (\<lambda>c. c = CHR ''*'') cs"
  by (induction cs) simp_all

lemma glob_literal:
  assumes "CHR ''*'' \<notin> set seg"
  shows "glob (seg @ cs) s \<Longrightarrow> length seg \<le> length s \<and> glob cs (drop (length seg) s)"
  using assms
proof (induction seg arbitrary: s)
  case (Cons c seg)
  then show ?case by (cases s) auto
qed simp

lemma glob_plain:
  assumes "CHR ''*'' \<notin> set cs"
  shows "glob cs s \<longleftrightarrow> to_ascii_lowercase cs = to_ascii_lowercase s"
  using assms
proof (induction cs arbitrary: s)
  case Nil
  then show ?case by (auto simp: to_ascii_lowercase_def)
next
  case (Cons c cs)
  then show ?case by (cases s) (auto simp: to_ascii_lowercase_def eq_ignore_ascii_case_def)
qed

subsection \<open>The loop\<close>

text \<open>
  With a star behind it, the loop has matched the literal characters since that star against the
  characters of the label from the position kept with the star.
\<close>

definition star_inv :: "string \<Rightarrow> nat \<Rightarrow> nat \<Rightarrow> (nat \<times> nat) option \<Rightarrow> bool" where
  "star_inv pat p l star \<longleftrightarrow>
     (case star of
        None \<Rightarrow> True
      | Some (sp, sl) \<Rightarrow>
          sp < length pat \<and>
          (\<exists>seg. drop (Suc sp) pat = seg @ drop p pat \<and> CHR ''*'' \<notin> set seg \<and> l = sl + length seg))"

definition again :: "string \<Rightarrow> string \<Rightarrow> (nat \<times> nat) option \<Rightarrow> bool" where
  "again pat lab star \<longleftrightarrow>
     (case star of
        None \<Rightarrow> False
      | Some (sp, sl) \<Rightarrow> \<exists>k>sl. k \<le> length lab \<and> glob (drop (Suc sp) pat) (drop k lab))"

definition loop_measure :: "string \<Rightarrow> string \<Rightarrow> nat \<times> nat \<times> (nat \<times> nat) option \<Rightarrow> nat \<times> nat" where
  "loop_measure pat lab x =
     (case x of (p, l, star) \<Rightarrow>
        (case star of None \<Rightarrow> Suc (length lab) | Some (sp, sl) \<Rightarrow> length lab - sl,
         (length lab - l) + (length pat - p)))"

lemma again_new_star:
  assumes "star_inv pat p l star" "p < length pat" "pat ! p = CHR ''*''" "l \<le> length lab"
  shows "glob (drop p pat) (drop l lab) \<or> again pat lab star \<longleftrightarrow>
    glob (drop (Suc p) pat) (drop l lab) \<or> again pat lab (Some (p, l))"
proof -
  let ?rest = "drop (Suc p) pat"
  have p: "drop p pat = CHR ''*'' # ?rest" using assms(2,3) Cons_nth_drop_Suc by metis
  have "(\<exists>k\<ge>l. k \<le> length lab \<and> glob ?rest (drop k lab)) \<longleftrightarrow>
      glob ?rest (drop l lab) \<or> again pat lab (Some (p, l))"
    using assms(4) by (auto simp: again_def intro: less_imp_le_nat) (metis le_neq_implies_less)
  then have new: "glob (drop p pat) (drop l lab) \<longleftrightarrow>
      glob ?rest (drop l lab) \<or> again pat lab (Some (p, l))"
    using assms(4) unfolding p glob_star_drop by (simp add: max_def)
  have "glob (drop p pat) (drop l lab)" if again: "again pat lab star"
  proof -
    obtain sp sl where s: "star = Some (sp, sl)" using again by (auto simp: again_def split: option.splits)
    then obtain seg where seg: "drop (Suc sp) pat = seg @ drop p pat" "CHR ''*'' \<notin> set seg"
        "l = sl + length seg"
      using assms(1) by (auto simp: star_inv_def)
    obtain k where k: "sl < k" "k \<le> length lab" "glob (seg @ drop p pat) (drop k lab)"
      using again s seg(1) by (auto simp: again_def)
    let ?k = "length seg + k"
    have "?k \<le> length lab" "glob (drop p pat) (drop ?k lab)"
      using glob_literal [OF seg(2) k(3)] k(2) by (auto simp: add.commute)
    then obtain j where "?k \<le> j" "j \<le> length lab" "glob ?rest (drop j lab)"
      unfolding p glob_star_drop by (auto simp: max_def)
    moreover have "l \<le> ?k" using seg(3) k(1) by simp
    ultimately show ?thesis
      unfolding p glob_star_drop using le_trans by (intro exI [of _ j]) (auto simp: max_def)
  qed
  with new show ?thesis by blast
qed

lemma again_step:
  assumes "l < length lab" "star = Some (sp, sl)" "sl \<le> l"
  shows "again pat lab star \<longleftrightarrow>
    glob (drop (Suc sp) pat) (drop (Suc sl) lab) \<or> again pat lab (Some (sp, Suc sl))"
  using assms by (auto simp: again_def Suc_le_eq intro: Suc_lessD) (metis Suc_lessI less_imp_le_nat)

lemma again_at_end:
  assumes "star_inv pat p (length lab) star"
  shows "\<not> again pat lab star"
proof
  assume again: "again pat lab star"
  obtain sp sl where s: "star = Some (sp, sl)" using again by (auto simp: again_def split: option.splits)
  then obtain seg where seg: "drop (Suc sp) pat = seg @ drop p pat" "CHR ''*'' \<notin> set seg"
      "length lab = sl + length seg"
    using assms by (auto simp: star_inv_def)
  obtain k where k: "sl < k" "k \<le> length lab" "glob (seg @ drop p pat) (drop k lab)"
    using again s seg(1) by (auto simp: again_def)
  then have "length seg \<le> length lab - k" using glob_literal [OF seg(2) k(3)] by simp
  then show False using seg(3) k(1,2) by simp
qed

lemma star_inv_steps:
  "p < length pat \<Longrightarrow> star_inv pat (Suc p) l (Some (p, l))"
  "sp < length pat \<Longrightarrow> star_inv pat (Suc sp) sl (Some (sp, sl))"
  "star_inv pat p l star \<Longrightarrow> p < length pat \<Longrightarrow> pat ! p \<noteq> CHR ''*'' \<Longrightarrow> star_inv pat (Suc p) (Suc l) star"
proof -
  show "p < length pat \<Longrightarrow> star_inv pat (Suc p) l (Some (p, l))"
    "sp < length pat \<Longrightarrow> star_inv pat (Suc sp) sl (Some (sp, sl))"
    by (simp_all add: star_inv_def)
  assume inv: "star_inv pat p l star" and p: "p < length pat" "pat ! p \<noteq> CHR ''*''"
  show "star_inv pat (Suc p) (Suc l) star"
  proof (cases star)
    case (Some x)
    obtain sp sl where x: "x = (sp, sl)" by fastforce
    then obtain seg where seg: "drop (Suc sp) pat = seg @ drop p pat" "CHR ''*'' \<notin> set seg"
        "l = sl + length seg"
      using inv Some by (auto simp: star_inv_def)
    then have "drop (Suc sp) pat = (seg @ [pat ! p]) @ drop (Suc p) pat"
      using p(1) by (simp add: Cons_nth_drop_Suc)
    moreover have "sp < length pat" using inv Some x by (simp add: star_inv_def)
    ultimately show ?thesis
      using seg p(2) Some x unfolding star_inv_def
      by (auto intro!: exI [of _ "seg @ [pat ! p]"])
  qed (simp add: star_inv_def)
qed

lemma star_inv_le: "star_inv pat p l (Some (sp, sl)) \<Longrightarrow> sl \<le> l \<and> sp < length pat"
  by (auto simp: star_inv_def)

definition loop_less :: "string \<Rightarrow> string \<Rightarrow> ((nat \<times> nat \<times> (nat \<times> nat) option) \<times> nat \<times> nat \<times> (nat \<times> nat) option) set" where
  "loop_less pat lab = inv_image (less_than <*lex*> less_than) (loop_measure pat lab)"

lemma wf_loop_less: "wf (loop_less pat lab)"
  unfolding loop_less_def by (intro wf_inv_image wf_lex_prod) simp_all

lemma loop_less_steps:
  assumes "l < length lab" "star_inv pat p l star"
  shows "p < length pat \<Longrightarrow> ((Suc p, l, Some (p, l)), p, l, star) \<in> loop_less pat lab"
    "p < length pat \<Longrightarrow> ((Suc p, Suc l, star), p, l, star) \<in> loop_less pat lab"
    "star = Some (sp, sl) \<Longrightarrow> ((Suc sp, Suc sl, Some (sp, Suc sl)), p, l, star) \<in> loop_less pat lab"
  using assms by (auto simp: loop_less_def loop_measure_def dest!: star_inv_le split: option.splits)

text \<open>A step of the loop keeps the answer; when it is stuck, only the star is left.\<close>

lemma glob_at:
  assumes "l < length lab"
  shows "p < length pat \<Longrightarrow> pat ! p \<noteq> CHR ''*'' \<Longrightarrow> eq_ignore_ascii_case (pat ! p) (lab ! l) \<Longrightarrow>
      glob (drop p pat) (drop l lab) = glob (drop (Suc p) pat) (drop (Suc l) lab)"
    "\<not> (p < length pat \<and> (pat ! p = CHR ''*'' \<or> eq_ignore_ascii_case (pat ! p) (lab ! l))) \<Longrightarrow>
      \<not> glob (drop p pat) (drop l lab)"
  using assms by (cases "p < length pat"; auto simp flip: Cons_nth_drop_Suc)+

lemma label_loop_glob:
  assumes "p \<le> length pat" "l \<le> length lab" "star_inv pat p l star"
  shows "label_loop pat lab p l star = Some (glob (drop p pat) (drop l lab) \<or> again pat lab star)"
  using assms
proof (induction "(p, l, star)" arbitrary: p l star rule: wf_induct_rule [OF wf_loop_less [of pat lab]])
  case 1
  note IH = "1.hyps" and inv = "1.prems" and unfold = label_loop.simps [of pat lab p]
  show ?case
  proof (cases "l < length lab")
    case False
    then have "l = length lab" using inv(2) by simp
    then show ?thesis using again_at_end inv(3) by (simp add: unfold glob_nil)
  next
    case l: True
    note less = loop_less_steps [OF l inv(3)]
    consider (star) "p < length pat" "pat ! p = CHR ''*''"
      | (literal) "p < length pat" "pat ! p \<noteq> CHR ''*''" "eq_ignore_ascii_case (pat ! p) (lab ! l)"
      | (stuck) "\<not> (p < length pat \<and> (pat ! p = CHR ''*'' \<or> eq_ignore_ascii_case (pat ! p) (lab ! l)))"
      by blast
    then show ?thesis
    proof cases
      case star
      then show ?thesis
        using IH [OF less(1)] again_new_star [OF inv(3) star inv(2)] l inv star_inv_steps(1)
        by (simp add: unfold)
    next
      case literal
      then show ?thesis
        using IH [OF less(2)] glob_at(1) [OF l literal] l inv star_inv_steps(3) by (simp add: unfold)
    next
      case stuck
      note no = glob_at(2) [OF l stuck]
      show ?thesis
      proof (cases star)
        case None
        then show ?thesis using stuck l no by (auto simp: unfold again_def)
      next
        case (Some x)
        then obtain sp sl where s: "star = Some (sp, sl)" by fastforce
        have "sl \<le> l" "sp < length pat" using star_inv_le inv(3) s by blast+
        then show ?thesis
          using stuck l no s IH [OF less(3) [OF s]] again_step [OF l s, of pat] star_inv_steps(2)
          by (auto simp: unfold)
      qed
    qed
  qed
qed

lemma label_matches_iff: "label_matches pat lab \<longleftrightarrow> glob pat lab"
  using label_loop_glob [of 0 pat 0 lab None] by (simp add: star_inv_def again_def label_matches_def)

text \<open>
  C29. The greedy matching of a label with backtracking to the last star only always ends, and it
  accepts exactly the labels that the pattern describes: its characters in order, ignoring ASCII
  case, with any run of characters for every star.
\<close>

theorem label_matches_glob:
  "(\<exists>b. label_loop pat lab 0 0 None = Some b) \<and> (label_matches pat lab \<longleftrightarrow> glob pat lab)"
  using label_loop_glob [of 0 pat 0 lab None] by (simp add: star_inv_def again_def label_matches_def)

end
