(* ===== verification/Rule_Domains.thy ===== *)
theory Rule_Domains
  imports Rule_Globs Rust_Slices "HOL-Library.Product_Lexorder" "HOL-Library.List_Lexorder" "HOL-Library.Char_ord"
begin

text \<open>
  \<^verbatim>\<open>DomainList\<close>, \<^verbatim>\<open>Globs\<close> and \<^verbatim>\<open>DomainSet\<close> of \<^verbatim>\<open>crates/config/src/rule.rs\<close>: domains as sorted hashes,
  patterns indexed by the hash of their fixed suffix, and the loop over the labels of a host that
  searches all of them. The keyed hash of the process is the parameter \<open>hash\<close>, compiled regular
  expressions are the type \<open>'r\<close> with the functions of \<open>regex_api\<close>.
\<close>

record 'r regex_api =
  re_build :: "bool \<Rightarrow> nat option \<Rightarrow> string \<Rightarrow> 'r outcome"
  re_is_match :: "'r \<Rightarrow> string \<Rightarrow> bool"
  re_as_str :: "'r \<Rightarrow> string"
  re_escape :: "string \<Rightarrow> string"

text \<open>The arguments of \<open>re_build\<close> are case insensitivity, the size limit and the source.\<close>

definition compile_regex :: "'r regex_api \<Rightarrow> string \<Rightarrow> 'r outcome" where
  "compile_regex api pattern = re_build api True (Some (2 * 1024 * 1024)) pattern"

type_synonym domain_hash = "string \<Rightarrow> uint64"

subsection \<open>Lists of hashes\<close>

record domain_list = hashes :: "uint64 list"

definition DomainList_contains :: "domain_list \<Rightarrow> uint64 \<Rightarrow> bool" where
  "DomainList_contains l h = (case binary_search h (hashes l) of Inr _ \<Rightarrow> True | Inl _ \<Rightarrow> False)"

definition DomainList_is_empty :: "domain_list \<Rightarrow> bool" where
  "DomainList_is_empty l \<longleftrightarrow> hashes l = []"

text \<open>\<^verbatim>\<open>ListBuilder\<close> is the list of the hashes pushed; \<^verbatim>\<open>dedup\<close> drops equal neighbours.\<close>

definition ListBuilder_build :: "uint64 list \<Rightarrow> domain_list" where
  "ListBuilder_build hs = \<lparr>hashes = remdups_adj (sort hs)\<rparr>"

subsection \<open>Indexed patterns\<close>

record globs =
  anchored :: "(uint64 \<times> nat \<times> string) list"
  loose :: "string list"

definition label_count :: "string \<Rightarrow> nat" where
  "label_count s = length (str_split CHR ''.'' s)"

definition glob_push :: "domain_hash \<Rightarrow> string \<Rightarrow> globs \<Rightarrow> globs" where
  "glob_push hash pattern g =
     (case fixed_suffix pattern of
        Some suffix \<Rightarrow> g\<lparr>anchored := anchored g @ [(hash suffix, label_count pattern, pattern)]\<rparr>
      | None \<Rightarrow> g\<lparr>loose := loose g @ [pattern]\<rparr>)"

definition Globs_new :: "domain_hash \<Rightarrow> string list \<Rightarrow> globs" where
  "Globs_new hash patterns =
     (let g = fold (glob_push hash) patterns \<lparr>anchored = [], loose = []\<rparr>
      in \<lparr>anchored = remdups_adj (sort (anchored g)), loose = remdups_adj (sort (loose g))\<rparr>)"

definition anchored_at :: "globs \<Rightarrow> uint64 \<Rightarrow> nat \<Rightarrow> string \<Rightarrow> bool" where
  "anchored_at g suffix labels host =
     (let start = partition_point (\<lambda>e. fst e < suffix) (anchored g)
      in list_ex (\<lambda>(_, count, pattern). count = labels \<and> glob_matches pattern host)
           (takeWhile (\<lambda>e. fst e = suffix) (drop start (anchored g))))"

definition loose_matches :: "globs \<Rightarrow> string \<Rightarrow> bool" where
  "loose_matches g host = list_ex (\<lambda>pattern. glob_matches pattern host) (loose g)"

definition Globs_len :: "globs \<Rightarrow> nat" where
  "Globs_len g = length (anchored g) + length (loose g)"

subsection \<open>Sets of domain conditions\<close>

record 'r domain_set =
  ds_exact :: domain_list
  ds_suffix :: domain_list
  ds_subdomain :: domain_list
  ds_globs :: globs
  ds_keywords :: "string list"
  ds_regex :: "'r list"

text \<open>The loop over the labels of the host; \<open>label\<close> is what is left of it.\<close>

function host_loop ::
    "domain_hash \<Rightarrow> 'r domain_set \<Rightarrow> string \<Rightarrow> nat \<Rightarrow> bool \<Rightarrow> bool \<Rightarrow> string \<Rightarrow> bool \<Rightarrow> bool" where
  "host_loop hash s host labels has_lists has_globs label first =
     (let h = hash label
      in if has_lists \<and>
           (first \<and> DomainList_contains (ds_exact s) h \<or>
            DomainList_contains (ds_suffix s) h \<or>
            \<not> first \<and> DomainList_contains (ds_subdomain s) h)
         then True
         else if has_globs \<and> \<not> first \<and> anchored_at (ds_globs s) h labels host then True
         else
           (case split_once CHR ''.'' label of
              Some (_, rest) \<Rightarrow> host_loop hash s host labels has_lists has_globs rest False
            | None \<Rightarrow> False))"
  by pat_completeness auto
termination
  by (relation "measure (\<lambda>(hash, s, host, labels, has_lists, has_globs, label, first). length label)")
     (auto simp: split_once_Some)

declare host_loop.simps [simp del]

definition DomainSet_matches :: "'r regex_api \<Rightarrow> domain_hash \<Rightarrow> 'r domain_set \<Rightarrow> string \<Rightarrow> bool" where
  "DomainSet_matches api hash s host =
     (let has_lists = \<not> (DomainList_is_empty (ds_exact s) \<and> DomainList_is_empty (ds_suffix s) \<and>
                         DomainList_is_empty (ds_subdomain s));
          has_globs = (anchored (ds_globs s) \<noteq> []);
          labels = (if has_globs then label_count host else 0)
      in (has_lists \<or> has_globs) \<and> host_loop hash s host labels has_lists has_globs host True \<or>
         loose_matches (ds_globs s) host \<or>
         list_ex (\<lambda>k. str_contains k host) (ds_keywords s) \<or>
         list_ex (\<lambda>r. re_is_match api r host) (ds_regex s))"

definition DomainSet_len :: "'r domain_set \<Rightarrow> nat" where
  "DomainSet_len s =
     length (hashes (ds_exact s)) + length (hashes (ds_suffix s)) + length (hashes (ds_subdomain s)) +
     Globs_len (ds_globs s) + length (ds_keywords s) + length (ds_regex s)"

definition DomainSet_is_empty :: "'r domain_set \<Rightarrow> bool" where
  "DomainSet_is_empty s \<longleftrightarrow> DomainSet_len s = 0"

subsection \<open>Lists and the index\<close>

lemma list_built [simp]:
  "DomainList_contains (ListBuilder_build hs) h \<longleftrightarrow> h \<in> set hs"
  "DomainList_is_empty (ListBuilder_build hs) \<longleftrightarrow> hs = []"
proof -
  have "sorted (remdups_adj (sort hs))" by (simp add: sorted_remdups_adj)
  from binary_search_found [OF this, of h]
  show "DomainList_contains (ListBuilder_build hs) h \<longleftrightarrow> h \<in> set hs"
    by (auto simp: DomainList_contains_def ListBuilder_build_def split: sum.splits)
  have "sort hs = [] \<longleftrightarrow> hs = []" by (metis length_0_conv length_sort)
  then show "DomainList_is_empty (ListBuilder_build hs) \<longleftrightarrow> hs = []"
    by (simp add: DomainList_is_empty_def ListBuilder_build_def)
qed

lemma sorted_fst: "sorted xs \<Longrightarrow> sorted (map fst xs)"
  by (induction xs) (auto simp: less_eq_prod_def)

lemma equal_run:
  assumes "sorted (map fst xs)"
  shows "set (takeWhile (\<lambda>e. fst e = x) (drop (partition_point (\<lambda>e. fst e < x) xs) xs)) =
    {e \<in> set xs. fst e = x}"
proof -
  have "partition_point (\<lambda>e. fst e < x) xs = length (takeWhile (\<lambda>e. fst e < x) xs)"
    using assms by (rule partition_point_sorted) (rule order_le_less_trans)
  then have "drop (partition_point (\<lambda>e. fst e < x) xs) xs = dropWhile (\<lambda>e. fst e < x) xs"
    by (simp add: dropWhile_eq_drop)
  moreover have "set (takeWhile (\<lambda>e. fst e = x) (dropWhile (\<lambda>e. fst e < x) xs)) = {e \<in> set xs. fst e = x}"
    using assms
  proof (induction xs)
    case (Cons e xs)
    have rest: "set (takeWhile (\<lambda>e. fst e = x) ys) = {e \<in> set ys. fst e = x}"
      if "sorted (map fst ys)" "\<forall>e\<in>set ys. x \<le> fst e" for ys
      using that by (induction ys) force+
    show ?case
    proof (cases "fst e < x")
      case False
      then show ?thesis using rest [of "e # xs"] Cons.prems by (force simp: not_less)
    qed (use Cons in auto)
  qed simp
  ultimately show ?thesis by simp
qed

lemma fold_glob_push:
  "anchored (fold (glob_push hash) ps g) =
     anchored g @ concat (map (\<lambda>p. case fixed_suffix p of
       Some s \<Rightarrow> [(hash s, label_count p, p)] | None \<Rightarrow> []) ps)"
  "loose (fold (glob_push hash) ps g) = loose g @ filter (\<lambda>p. fixed_suffix p = None) ps"
  by (induction ps arbitrary: g) (auto simp: glob_push_def split: option.splits)

lemma globs_built:
  "sorted (anchored (Globs_new hash ps))"
  "(h, n, p) \<in> set (anchored (Globs_new hash ps)) \<longleftrightarrow>
     p \<in> set ps \<and> n = label_count p \<and> (\<exists>s. fixed_suffix p = Some s \<and> h = hash s)"
  "p \<in> set (loose (Globs_new hash ps)) \<longleftrightarrow> p \<in> set ps \<and> fixed_suffix p = None"
proof -
  have "set (case r of None \<Rightarrow> [] | Some s \<Rightarrow> [f s]) = {f s |s. r = Some s}" for r :: "string option" and f
    by (cases r) auto
  then show "(h, n, p) \<in> set (anchored (Globs_new hash ps)) \<longleftrightarrow>
     p \<in> set ps \<and> n = label_count p \<and> (\<exists>s. fixed_suffix p = Some s \<and> h = hash s)"
    by (cases "fixed_suffix p") (auto simp: Globs_new_def Let_def fold_glob_push intro!: bexI [of _ p])
qed (auto simp: Globs_new_def Let_def sorted_remdups_adj fold_glob_push)

lemma anchored_at_built:
  "anchored_at (Globs_new hash ps) h labels host \<longleftrightarrow>
    (\<exists>p\<in>set ps. \<exists>s. fixed_suffix p = Some s \<and> h = hash s \<and> label_count p = labels \<and> glob_matches p host)"
proof -
  have "anchored_at (Globs_new hash ps) h labels host \<longleftrightarrow>
      (\<exists>n p. (h, n, p) \<in> set (anchored (Globs_new hash ps)) \<and> n = labels \<and> glob_matches p host)"
    unfolding anchored_at_def Let_def list_ex_iff equal_run [OF sorted_fst [OF globs_built(1)]] by auto
  then show ?thesis by (auto simp: globs_built(2))
qed

subsection \<open>Patterns and the suffixes of a host\<close>

lemma find_split:
  "str_find d s = Some n \<Longrightarrow> \<exists>a b. s = a @ d # b \<and> n = length a"
proof -
  assume r: "str_find d s = Some n"
  then have "d \<in> set s" by (auto simp: str_find_def split: if_splits)
  then obtain a b where ab: "s = a @ d # b" "d \<notin> set a" using split_list_first by metis
  then have "takeWhile (\<lambda>c. c \<noteq> d) s = a" using while_at by metis
  then show ?thesis using r ab by (auto simp: str_find_def)
qed

lemma rfind_split:
  "str_rfind d s = Some n \<Longrightarrow> \<exists>a b. s = a @ d # b \<and> d \<notin> set b \<and> n = length a"
proof -
  assume r: "str_rfind d s = Some n"
  then have "d \<in> set s" by (auto simp: str_rfind_def split: if_splits)
  then obtain a b where ab: "s = a @ d # b" "d \<notin> set b" using split_list_last by metis
  then have "takeWhile (\<lambda>c. c \<noteq> d) (rev s) = rev b" using while_at(2) [of d "rev b" "rev a"] by simp
  then show ?thesis using r ab by (auto simp: str_rfind_def)
qed

lemma fixed_suffix_split:
  assumes "fixed_suffix p = Some s"
  shows "\<exists>q. p = q @ CHR ''.'' # s \<and> CHR ''*'' \<notin> set s"
proof -
  obtain star n where n: "str_rfind CHR ''*'' p = Some star" "str_find CHR ''.'' (drop star p) = Some n"
      "s = drop (star + n + 1) p"
    using assms by (auto simp: fixed_suffix_def split: option.splits)
  obtain a b where ab: "p = a @ CHR ''*'' # b" "CHR ''*'' \<notin> set b" "star = length a"
    using rfind_split [OF n(1)] by blast
  then obtain c e where ce: "CHR ''*'' # b = c @ CHR ''.'' # e" "n = length c"
    using find_split [OF n(2)] by auto
  have "s = e" using n(3) ab ce by simp
  moreover have "p = (a @ c) @ CHR ''.'' # e" using ab(1) ce(1) by simp
  moreover have "CHR ''*'' \<notin> set e" using ab(2) ce(1) by (cases c) auto
  ultimately show ?thesis by blast
qed

lemma glob_parts_append:
  "glob_parts (ps @ qs) ls \<longleftrightarrow> (\<exists>as bs. ls = as @ bs \<and> glob_parts ps as \<and> glob_parts qs bs)"
proof (induction ps arbitrary: ls)
  case Nil
  then show ?case by auto
next
  case (Cons p ps)
  show ?case
  proof (cases ls)
    case (Cons l ls')
    have "(\<exists>as bs. l # ls' = as @ bs \<and> glob_parts (p # ps) as \<and> glob_parts qs bs) \<longleftrightarrow>
      label_matches p l \<and> (\<exists>as bs. ls' = as @ bs \<and> glob_parts ps as \<and> glob_parts qs bs)"
    proof (intro iffI; elim exE conjE)
      fix as bs assume r: "l # ls' = as @ bs" "glob_parts (p # ps) as" "glob_parts qs bs"
      then show "label_matches p l \<and> (\<exists>as bs. ls' = as @ bs \<and> glob_parts ps as \<and> glob_parts qs bs)"
        by (cases as) auto
    next
      fix as bs assume "label_matches p l" "ls' = as @ bs" "glob_parts ps as" "glob_parts qs bs"
      then show "\<exists>as bs. l # ls' = as @ bs \<and> glob_parts (p # ps) as \<and> glob_parts qs bs"
        by (intro exI [of _ "l # as"] exI [of _ bs]) simp
    qed
    then show ?thesis using Cons.IH Cons by simp
  qed simp
qed

lemma glob_parts_length: "glob_parts ps ls \<Longrightarrow> length ps = length ls"
  by (induction ps ls rule: glob_parts.induct) simp_all

lemma split_parts: "w \<in> set (str_split d s) \<Longrightarrow> set w \<subseteq> set s"
proof (induction s arbitrary: w)
  case (Cons c s)
  then show ?case by (cases "str_split d s") (fastforce split: if_splits)+
qed simp

definition is_lower :: "string \<Rightarrow> bool" where
  "is_lower s \<longleftrightarrow> to_ascii_lowercase s = s"

lemma is_lower_iff: "is_lower s \<longleftrightarrow> (\<forall>c\<in>set s. ascii_lower c = c)"
  by (simp add: is_lower_def to_ascii_lowercase_def list_eq_iff_nth_eq all_set_conv_all_nth)

lemma glob_parts_plain:
  assumes "\<forall>p\<in>set ps. CHR ''*'' \<notin> set p \<and> is_lower p" "\<forall>l\<in>set ls. is_lower l"
  shows "glob_parts ps ls \<longleftrightarrow> ls = ps"
  using assms
  by (induction ps ls rule: glob_parts.induct) (auto simp: label_matches_iff glob_plain is_lower_def)

lemma glob_needs_suffix:
  assumes "glob_matches p host" "fixed_suffix p = Some s" "is_lower p" "is_lower host"
  shows "\<exists>q. host = q @ CHR ''.'' # s" "label_count p = label_count host"
proof -
  obtain q where q: "p = q @ CHR ''.'' # s" "CHR ''*'' \<notin> set s" using fixed_suffix_split [OF assms(2)] by blast
  obtain as bs where ls: "str_split CHR ''.'' host = as @ bs"
      "glob_parts (str_split CHR ''.'' q) as" "glob_parts (str_split CHR ''.'' s) bs"
    using assms(1) by (auto simp: glob_matches_def q(1) str_split_append glob_parts_append)
  have "\<forall>w\<in>set (str_split CHR ''.'' s). CHR ''*'' \<notin> set w \<and> is_lower w"
    using split_parts [of _ "CHR ''.''" s] q assms(3) by (fastforce simp: is_lower_iff)
  moreover have "\<forall>l\<in>set bs. is_lower l"
    using split_parts [of _ "CHR ''.''" host] ls(1) assms(4) by (fastforce simp: is_lower_iff)
  ultimately have bs: "bs = str_split CHR ''.'' s" using glob_parts_plain ls(3) by blast
  have "as \<noteq> []" using glob_parts_length [OF ls(2)] by auto
  then have "host = str_join CHR ''.'' as @ CHR ''.'' # s"
    using str_join_split [of "CHR ''.''" host] unfolding ls(1) bs by (simp add: str_join_append)
  then show "\<exists>q. host = q @ CHR ''.'' # s" by blast
  show "label_count p = label_count host"
    using assms(1) glob_parts_length by (simp add: label_count_def glob_matches_def)
qed

subsection \<open>The loop over the labels\<close>

text \<open>\<open>below d host\<close>: the host is a subdomain of \<open>d\<close>, with any text before the dot.\<close>

definition below :: "string \<Rightarrow> string \<Rightarrow> bool" where
  "below d host \<longleftrightarrow> (\<exists>p. host = p @ CHR ''.'' # d)"

lemma below_split_once:
  "(\<exists>r. below r s \<and> Q r) \<longleftrightarrow>
    (case split_once CHR ''.'' s of None \<Rightarrow> False | Some (_, b) \<Rightarrow> Q b \<or> (\<exists>r. below r b \<and> Q r))"
proof (cases "split_once CHR ''.'' s")
  case None
  then have "CHR ''.'' \<notin> set s" using split_once_None by blast
  then have "\<not> below r s" for r by (auto simp: below_def)
  then show ?thesis using None by simp
next
  case (Some x)
  obtain a b where x: "x = (a, b)" by fastforce
  then have s: "s = a @ CHR ''.'' # b" "CHR ''.'' \<notin> set a" using Some by (simp_all add: split_once_Some)
  have "below r s \<longleftrightarrow> r = b \<or> below r b" for r
  proof
    assume "below r s"
    then obtain p where "a @ CHR ''.'' # b = p @ CHR ''.'' # r" using s(1) by (auto simp: below_def)
    then show "r = b \<or> below r b"
      using s(2) by (auto simp: append_eq_append_conv2 append_eq_Cons_conv Cons_eq_append_conv below_def)
  next
    assume "r = b \<or> below r b"
    then show "below r s"
    proof
      assume "below r b"
      then obtain p where "b = p @ CHR ''.'' # r" by (auto simp: below_def)
      then have "s = (a @ CHR ''.'' # p) @ CHR ''.'' # r" using s(1) by simp
      then show ?thesis unfolding below_def by blast
    qed (use s(1) in \<open>auto simp: below_def\<close>)
  qed
  then show ?thesis using Some x by auto
qed

definition hits :: "'r domain_set \<Rightarrow> string \<Rightarrow> nat \<Rightarrow> bool \<Rightarrow> bool \<Rightarrow> uint64 \<Rightarrow> bool \<Rightarrow> bool" where
  "hits s host labels has_lists has_globs h first \<longleftrightarrow>
     has_lists \<and>
       (first \<and> DomainList_contains (ds_exact s) h \<or>
        DomainList_contains (ds_suffix s) h \<or>
        \<not> first \<and> DomainList_contains (ds_subdomain s) h) \<or>
     has_globs \<and> \<not> first \<and> anchored_at (ds_globs s) h labels host"

lemma host_loop_iff:
  "host_loop hash s host labels has_lists has_globs label first \<longleftrightarrow>
    hits s host labels has_lists has_globs (hash label) first \<or>
    (\<exists>r. below r label \<and> hits s host labels has_lists has_globs (hash r) False)"
proof (induction hash s host labels has_lists has_globs label first rule: host_loop.induct)
  case (1 hash s host labels has_lists has_globs label first)
  let ?hits = "hits s host labels has_lists has_globs"
  have "host_loop hash s host labels has_lists has_globs label first \<longleftrightarrow>
    ?hits (hash label) first \<or>
    (case split_once CHR ''.'' label of None \<Rightarrow> False
     | Some (_, b) \<Rightarrow> host_loop hash s host labels has_lists has_globs b False)"
    unfolding host_loop.simps [of hash s host labels has_lists has_globs label first] hits_def Let_def
    by (auto split: option.splits)
  also have "\<dots> \<longleftrightarrow> ?hits (hash label) first \<or> (\<exists>r. below r label \<and> ?hits (hash r) False)"
  proof (cases "?hits (hash label) first")
    case False
    show ?thesis
    proof (cases "split_once CHR ''.'' label")
      case None
      then show ?thesis unfolding below_split_once [of label] by simp
    next
      case (Some x)
      obtain a b where x: "x = (a, b)" by fastforce
      have "host_loop hash s host labels has_lists has_globs b False \<longleftrightarrow>
          ?hits (hash b) False \<or> (\<exists>r. below r b \<and> ?hits (hash r) False)"
        using "1.IH" [OF refl _ _ Some x [symmetric]] False unfolding hits_def by blast
      then show ?thesis using Some x unfolding below_split_once [of label] by simp
    qed
  qed simp
  finally show ?case .
qed

subsection \<open>What a set matches\<close>

text \<open>The set packed from exact domains, suffixes, parents of subdomains and patterns.\<close>

definition packs ::
    "domain_hash \<Rightarrow> string list \<Rightarrow> string list \<Rightarrow> string list \<Rightarrow> string list \<Rightarrow> 'r domain_set \<Rightarrow> bool" where
  "packs hash E S D G s \<longleftrightarrow>
     ds_exact s = ListBuilder_build (map hash E) \<and> ds_suffix s = ListBuilder_build (map hash S) \<and>
     ds_subdomain s = ListBuilder_build (map hash D) \<and> ds_globs s = Globs_new hash G"

text \<open>No two different names among the listed domains and the ends of the host share a hash.\<close>

definition no_collision :: "domain_hash \<Rightarrow> string set \<Rightarrow> string \<Rightarrow> bool" where
  "no_collision hash names host \<longleftrightarrow>
     (\<forall>d r. d \<in> names \<longrightarrow> r = host \<or> below r host \<longrightarrow> hash d = hash r \<longrightarrow> d = r)"

lemma globs_match:
  assumes "list_all is_lower G" "is_lower host"
  shows "(\<exists>r. below r host \<and> anchored_at (Globs_new hash G) (hash r) (label_count host) host) \<or>
      loose_matches (Globs_new hash G) host \<longleftrightarrow>
    list_ex (\<lambda>g. glob_matches g host) G"
proof
  assume "list_ex (\<lambda>g. glob_matches g host) G"
  then obtain g where g: "g \<in> set G" "glob_matches g host" by (auto simp: list_ex_iff)
  show "(\<exists>r. below r host \<and> anchored_at (Globs_new hash G) (hash r) (label_count host) host) \<or>
      loose_matches (Globs_new hash G) host"
  proof (cases "fixed_suffix g")
    case None
    then show ?thesis using g by (auto simp: loose_matches_def list_ex_iff globs_built(3))
  next
    case (Some s)
    have "is_lower g" using g(1) assms(1) by (simp add: list_all_iff)
    note suffix = glob_needs_suffix [OF g(2) Some this assms(2)]
    then have "below s host" by (simp add: below_def)
    then show ?thesis using g Some suffix(2) by (auto simp: anchored_at_built)
  qed
qed (auto simp: anchored_at_built loose_matches_def list_ex_iff globs_built(3))

lemma DomainSet_matches_hashes:
  assumes "packs hash E S D G s" "list_all is_lower G" "is_lower host"
  shows "DomainSet_matches api hash s host \<longleftrightarrow>
    hash host \<in> hash ` set E \<or>
    hash host \<in> hash ` set S \<or> (\<exists>r. below r host \<and> hash r \<in> hash ` (set S \<union> set D)) \<or>
    list_ex (\<lambda>g. glob_matches g host) G \<or>
    list_ex (\<lambda>k. str_contains k host) (ds_keywords s) \<or>
    list_ex (\<lambda>r. re_is_match api r host) (ds_regex s)"
proof -
  let ?g = "Globs_new hash G"
  have s: "ds_exact s = ListBuilder_build (map hash E)" "ds_suffix s = ListBuilder_build (map hash S)"
      "ds_subdomain s = ListBuilder_build (map hash D)" "ds_globs s = ?g"
    using assms(1) by (simp_all add: packs_def)
  have none: "\<not> anchored_at ?g h n host" if "anchored ?g = []" for h n
    using that by (simp add: anchored_at_def)
  have "DomainSet_matches api hash s host \<longleftrightarrow>
      hash host \<in> hash ` set E \<or> hash host \<in> hash ` set S \<or>
      (\<exists>r. below r host \<and> hash r \<in> hash ` (set S \<union> set D)) \<or>
      ((\<exists>r. below r host \<and> anchored_at ?g (hash r) (label_count host) host) \<or> loose_matches ?g host) \<or>
      list_ex (\<lambda>k. str_contains k host) (ds_keywords s) \<or> list_ex (\<lambda>r. re_is_match api r host) (ds_regex s)"
    unfolding DomainSet_matches_def Let_def host_loop_iff hits_def s list_built
    using none by (auto simp: image_Un)
  then show ?thesis unfolding globs_match [OF assms(2,3)] by blast
qed

text \<open>Without a collision the hashes stand for the names; a name that is listed is always found.\<close>

lemma DomainSet_matches_names:
  assumes "packs hash E S D G s" "list_all is_lower G" "is_lower host"
    and "no_collision hash (set E \<union> set S \<union> set D) host"
  shows "DomainSet_matches api hash s host \<longleftrightarrow>
    host \<in> set E \<or> host \<in> set S \<or> (\<exists>d \<in> set S \<union> set D. below d host) \<or>
    list_ex (\<lambda>g. glob_matches g host) G \<or>
    list_ex (\<lambda>k. str_contains k host) (ds_keywords s) \<or>
    list_ex (\<lambda>r. re_is_match api r host) (ds_regex s)"
proof -
  have "hash r \<in> hash ` A \<longleftrightarrow> r \<in> A"
    if "A \<subseteq> set E \<union> set S \<union> set D" "r = host \<or> below r host" for A r
  proof
    assume "hash r \<in> hash ` A"
    then obtain d where "d \<in> A" "hash d = hash r" by auto
    then show "r \<in> A" using assms(4) that unfolding no_collision_def by blast
  qed simp
  then have names: "hash host \<in> hash ` set E \<longleftrightarrow> host \<in> set E" "hash host \<in> hash ` set S \<longleftrightarrow> host \<in> set S"
    "below r host \<Longrightarrow> hash r \<in> hash ` (set S \<union> set D) \<longleftrightarrow> r \<in> set S \<union> set D" for r
    by (simp_all add: le_supI1 le_supI2)
  then have "(\<exists>r. below r host \<and> hash r \<in> hash ` (set S \<union> set D)) \<longleftrightarrow> (\<exists>d \<in> set S \<union> set D. below d host)"
    by blast
  then show ?thesis unfolding DomainSet_matches_hashes [OF assms(1-3)] names(1,2) by simp
qed

end
