(* ===== verification/Rule_Matcher.thy ===== *)
theory Rule_Matcher
  imports Rule_Ips Rule_Domains
begin

text \<open>
  \<^verbatim>\<open>Matcher\<close> of \<^verbatim>\<open>crates/config/src/rule.rs\<close>: the conditions of a rule, their evaluation in three
  values (an unknown result asks for the address of the host), the binding of references to loaded
  data, and \<^verbatim>\<open>DomainSetBuilder\<close>, which packs domain conditions into a \<^verbatim>\<open>DomainSet\<close>. The state of a
  named network, an atomic flag in the code, is the second field of \<open>M_OnNetwork\<close>.
\<close>

datatype 'r matcher =
    M_Domain string
  | M_Suffix string
  | M_Subdomain string
  | M_Keyword string
  | M_Regex 'r
  | M_Net ip_net
  | M_Port uint16
  | M_Ports "(uint16 \<times> uint16) list"
  | M_Network string
  | M_OnNetwork string bool
  | M_GeoIp string
  | M_GeoSite string
  | M_RuleSet string
  | M_And "'r matcher list"
  | M_Or "'r matcher list"
  | M_Not "'r matcher"
  | M_NoResolve "'r matcher"
  | M_Domains "'r domain_set"
  | M_Nets ip_set
  | M_ExternalIp "ip_addr \<Rightarrow> bool"
  | M_All

text \<open>Results that touch no state: \<^verbatim>\<open>?\<close> and the collection of a list of results.\<close>

definition out_then :: "'a outcome \<Rightarrow> ('a \<Rightarrow> 'b outcome) \<Rightarrow> 'b outcome" where
  "out_then r f = (case r of Done x \<Rightarrow> f x | Fail e \<Rightarrow> Fail e | Panicked e \<Rightarrow> Panicked e)"

lemma out_then_simps [simp]:
  "out_then (Done x) f = f x" "out_then (Fail e) f = Fail e" "out_then (Panicked e) f = Panicked e"
  by (simp_all add: out_then_def)

lemma out_then_Done [simp]: "out_then r f = Done y \<longleftrightarrow> (\<exists>x. r = Done x \<and> f x = Done y)"
  by (cases r) simp_all

subsection \<open>Evaluation\<close>

text \<open>An address condition: unknown while the address may still be resolved, false without one.\<close>

definition on_ip :: "(ip_addr \<Rightarrow> bool) \<Rightarrow> ip_addr option \<Rightarrow> bool \<Rightarrow> bool option" where
  "on_ip f ip can_resolve =
     (case ip of Some a \<Rightarrow> Some (f a) | None \<Rightarrow> if can_resolve then None else Some False)"

text \<open>\<open>eval_nodes\<close> is the loop over the conditions of \<^verbatim>\<open>And\<close> (\<open>is_and = True\<close>) and \<^verbatim>\<open>Or\<close>.\<close>

fun evaluate ::
    "'r regex_api \<Rightarrow> domain_hash \<Rightarrow> string \<Rightarrow> ip_addr option \<Rightarrow> uint16 \<Rightarrow> string \<Rightarrow> bool \<Rightarrow>
     'r matcher \<Rightarrow> bool option"
  and eval_nodes ::
    "'r regex_api \<Rightarrow> domain_hash \<Rightarrow> string \<Rightarrow> ip_addr option \<Rightarrow> uint16 \<Rightarrow> string \<Rightarrow> bool \<Rightarrow>
     bool \<Rightarrow> 'r matcher list \<Rightarrow> bool \<Rightarrow> bool option" where
  "evaluate api hash host ip port network can_resolve (M_Domain d) = Some (host = d)"
| "evaluate api hash host ip port network can_resolve (M_Suffix d) =
     Some (host = d \<or> (case strip_suffix d host of Some p \<Rightarrow> ends_with CHR ''.'' p | None \<Rightarrow> False))"
| "evaluate api hash host ip port network can_resolve (M_Subdomain d) =
     Some (case strip_suffix d host of
       Some p \<Rightarrow> length p > 1 \<and> ends_with CHR ''.'' p | None \<Rightarrow> False)"
| "evaluate api hash host ip port network can_resolve (M_Keyword k) = Some (str_contains k host)"
| "evaluate api hash host ip port network can_resolve (M_Regex r) = Some (re_is_match api r host)"
| "evaluate api hash host ip port network can_resolve (M_Domains s) =
     Some (DomainSet_matches api hash s host)"
| "evaluate api hash host ip port network can_resolve (M_Net n) = on_ip (net_contains n) ip can_resolve"
| "evaluate api hash host ip port network can_resolve (M_Nets n) = on_ip (IpSet_matches n) ip can_resolve"
| "evaluate api hash host ip port network can_resolve (M_ExternalIp f) = on_ip f ip can_resolve"
| "evaluate api hash host ip port network can_resolve (M_Port p) = Some (p = port)"
| "evaluate api hash host ip port network can_resolve (M_Ports r) =
     Some (list_ex (\<lambda>(a, b). a \<le> port \<and> port \<le> b) r)"
| "evaluate api hash host ip port network can_resolve (M_Network n) = Some (n = network)"
| "evaluate api hash host ip port network can_resolve (M_OnNetwork name on) = Some on"
| "evaluate api hash host ip port network can_resolve M_All = Some True"
| "evaluate api hash host ip port network can_resolve (M_Not m) =
     map_option Not (evaluate api hash host ip port network can_resolve m)"
| "evaluate api hash host ip port network can_resolve (M_NoResolve m) =
     evaluate api hash host ip port network False m"
| "evaluate api hash host ip port network can_resolve (M_And nodes) =
     eval_nodes api hash host ip port network can_resolve True nodes False"
| "evaluate api hash host ip port network can_resolve (M_Or nodes) =
     eval_nodes api hash host ip port network can_resolve False nodes False"
| "evaluate api hash host ip port network can_resolve (M_GeoIp v) = Some False"
| "evaluate api hash host ip port network can_resolve (M_GeoSite v) = Some False"
| "evaluate api hash host ip port network can_resolve (M_RuleSet v) = Some False"
| "eval_nodes api hash host ip port network can_resolve is_and [] unknown =
     (if unknown then None else Some is_and)"
| "eval_nodes api hash host ip port network can_resolve is_and (m # nodes) unknown =
     (case evaluate api hash host ip port network can_resolve m of
        Some v \<Rightarrow>
          if v \<noteq> is_and then Some v
          else eval_nodes api hash host ip port network can_resolve is_and nodes unknown
      | None \<Rightarrow> eval_nodes api hash host ip port network can_resolve is_and nodes True)"

subsection \<open>References\<close>

fun bind :: "('r matcher \<Rightarrow> 'r matcher outcome) \<Rightarrow> 'r matcher \<Rightarrow> 'r matcher outcome"
  and bind_nodes :: "('r matcher \<Rightarrow> 'r matcher outcome) \<Rightarrow> 'r matcher list \<Rightarrow> 'r matcher list outcome" where
  "bind resolve (M_GeoIp v) = resolve (M_GeoIp v)"
| "bind resolve (M_GeoSite v) = resolve (M_GeoSite v)"
| "bind resolve (M_RuleSet v) = resolve (M_RuleSet v)"
| "bind resolve (M_And nodes) = out_then (bind_nodes resolve nodes) (\<lambda>ms. Done (M_And ms))"
| "bind resolve (M_Or nodes) = out_then (bind_nodes resolve nodes) (\<lambda>ms. Done (M_Or ms))"
| "bind resolve (M_Not m) = out_then (bind resolve m) (\<lambda>m. Done (M_Not m))"
| "bind resolve (M_NoResolve m) = out_then (bind resolve m) (\<lambda>m. Done (M_NoResolve m))"
| "bind resolve m = Done m"
| "bind_nodes resolve [] = Done []"
| "bind_nodes resolve (m # nodes) =
     out_then (bind resolve m) (\<lambda>m. out_then (bind_nodes resolve nodes) (\<lambda>ms. Done (m # ms)))"

fun references :: "'r matcher \<Rightarrow> (string \<times> string) list" where
  "references (M_GeoIp v) = [(''geoip'', v)]"
| "references (M_GeoSite v) = [(''geosite'', v)]"
| "references (M_RuleSet v) = [(''rule-set'', v)]"
| "references (M_And nodes) = concat (map references nodes)"
| "references (M_Or nodes) = concat (map references nodes)"
| "references (M_Not m) = references m"
| "references (M_NoResolve m) = references m"
| "references _ = []"

text \<open>\<^verbatim>\<open>networks\<close> with a function that sets the flag of every named network.\<close>

fun set_networks :: "(string \<Rightarrow> bool) \<Rightarrow> 'r matcher \<Rightarrow> 'r matcher" where
  "set_networks state (M_OnNetwork name on) = M_OnNetwork name (state name)"
| "set_networks state (M_And nodes) = M_And (map (set_networks state) nodes)"
| "set_networks state (M_Or nodes) = M_Or (map (set_networks state) nodes)"
| "set_networks state (M_Not m) = M_Not (set_networks state m)"
| "set_networks state (M_NoResolve m) = M_NoResolve (set_networks state m)"
| "set_networks state m = m"

subsection \<open>Three values\<close>

text \<open>The loop computes the conjunction or disjunction of three-valued logic.\<close>

definition kleene :: "bool \<Rightarrow> bool option set \<Rightarrow> bool option" where
  "kleene is_and vs =
     (if Some (\<not> is_and) \<in> vs then Some (\<not> is_and) else if None \<in> vs then None else Some is_and)"

lemma eval_nodes_kleene:
  "eval_nodes api hash host ip port network can_resolve is_and ms unknown =
    kleene is_and (evaluate api hash host ip port network can_resolve ` set ms \<union>
      (if unknown then {None} else {}))"
proof (induction ms arbitrary: unknown)
  case (Cons m ms)
  show ?case
  proof (cases "evaluate api hash host ip port network can_resolve m")
    case (Some v)
    then show ?thesis using Cons.IH [of unknown] by (cases "v = is_and") (auto simp: kleene_def)
  qed (use Cons.IH [of True] in \<open>auto simp: kleene_def\<close>)
qed (simp add: kleene_def)

lemma evaluate_nodes [simp]:
  "evaluate api hash host ip port network can_resolve (M_And ms) =
    kleene True (evaluate api hash host ip port network can_resolve ` set ms)"
  "evaluate api hash host ip port network can_resolve (M_Or ms) =
    kleene False (evaluate api hash host ip port network can_resolve ` set ms)"
  by (simp_all add: eval_nodes_kleene)

declare evaluate.simps(17,18) [simp del]

lemma kleene_None [simp]: "kleene k vs = None \<longleftrightarrow> None \<in> vs \<and> Some (\<not> k) \<notin> vs"
  by (simp add: kleene_def)

lemma kleene_Some: "kleene k vs = Some v \<longleftrightarrow> (if v = k then vs \<subseteq> {Some k} else Some v \<in> vs)"
proof -
  have "vs \<subseteq> {Some k} \<longleftrightarrow> None \<notin> vs \<and> Some (\<not> k) \<notin> vs"
  proof (intro iffI conjI subsetI)
    fix x assume vs: "None \<notin> vs \<and> Some (\<not> k) \<notin> vs" "x \<in> vs"
    then obtain b where "x = Some b" by (cases x) auto
    with vs show "x \<in> {Some k}" by (cases b; cases k) auto
  qed auto
  then show ?thesis by (cases v; cases k) (auto simp: kleene_def)
qed

text \<open>With an address, or when none may be resolved, there is always an answer.\<close>

lemma evaluate_known:
  "ip \<noteq> None \<or> \<not> can_resolve \<Longrightarrow> evaluate api hash host ip port network can_resolve m \<noteq> None"
proof (induction m arbitrary: can_resolve)
  case (M_And nodes)
  then have "None \<notin> evaluate api hash host ip port network can_resolve ` set nodes" by (metis imageE)
  then show ?case by simp
next
  case (M_Or nodes)
  then have "None \<notin> evaluate api hash host ip port network can_resolve ` set nodes" by (metis imageE)
  then show ?case by simp
qed (auto simp: on_ip_def split: option.splits)

text \<open>No condition inside forbids resolving.\<close>

fun resolving :: "'r matcher \<Rightarrow> bool" where
  "resolving (M_NoResolve m) \<longleftrightarrow> False"
| "resolving (M_Not m) \<longleftrightarrow> resolving m"
| "resolving (M_And nodes) \<longleftrightarrow> list_all resolving nodes"
| "resolving (M_Or nodes) \<longleftrightarrow> list_all resolving nodes"
| "resolving _ \<longleftrightarrow> True"

text \<open>An answer that was found without the address does not depend on it.\<close>

lemma kleene_lazy:
  assumes "\<And>m v. m \<in> A \<Longrightarrow> f m = Some v \<Longrightarrow> g m = Some v" "kleene k (f ` A) = Some v"
  shows "kleene k (g ` A) = Some v"
proof -
  have "Some v \<in> f ` A \<Longrightarrow> Some v \<in> g ` A" using assms(1) by (metis (no_types, lifting) image_iff)
  moreover have "f ` A \<subseteq> {Some k} \<Longrightarrow> g ` A \<subseteq> {Some k}" using assms(1) by blast
  ultimately show ?thesis using assms(2) by (simp add: kleene_Some split: if_splits)
qed

lemma evaluate_lazy:
  assumes "evaluate api hash host None port network True m = Some v" "resolving m"
  shows "evaluate api hash host ip port network can_resolve m = Some v"
  using assms
proof (induction m arbitrary: v)
  case (M_And nodes)
  then have v: "kleene True (evaluate api hash host None port network True ` set nodes) = Some v" by simp
  show ?case
    unfolding evaluate_nodes
    by (rule kleene_lazy [OF _ v]) (use M_And in \<open>auto simp: list_all_iff\<close>)
next
  case (M_Or nodes)
  then have v: "kleene False (evaluate api hash host None port network True ` set nodes) = Some v" by simp
  show ?case
    unfolding evaluate_nodes
    by (rule kleene_lazy [OF _ v]) (use M_Or in \<open>auto simp: list_all_iff\<close>)
qed (auto simp: on_ip_def)

end
