(* ===== verification/Rule_Parse.thy ===== *)
theory Rule_Parse
  imports Rule_Matcher
begin

text \<open>
  The rule language of \<^verbatim>\<open>crates/config/src/rule.rs\<close>: splitting a line at the commas outside
  parentheses, \<^verbatim>\<open>Matcher::parse_condition\<close> with its nesting limit, and \<^verbatim>\<open>Rule::parse\<close>; and
  \<^verbatim>\<open>PortRange\<close> of \<^verbatim>\<open>compat.rs\<close>. The parser of networks is the parameter \<open>net_parse\<close>.
\<close>

record 'r rule =
  rule_matcher :: "'r matcher"
  rule_target :: string
  rule_no_resolve :: bool

lemma out_then_cong [fundef_cong]:
  "r = r' \<Longrightarrow> (\<And>x. r' = Done x \<Longrightarrow> f x = g x) \<Longrightarrow> out_then r f = out_then r' g"
  by (cases r') simp_all

definition out_ensure :: "bool \<Rightarrow> string \<Rightarrow> 'a outcome \<Rightarrow> 'a outcome" where
  "out_ensure c e r = (if c then r else Fail e)"

lemma out_ensure_cong [fundef_cong]:
  "c = c' \<Longrightarrow> e = e' \<Longrightarrow> (c' \<Longrightarrow> r = r') \<Longrightarrow> out_ensure c e r = out_ensure c' e' r'"
  by (simp add: out_ensure_def)

lemma out_ensure_Done [simp]: "out_ensure c e r = Done y \<longleftrightarrow> c \<and> r = Done y"
  by (simp add: out_ensure_def)

subsection \<open>Fields\<close>

text \<open>\<open>cur\<close> is the text since the last comma at depth 0.\<close>

fun fields_loop :: "string \<Rightarrow> nat \<Rightarrow> string \<Rightarrow> string list \<Rightarrow> string list outcome" where
  "fields_loop [] depth cur out = out_ensure (depth = 0) ''unbalanced rule'' (Done (out @ [trim cur]))"
| "fields_loop (c # s) depth cur out =
     (if c = CHR ''('' then
        out_ensure (depth + 1 \<le> 32) ''rule nesting limit'' (fields_loop s (depth + 1) (cur @ [c]) out)
      else if c = CHR '')'' then
        out_ensure (depth > 0) ''unbalanced rule'' (fields_loop s (depth - 1) (cur @ [c]) out)
      else if c = CHR '','' \<and> depth = 0 then fields_loop s depth [] (out @ [trim cur])
      else fields_loop s depth (cur @ [c]) out)"

definition rule_fields :: "string \<Rightarrow> string list outcome" where
  "rule_fields raw = out_ensure (length raw \<le> 65536) ''rule too long'' (fields_loop raw 0 [] [])"

definition unwrap :: "string \<Rightarrow> string outcome" where
  "unwrap raw =
     opt_context ''logical rule requires parentheses''
       (case strip_prefix ''('' raw of None \<Rightarrow> None | Some v \<Rightarrow> strip_suffix '')'' v)"

subsection \<open>Ports\<close>

definition digit_of :: "char \<Rightarrow> nat option" where
  "digit_of c = (let n = of_char c in if 48 \<le> n \<and> n \<le> 57 then Some (n - 48) else None)"

fun u16_digits :: "nat \<Rightarrow> string \<Rightarrow> nat outcome" where
  "u16_digits acc [] = Done acc"
| "u16_digits acc (c # s) =
     (case digit_of c of
        None \<Rightarrow> Fail ''invalid digit found in string''
      | Some d \<Rightarrow>
          if acc * 10 + d < 2 ^ 16 then u16_digits (acc * 10 + d) s
          else Fail ''number too large to fit in target type'')"

definition parse_u16 :: "string \<Rightarrow> uint16 outcome" where
  "parse_u16 s =
     (if s = [] then Fail ''cannot parse integer from empty string''
      else if s = ''+'' \<or> s = ''-'' then Fail ''invalid digit found in string''
      else
        out_then (u16_digits 0 (if hd s = CHR ''+'' then tl s else s)) (\<lambda>n. Done (of_nat n)))"

datatype port_range = PortNumber uint16 | PortSpan string

definition PortRange_bounds :: "port_range \<Rightarrow> (uint16 \<times> uint16) outcome" where
  "PortRange_bounds r =
     out_then
       (case r of
          PortNumber n \<Rightarrow> Done (n, n)
        | PortSpan s \<Rightarrow>
            (case split_once CHR ''-'' s of
               Some (a, b) \<Rightarrow> out_then (parse_u16 a) (\<lambda>a. out_then (parse_u16 b) (\<lambda>b. Done (a, b)))
             | None \<Rightarrow> out_then (parse_u16 s) (\<lambda>n. Done (n, n))))
       (\<lambda>(a, b). out_ensure (a > 0 \<and> a \<le> b) ''invalid port range'' (Done (a, b)))"

definition PortRange_contains :: "port_range \<Rightarrow> uint16 \<Rightarrow> bool" where
  "PortRange_contains r n = (case PortRange_bounds r of Done (a, b) \<Rightarrow> a \<le> n \<and> n \<le> b | _ \<Rightarrow> False)"

fun parse_ports :: "string list \<Rightarrow> (uint16 \<times> uint16) list outcome" where
  "parse_ports [] = Done []"
| "parse_ports (part # parts) =
     out_then (PortRange_bounds (PortSpan part)) (\<lambda>b. out_then (parse_ports parts) (\<lambda>bs. Done (b # bs)))"

subsection \<open>Conditions\<close>

text \<open>The conditions that hold no others; \<open>arg\<close> is the field as written, \<open>val\<close> in lower case.\<close>

definition parse_leaf ::
    "'r regex_api \<Rightarrow> (string \<Rightarrow> ip_net outcome) \<Rightarrow> string \<Rightarrow> string \<Rightarrow> string \<Rightarrow> 'r matcher outcome" where
  "parse_leaf api net_parse kind arg val =
     (if kind = ''DOMAIN'' then Done (M_Domain (trim_end_matches CHR ''.'' val))
      else if kind = ''DOMAIN-SUFFIX'' then Done (M_Suffix (trim_matches CHR ''.'' val))
      else if kind = ''DOMAIN-KEYWORD'' then Done (M_Keyword val)
      else if kind = ''DOMAIN-REGEX'' then out_then (compile_regex api arg) (\<lambda>r. Done (M_Regex r))
      else if kind = ''IP-CIDR'' \<or> kind = ''IP-CIDR6'' then
        out_then (net_parse val) (\<lambda>n.
        out_ensure (is_v4 n \<longleftrightarrow> kind = ''IP-CIDR'') ''rule IP family mismatch'' (Done (M_Net n)))
      else if kind = ''GEOIP'' then Done (M_GeoIp val)
      else if kind = ''GEOSITE'' then Done (M_GeoSite val)
      else if kind = ''RULE-SET'' then Done (M_RuleSet arg)
      else if kind = ''DST-PORT'' then
        out_then (parse_ports (str_split CHR ''/'' val)) (\<lambda>ports. Done (M_Ports ports))
      else if kind = ''NETWORK'' then
        out_ensure (val = ''tcp'' \<or> val = ''udp'') ''invalid network'' (Done (M_Network val))
      else if kind = ''NETWORK-NAME'' then Done (M_OnNetwork arg False)
      else Fail (''unsupported rule type '' @ kind))"

definition is_logical :: "string \<Rightarrow> bool" where
  "is_logical kind \<longleftrightarrow> kind = ''AND'' \<or> kind = ''OR'' \<or> kind = ''NOT''"

definition logical_parts :: "string list \<Rightarrow> string list outcome" where
  "logical_parts f =
     (if length f = 2 then
        out_then (unwrap (f ! 1)) (\<lambda>u.
        if u \<noteq> [] \<and> hd u = CHR ''('' then rule_fields u else Done (tl f))
      else Done (tl f))"

definition logical_node :: "string \<Rightarrow> 'r matcher list \<Rightarrow> 'r matcher outcome" where
  "logical_node kind nodes =
     (if kind = ''AND'' then Done (M_And nodes)
      else if kind = ''OR'' then Done (M_Or nodes)
      else out_ensure (length nodes = 1) ''NOT requires one condition'' (Done (M_Not (hd nodes))))"

function parse_depth ::
    "'r regex_api \<Rightarrow> (string \<Rightarrow> ip_net outcome) \<Rightarrow> string \<Rightarrow> nat \<Rightarrow> 'r matcher outcome"
  and parse_parts ::
    "'r regex_api \<Rightarrow> (string \<Rightarrow> ip_net outcome) \<Rightarrow> string list \<Rightarrow> nat \<Rightarrow> 'r matcher list outcome" where
  "parse_depth api net_parse raw depth =
     out_ensure (depth < 32) ''rule nesting limit'' (
     out_then (rule_fields raw) (\<lambda>f.
     let no_resolve = (f \<noteq> [] \<and> last f = ''no-resolve'');
         f = (if no_resolve then butlast f else f)
     in
     out_ensure (length f \<ge> 2) ''invalid condition fields'' (
     out_ensure (is_logical (f ! 0) \<or> length f = 2) ''invalid condition fields'' (
     out_ensure (f ! 1 \<noteq> []) ''empty rule value'' (
     out_then
       (if is_logical (f ! 0) then
          out_then (logical_parts f) (\<lambda>parts.
          out_ensure (parts \<noteq> []) ''empty logical rule'' (
          out_then (parse_parts api net_parse parts (depth + 1)) (logical_node (f ! 0))))
        else parse_leaf api net_parse (f ! 0) (f ! 1) (to_ascii_lowercase (f ! 1)))
       (\<lambda>m. Done (if no_resolve then M_NoResolve m else m)))))))"
| "parse_parts api net_parse [] depth = Done []"
| "parse_parts api net_parse (p # parts) depth =
     out_then (unwrap p) (\<lambda>q.
     out_then (parse_depth api net_parse q depth) (\<lambda>m.
     out_then (parse_parts api net_parse parts depth) (\<lambda>ms. Done (m # ms))))"
  by pat_completeness auto
termination
  by (relation "measures
        [\<lambda>x. case x of Inl (_, _, _, d) \<Rightarrow> 2 * (32 - d) | Inr (_, _, _, d) \<Rightarrow> Suc (2 * (32 - d)),
         \<lambda>x. case x of Inl _ \<Rightarrow> 0 | Inr (_, _, parts, _) \<Rightarrow> length parts]")
     auto

declare parse_depth.simps [simp del]

definition parse_condition ::
    "'r regex_api \<Rightarrow> (string \<Rightarrow> ip_net outcome) \<Rightarrow> string \<Rightarrow> 'r matcher outcome" where
  "parse_condition api net_parse raw = parse_depth api net_parse raw 0"

definition Rule_parse ::
    "'r regex_api \<Rightarrow> (string \<Rightarrow> ip_net outcome) \<Rightarrow> string \<Rightarrow> 'r rule outcome" where
  "Rule_parse api net_parse raw =
     out_then (rule_fields raw) (\<lambda>f.
     out_ensure (length f \<ge> 2) ''rule needs type and target'' (
     let no_resolve = (last f = ''no-resolve'');
         f = (if no_resolve then butlast f else f)
     in
     out_ensure (length f \<ge> 2) ''missing rule target'' (
     let target = last f; f = butlast f
     in
     out_ensure (target \<noteq> []) ''empty rule target'' (
     out_then
       (if hd f = ''MATCH''
        then out_ensure (length f = 1) ''MATCH takes one target'' (Done M_All)
        else parse_condition api net_parse (str_join CHR '','' f))
       (\<lambda>m. Done \<lparr>rule_matcher = m, rule_target = target, rule_no_resolve = no_resolve\<rparr>)))))"

definition Rule_matches ::
    "'r regex_api \<Rightarrow> domain_hash \<Rightarrow> string \<Rightarrow> ip_addr option \<Rightarrow> uint16 \<Rightarrow> string \<Rightarrow> 'r rule \<Rightarrow> bool" where
  "Rule_matches api hash host ip port network r \<longleftrightarrow>
     evaluate api hash (to_ascii_lowercase (trim_end_matches CHR ''.'' host)) ip port network False
       (rule_matcher r) = Some True"

end
