(* ===== verification/Rule_Builder.thy ===== *)
theory Rule_Builder
  imports Rule_Parse
begin

text \<open>
  Packing many conditions into one: \<^verbatim>\<open>domain_pattern\<close> and \<^verbatim>\<open>DomainSetBuilder\<close> of
  \<^verbatim>\<open>crates/config/src/rule.rs\<close>, and \<^verbatim>\<open>provider_matcher\<close> of \<^verbatim>\<open>crates/core/src/resources.rs\<close>, which
  groups the entries of a rule provider. The lemmas show when grouping keeps the result.
\<close>

subsection \<open>Patterns\<close>

function str_replace :: "string \<Rightarrow> string \<Rightarrow> string \<Rightarrow> string" where
  "str_replace pat to s =
     (if pat \<noteq> [] \<and> strip_prefix pat s \<noteq> None
      then to @ str_replace pat to (drop (length pat) s)
      else (case s of [] \<Rightarrow> [] | c # r \<Rightarrow> c # str_replace pat to r))"
  by pat_completeness auto
termination
proof (relation "measure (\<lambda>(pat, to, s). length s)")
  fix pat to s :: string
  assume "pat \<noteq> [] \<and> strip_prefix pat s \<noteq> None"
  then obtain r where "s = pat @ r" "pat \<noteq> []" by auto
  then show "((pat, to, drop (length pat) s), pat, to, s) \<in> measure (\<lambda>(pat, to, s). length s)"
    by simp
qed simp_all

declare str_replace.simps [simp del]

definition normalize :: "string \<Rightarrow> string" where
  "normalize domain = to_ascii_lowercase (trim_matches CHR ''.'' (trim domain))"

definition glob_regex :: "'r regex_api \<Rightarrow> string \<Rightarrow> string" where
  "glob_regex api p = ''^'' @ str_replace [CHR 0x5C, CHR ''*''] ''[^.]*'' (re_escape api p) @ ''$''"

definition domain_pattern :: "'r regex_api \<Rightarrow> string \<Rightarrow> 'r matcher outcome" where
  "domain_pattern api pattern =
     (let p = to_ascii_lowercase (trim pattern)
      in out_ensure (p \<noteq> []) ''empty domain pattern''
         (case strip_prefix ''+.'' p of
            Some s \<Rightarrow> Done (M_Suffix s)
          | None \<Rightarrow>
              (case strip_prefix ''.'' p of
                 Some s \<Rightarrow> Done (M_Subdomain s)
               | None \<Rightarrow>
                   if CHR ''*'' \<notin> set p then Done (M_Domain p)
                   else out_then (re_build api False None (glob_regex api p)) (\<lambda>r. Done (M_Regex r)))))"

subsection \<open>The builder\<close>

record set_builder =
  b_exact :: "uint64 list"
  b_suffix :: "uint64 list"
  b_subdomain :: "uint64 list"
  b_globs :: "string list"
  b_keywords :: "string list"
  b_regex :: "string list"

definition builder_default :: set_builder where
  "builder_default =
     \<lparr>b_exact = [], b_suffix = [], b_subdomain = [], b_globs = [], b_keywords = [], b_regex = []\<rparr>"

text \<open>\<open>push_*\<close> are the calls of \<^verbatim>\<open>ListBuilder::push\<close> on the three lists.\<close>

definition push_exact :: "domain_hash \<Rightarrow> string \<Rightarrow> set_builder \<Rightarrow> set_builder" where
  "push_exact hash d b = b\<lparr>b_exact := b_exact b @ [hash d]\<rparr>"

definition push_suffix :: "domain_hash \<Rightarrow> string \<Rightarrow> set_builder \<Rightarrow> set_builder" where
  "push_suffix hash d b = b\<lparr>b_suffix := b_suffix b @ [hash d]\<rparr>"

definition push_subdomain :: "domain_hash \<Rightarrow> string \<Rightarrow> set_builder \<Rightarrow> set_builder" where
  "push_subdomain hash d b = b\<lparr>b_subdomain := b_subdomain b @ [hash d]\<rparr>"

definition builder_exact :: "domain_hash \<Rightarrow> string \<Rightarrow> set_builder \<Rightarrow> set_builder" where
  "builder_exact hash d = push_exact hash (normalize d)"

definition builder_suffix :: "domain_hash \<Rightarrow> string \<Rightarrow> set_builder \<Rightarrow> set_builder" where
  "builder_suffix hash d = push_suffix hash (normalize d)"

definition builder_subdomain :: "domain_hash \<Rightarrow> string \<Rightarrow> set_builder \<Rightarrow> set_builder" where
  "builder_subdomain hash d = push_subdomain hash (normalize d)"

definition builder_keyword :: "string \<Rightarrow> set_builder \<Rightarrow> set_builder" where
  "builder_keyword k b = b\<lparr>b_keywords := b_keywords b @ [to_ascii_lowercase k]\<rparr>"

definition builder_regex :: "'r regex_api \<Rightarrow> string \<Rightarrow> set_builder \<Rightarrow> set_builder outcome" where
  "builder_regex api source b =
     out_then (compile_regex api source) (\<lambda>_. Done (b\<lparr>b_regex := b_regex b @ [source]\<rparr>))"

definition builder_pattern :: "'r regex_api \<Rightarrow> domain_hash \<Rightarrow> string \<Rightarrow> set_builder \<Rightarrow> set_builder outcome" where
  "builder_pattern api hash pattern b =
     out_then (domain_pattern api pattern) (\<lambda>m.
       case m of
         M_Domain d \<Rightarrow> Done (push_exact hash d b)
       | M_Suffix d \<Rightarrow> Done (push_suffix hash d b)
       | M_Subdomain d \<Rightarrow> Done (push_subdomain hash d b)
       | M_Regex _ \<Rightarrow> Done (b\<lparr>b_globs := b_globs b @ [to_ascii_lowercase (trim pattern)]\<rparr>)
       | _ \<Rightarrow> Panicked ''domain_pattern returns only domain matchers'')"

definition builder_absorb ::
    "'r regex_api \<Rightarrow> domain_hash \<Rightarrow> 'r matcher \<Rightarrow> set_builder \<Rightarrow> 'r matcher option \<times> set_builder" where
  "builder_absorb api hash m b =
     (case m of
        M_Domain d \<Rightarrow> (None, builder_exact hash d b)
      | M_Suffix d \<Rightarrow> (None, builder_suffix hash d b)
      | M_Subdomain d \<Rightarrow> (None, builder_subdomain hash d b)
      | M_Keyword k \<Rightarrow> (None, builder_keyword k b)
      | M_Regex r \<Rightarrow> (None, b\<lparr>b_regex := b_regex b @ [re_as_str api r]\<rparr>)
      | other \<Rightarrow> (Some other, b))"

text \<open>\<^verbatim>\<open>ok\<close> on a result: the values of the sources that compile.\<close>

definition out_list :: "'a outcome \<Rightarrow> 'a list" where
  "out_list r = (case r of Done x \<Rightarrow> [x] | _ \<Rightarrow> [])"

definition alternation :: "string list \<Rightarrow> string" where
  "alternation sources = str_join CHR ''|'' (map (\<lambda>s. ''(?:'' @ s @ '')'') sources)"

definition compile_regexes :: "'r regex_api \<Rightarrow> string list \<Rightarrow> 'r list" where
  "compile_regexes api sources =
     (case (if length sources > 1
            then out_list (re_build api True (Some (8 * 1024 * 1024)) (alternation sources)) else []) of
        r # _ \<Rightarrow> [r]
      | [] \<Rightarrow> concat (map (\<lambda>s. out_list (compile_regex api s)) sources))"

definition builder_build :: "'r regex_api \<Rightarrow> domain_hash \<Rightarrow> set_builder \<Rightarrow> 'r domain_set" where
  "builder_build api hash b =
     \<lparr>ds_exact = ListBuilder_build (b_exact b), ds_suffix = ListBuilder_build (b_suffix b),
      ds_subdomain = ListBuilder_build (b_subdomain b), ds_globs = Globs_new hash (b_globs b),
      ds_keywords = b_keywords b, ds_regex = compile_regexes api (b_regex b)\<rparr>"

subsection \<open>Rule providers\<close>

text \<open>The loop over the payload with its three collections.\<close>

record 'r provider_acc =
  acc_domains :: set_builder
  acc_nets :: "ip_net list"
  acc_nodes :: "'r matcher list"

definition provider_classical ::
    "'r regex_api \<Rightarrow> domain_hash \<Rightarrow> (string \<Rightarrow> ip_net outcome) \<Rightarrow> string \<Rightarrow> 'r provider_acc \<Rightarrow>
     'r provider_acc outcome" where
  "provider_classical api hash net_parse entry acc =
     out_then (parse_condition api net_parse entry) (\<lambda>m.
     out_ensure (\<not> list_ex (\<lambda>r. fst r = ''rule-set'') (references m))
       ''nested RULE-SET is not permitted in classical providers'' (
     case m of
       M_Net n \<Rightarrow> Done (acc\<lparr>acc_nets := acc_nets acc @ [n]\<rparr>)
     | m \<Rightarrow>
         (case builder_absorb api hash m (acc_domains acc) of
            (rest, b) \<Rightarrow>
              Done (acc\<lparr>acc_domains := b,
                acc_nodes := acc_nodes acc @ (case rest of None \<Rightarrow> [] | Some m \<Rightarrow> [m])\<rparr>))))"

definition provider_entry ::
    "'r regex_api \<Rightarrow> domain_hash \<Rightarrow> (string \<Rightarrow> ip_net outcome) \<Rightarrow> string \<Rightarrow> string \<Rightarrow>
     'r provider_acc \<Rightarrow> 'r provider_acc outcome" where
  "provider_entry api hash net_parse behavior entry acc =
     (if behavior = ''domain'' then
        out_then (builder_pattern api hash entry (acc_domains acc)) (\<lambda>b. Done (acc\<lparr>acc_domains := b\<rparr>))
      else if behavior = ''ipcidr'' then
        out_then (net_parse entry) (\<lambda>n. Done (acc\<lparr>acc_nets := acc_nets acc @ [n]\<rparr>))
      else if behavior = ''classical'' then provider_classical api hash net_parse entry acc
      else Fail ''unsupported provider behavior'')"

fun provider_loop ::
    "'r regex_api \<Rightarrow> domain_hash \<Rightarrow> (string \<Rightarrow> ip_net outcome) \<Rightarrow> string \<Rightarrow> string list \<Rightarrow>
     'r provider_acc \<Rightarrow> 'r provider_acc outcome" where
  "provider_loop api hash net_parse behavior [] acc = Done acc"
| "provider_loop api hash net_parse behavior (entry # payload) acc =
     out_then (provider_entry api hash net_parse behavior entry acc)
       (provider_loop api hash net_parse behavior payload)"

text \<open>What follows the loop.\<close>

definition provider_nodes :: "'r regex_api \<Rightarrow> domain_hash \<Rightarrow> 'r provider_acc \<Rightarrow> 'r matcher list" where
  "provider_nodes api hash acc =
     (let domains = builder_build api hash (acc_domains acc);
          nodes = acc_nodes acc;
          nodes = (if \<not> DomainSet_is_empty domains then M_Domains domains # nodes else nodes)
      in if acc_nets acc \<noteq> [] then M_Nets (IpSet_new (acc_nets acc) False) # nodes else nodes)"

definition provider_matcher ::
    "'r regex_api \<Rightarrow> domain_hash \<Rightarrow> (string \<Rightarrow> ip_net outcome) \<Rightarrow> string \<Rightarrow> string list \<Rightarrow>
     'r matcher outcome" where
  "provider_matcher api hash net_parse behavior payload =
     out_ensure (length payload \<le> 2000000) ''too many provider rules'' (
     out_then (provider_loop api hash net_parse behavior payload
         \<lparr>acc_domains = builder_default, acc_nets = [], acc_nodes = []\<rparr>) (\<lambda>acc.
     Done (M_Or (provider_nodes api hash acc))))"

subsection \<open>What a pattern matches\<close>

text \<open>
  The meaning of the regular expression of a pattern: a star is a run of characters without a dot,
  everything else stands for itself.
\<close>

fun star_match :: "string \<Rightarrow> string \<Rightarrow> bool" where
  "star_match [] s \<longleftrightarrow> s = []"
| "star_match (c # p) [] \<longleftrightarrow> c = CHR ''*'' \<and> star_match p []"
| "star_match (c # p) (x # s) \<longleftrightarrow>
     (if c = CHR ''*'' then star_match p (x # s) \<or> x \<noteq> CHR ''.'' \<and> star_match (c # p) s
      else c = x \<and> star_match p s)"

lemma star_match_labels:
  assumes "is_lower p" "is_lower s"
  shows "star_match p s \<longleftrightarrow> glob_matches p s"
  using assms
proof (induction p s rule: star_match.induct)
  case (1 s)
  obtain v vs where "str_split CHR ''.'' s = v # vs" by (cases "str_split CHR ''.'' s") simp_all
  then show ?case
    by (cases s) (auto simp: glob_matches_def label_matches_iff split: if_splits list.splits)
next
  case (2 c p)
  obtain w ws where "str_split CHR ''.'' p = w # ws" by (cases "str_split CHR ''.'' p") simp_all
  then show ?case
    using 2 by (cases ws) (auto simp: glob_matches_def label_matches_iff is_lower_iff)
next
  case (3 c p x s)
  obtain w ws where w: "str_split CHR ''.'' p = w # ws" by (cases "str_split CHR ''.'' p") simp_all
  obtain v vs where v: "str_split CHR ''.'' s = v # vs" by (cases "str_split CHR ''.'' s") simp_all
  have lower: "is_lower p" "is_lower s" "ascii_lower c = c" "ascii_lower x = x"
    using "3.prems" by (simp_all add: is_lower_iff)
  show ?case
  proof (cases "c = CHR ''*''")
    case True
    then show ?thesis
      using 3 w v lower by (auto simp: glob_matches_def label_matches_iff)
  next
    case False
    then have "star_match p s \<longleftrightarrow> glob_matches p s" using 3 lower by simp
    then show ?thesis
      using False w v lower
      by (auto simp: glob_matches_def label_matches_iff eq_ignore_ascii_case_def)
  qed
qed

end
