(* ===== verification/Rule_Grouping.thy ===== *)
theory Rule_Grouping
  imports Rule_Builder
begin

text \<open>
  The comment on \<^verbatim>\<open>provider_matcher\<close> says that grouping the entries of a rule provider keeps the
  result. This theory states when: the provider evaluates like the disjunction of its entries, for
  hosts as the callers pass them, unless two names share a hash.
\<close>

subsection \<open>Single conditions\<close>

text \<open>A host as the callers pass it: in lower case, and not starting with a dot.\<close>

definition host_ok :: "string \<Rightarrow> bool" where
  "host_ok host \<longleftrightarrow> is_lower host \<and> (\<forall>s. host \<noteq> CHR ''.'' # s)"

lemma suffix_below:
  "(case strip_suffix d host of Some p \<Rightarrow> ends_with CHR ''.'' p | None \<Rightarrow> False) \<longleftrightarrow> below d host"
proof -
  have "(case strip_suffix d host of Some p \<Rightarrow> ends_with CHR ''.'' p | None \<Rightarrow> False) \<longleftrightarrow>
      (\<exists>p. host = p @ d \<and> ends_with CHR ''.'' p)"
    by (auto split: option.splits)
  also have "\<dots> \<longleftrightarrow> below d host"
  proof
    assume "\<exists>p. host = p @ d \<and> ends_with CHR ''.'' p"
    then obtain p where p: "host = p @ d" "p \<noteq> []" "last p = CHR ''.''" by (auto simp: ends_with_def)
    then have "p = butlast p @ [CHR ''.'']" by (metis append_butlast_last_id)
    then have "host = butlast p @ CHR ''.'' # d" using p(1) by (metis append.assoc append_Cons append_Nil)
    then show "below d host" unfolding below_def by blast
  next
    assume "below d host"
    then obtain p where "host = (p @ [CHR ''.'']) @ d" by (auto simp: below_def)
    then show "\<exists>p. host = p @ d \<and> ends_with CHR ''.'' p" unfolding ends_with_def by fastforce
  qed
  finally show ?thesis .
qed

lemma subdomain_below:
  assumes "host_ok host"
  shows "(case strip_suffix d host of Some p \<Rightarrow> length p > 1 \<and> ends_with CHR ''.'' p | None \<Rightarrow> False) \<longleftrightarrow>
    below d host"
proof -
  have "length p > 1" if "host = p @ d" "ends_with CHR ''.'' p" for p
    using that assms by (cases p) (auto simp: host_ok_def ends_with_def split: if_splits)
  then show ?thesis
    unfolding suffix_below [symmetric] by (cases "strip_suffix d host") auto
qed

subsection \<open>Packing\<close>

text \<open>The names and the other parts of a list of conditions.\<close>

definition exact_of :: "'r matcher list \<Rightarrow> string list" where
  "exact_of ms = concat (map (\<lambda>m. case m of M_Domain d \<Rightarrow> [d] | _ \<Rightarrow> []) ms)"

definition suffix_of :: "'r matcher list \<Rightarrow> string list" where
  "suffix_of ms = concat (map (\<lambda>m. case m of M_Suffix d \<Rightarrow> [d] | _ \<Rightarrow> []) ms)"

definition subdomain_of :: "'r matcher list \<Rightarrow> string list" where
  "subdomain_of ms = concat (map (\<lambda>m. case m of M_Subdomain d \<Rightarrow> [d] | _ \<Rightarrow> []) ms)"

definition keyword_of :: "'r matcher list \<Rightarrow> string list" where
  "keyword_of ms = concat (map (\<lambda>m. case m of M_Keyword d \<Rightarrow> [d] | _ \<Rightarrow> []) ms)"

definition regex_of :: "'r matcher list \<Rightarrow> 'r list" where
  "regex_of ms = concat (map (\<lambda>m. case m of M_Regex r \<Rightarrow> [r] | _ \<Rightarrow> []) ms)"

definition nets_of :: "'r matcher list \<Rightarrow> ip_net list" where
  "nets_of ms = concat (map (\<lambda>m. case m of M_Net n \<Rightarrow> [n] | _ \<Rightarrow> []) ms)"

fun is_domain :: "'r matcher \<Rightarrow> bool" where
  "is_domain (M_Domain d) \<longleftrightarrow> True"
| "is_domain (M_Suffix d) \<longleftrightarrow> True"
| "is_domain (M_Subdomain d) \<longleftrightarrow> True"
| "is_domain (M_Keyword k) \<longleftrightarrow> True"
| "is_domain (M_Regex r) \<longleftrightarrow> True"
| "is_domain _ \<longleftrightarrow> False"

fun is_net :: "'r matcher \<Rightarrow> bool" where
  "is_net (M_Net n) \<longleftrightarrow> True"
| "is_net _ \<longleftrightarrow> False"

definition rest_of :: "'r matcher list \<Rightarrow> 'r matcher list" where
  "rest_of ms = filter (\<lambda>m. \<not> is_domain m \<and> \<not> is_net m) ms"

lemmas part_defs = exact_of_def suffix_of_def subdomain_of_def keyword_of_def regex_of_def nets_of_def
  rest_of_def

lemma in_parts [simp]:
  "d \<in> set (exact_of ms) \<longleftrightarrow> M_Domain d \<in> set ms"
  "d \<in> set (suffix_of ms) \<longleftrightarrow> M_Suffix d \<in> set ms"
  "d \<in> set (subdomain_of ms) \<longleftrightarrow> M_Subdomain d \<in> set ms"
  "d \<in> set (keyword_of ms) \<longleftrightarrow> M_Keyword d \<in> set ms"
  "r \<in> set (regex_of ms) \<longleftrightarrow> M_Regex r \<in> set ms"
  "n \<in> set (nets_of ms) \<longleftrightarrow> M_Net n \<in> set ms"
  by (auto simp: part_defs split: matcher.splits)

text \<open>
  The accumulator holds the conditions \<open>ms\<close>: names as hashes, networks, the rest as it is. The
  regular expressions of \<open>ms\<close> are held as patterns and as sources; \<open>globbed\<close> and \<open>sourced\<close> say which.
\<close>

definition holds ::
    "domain_hash \<Rightarrow> 'r matcher list \<Rightarrow> string list \<Rightarrow> string list \<Rightarrow> 'r provider_acc \<Rightarrow> bool" where
  "holds hash ms gs srcs acc \<longleftrightarrow>
     acc_domains acc =
       \<lparr>b_exact = map hash (exact_of ms), b_suffix = map hash (suffix_of ms),
        b_subdomain = map hash (subdomain_of ms), b_globs = gs, b_keywords = keyword_of ms,
        b_regex = srcs\<rparr> \<and>
     acc_nets acc = nets_of ms \<and> acc_nodes acc = rest_of ms"

subsection \<open>Regular expressions\<close>

text \<open>
  What the code relies on: the expression of a pattern means what \<open>star_match\<close> says, an alternation
  matches when one of its branches does, and an expression knows its source.
\<close>

definition regex_ok :: "'r regex_api \<Rightarrow> bool" where
  "regex_ok api \<longleftrightarrow>
     (\<forall>p r host. re_build api False None (glob_regex api p) = Done r \<longrightarrow>
        re_is_match api r host = star_match p host) \<and>
     (\<forall>ss r host. re_build api True (Some (8 * 1024 * 1024)) (alternation ss) = Done r \<longrightarrow>
        re_is_match api r host =
          list_ex (\<lambda>s. list_ex (\<lambda>q. re_is_match api q host) (out_list (compile_regex api s))) ss) \<and>
     (\<forall>s r. compile_regex api s = Done r \<longrightarrow> re_as_str api r = s)"

lemma out_list_simps [simp]: "out_list (Done x) = [x]" "out_list (Fail e) = []" "out_list (Panicked e) = []"
  by (simp_all add: out_list_def)

lemma compile_regexes_match:
  assumes "regex_ok api"
  shows "list_ex (\<lambda>r. re_is_match api r host) (compile_regexes api ss) \<longleftrightarrow>
    list_ex (\<lambda>s. list_ex (\<lambda>q. re_is_match api q host) (out_list (compile_regex api s))) ss"
proof -
  have separate: "list_ex P (concat (map f ss)) \<longleftrightarrow> list_ex (\<lambda>s. list_ex P (f s)) ss" for P f
    by (induction ss) simp_all
  show ?thesis
  proof (cases "length ss > 1 \<and> (\<exists>r. re_build api True (Some (8 * 1024 * 1024)) (alternation ss) = Done r)")
    case True
    then obtain r where r: "re_build api True (Some (8 * 1024 * 1024)) (alternation ss) = Done r" by blast
    then have "compile_regexes api ss = [r]" using True by (simp add: compile_regexes_def)
    then show ?thesis using assms r by (simp add: regex_ok_def)
  next
    case False
    then have "compile_regexes api ss = concat (map (\<lambda>s. out_list (compile_regex api s)) ss)"
      by (cases "re_build api True (Some (8 * 1024 * 1024)) (alternation ss)")
         (auto simp: compile_regexes_def)
    then show ?thesis by (simp add: separate)
  qed
qed

subsection \<open>The grouped conditions\<close>

text \<open>The regular expressions among \<open>ms\<close> are held as the patterns \<open>gs\<close> and the sources \<open>ss\<close>.\<close>

definition linked :: "'r regex_api \<Rightarrow> 'r matcher list \<Rightarrow> string list \<Rightarrow> string list \<Rightarrow> bool" where
  "linked api ms gs ss \<longleftrightarrow>
     list_all is_lower gs \<and>
     (\<forall>host. is_lower host \<longrightarrow>
       (list_ex (\<lambda>r. re_is_match api r host) (regex_of ms) \<longleftrightarrow>
          list_ex (\<lambda>g. glob_matches g host) gs \<or>
          list_ex (\<lambda>s. list_ex (\<lambda>q. re_is_match api q host) (out_list (compile_regex api s))) ss))"

definition names_of :: "'r matcher list \<Rightarrow> string set" where
  "names_of ms = set (exact_of ms) \<union> set (suffix_of ms) \<union> set (subdomain_of ms)"

lemma empty_set_matches: "DomainSet_is_empty s \<Longrightarrow> \<not> DomainSet_matches api hash s host"
  by (auto simp: DomainSet_is_empty_def DomainSet_len_def DomainSet_matches_def Globs_len_def
      DomainList_is_empty_def loose_matches_def Let_def)

text \<open>The domain conditions of a list and the set they are packed into.\<close>

lemma ex_domain:
  "(\<exists>m\<in>A. is_domain m \<and> P m) \<longleftrightarrow>
    (\<exists>d. M_Domain d \<in> A \<and> P (M_Domain d)) \<or> (\<exists>d. M_Suffix d \<in> A \<and> P (M_Suffix d)) \<or>
    (\<exists>d. M_Subdomain d \<in> A \<and> P (M_Subdomain d)) \<or> (\<exists>k. M_Keyword k \<in> A \<and> P (M_Keyword k)) \<or>
    (\<exists>r. M_Regex r \<in> A \<and> P (M_Regex r))"
proof
  assume "\<exists>m\<in>A. is_domain m \<and> P m"
  then obtain m where "m \<in> A" "is_domain m" "P m" by blast
  then show "(\<exists>d. M_Domain d \<in> A \<and> P (M_Domain d)) \<or> (\<exists>d. M_Suffix d \<in> A \<and> P (M_Suffix d)) \<or>
    (\<exists>d. M_Subdomain d \<in> A \<and> P (M_Subdomain d)) \<or> (\<exists>k. M_Keyword k \<in> A \<and> P (M_Keyword k)) \<or>
    (\<exists>r. M_Regex r \<in> A \<and> P (M_Regex r))"
    by (cases m) auto
qed (elim disjE exE conjE; force)

lemma packed_domains:
  assumes "holds hash ms gs ss acc" "linked api ms gs ss" "regex_ok api" "host_ok host"
    and "no_collision hash (names_of ms) host"
  shows "DomainSet_matches api hash (builder_build api hash (acc_domains acc)) host \<longleftrightarrow>
    (\<exists>m\<in>set ms. is_domain m \<and> evaluate api hash host ip port network can_resolve m = Some True)"
proof -
  let ?s = "builder_build api hash (acc_domains acc)"
  have packs: "packs hash (exact_of ms) (suffix_of ms) (subdomain_of ms) gs ?s"
    "ds_keywords ?s = keyword_of ms" "ds_regex ?s = compile_regexes api ss"
    using assms(1) by (simp_all add: holds_def builder_build_def packs_def)
  have lower: "list_all is_lower gs" "is_lower host"
    using assms(2,4) by (simp_all add: linked_def host_ok_def)
  have regex: "list_ex (\<lambda>r. re_is_match api r host) (regex_of ms) \<longleftrightarrow>
      list_ex (\<lambda>g. glob_matches g host) gs \<or> list_ex (\<lambda>r. re_is_match api r host) (compile_regexes api ss)"
    using assms(2) lower(2) by (simp add: linked_def compile_regexes_match [OF assms(3)])
  have "DomainSet_matches api hash ?s host \<longleftrightarrow>
      host \<in> set (exact_of ms) \<or> host \<in> set (suffix_of ms) \<or>
      (\<exists>d \<in> set (suffix_of ms) \<union> set (subdomain_of ms). below d host) \<or>
      list_ex (\<lambda>k. str_contains k host) (keyword_of ms) \<or>
      list_ex (\<lambda>r. re_is_match api r host) (regex_of ms)"
    using DomainSet_matches_names [OF packs(1) lower] assms(5)
    unfolding names_of_def regex packs(2,3) by blast
  then show ?thesis
    unfolding ex_domain evaluate.simps suffix_below subdomain_below [OF assms(4)]
    by (auto simp: list_ex_iff)
qed

lemma nets_grouped:
  assumes "v \<noteq> Some False"
  shows "nets_of ms \<noteq> [] \<and>
      evaluate api hash host ip port network can_resolve (M_Nets (IpSet_new (nets_of ms) False)) = v \<longleftrightarrow>
    (\<exists>m\<in>set ms. is_net m \<and> evaluate api hash host ip port network can_resolve m = v)"
proof -
  let ?e = "evaluate api hash host ip port network can_resolve"
  have "(\<exists>m\<in>set ms. is_net m \<and> ?e m = v) \<longleftrightarrow> (\<exists>n\<in>set (nets_of ms). ?e (M_Net n) = v)"
    by (force elim: is_net.elims)
  also have "\<dots> \<longleftrightarrow> nets_of ms \<noteq> [] \<and> ?e (M_Nets (IpSet_new (nets_of ms) False)) = v"
    using assms
    by (cases ip) (auto simp: on_ip_def IpSet_matches_new list_ex_iff split: if_splits
      simp del: in_parts intro: hd_in_set)
  finally show ?thesis by simp
qed

lemma domains_grouped:
  assumes "v \<noteq> Some False"
    and "DomainSet_matches api hash s host \<longleftrightarrow>
      (\<exists>m\<in>set ms. is_domain m \<and> evaluate api hash host ip port network can_resolve m = Some True)"
  shows "\<not> DomainSet_is_empty s \<and> evaluate api hash host ip port network can_resolve (M_Domains s) = v \<longleftrightarrow>
    (\<exists>m\<in>set ms. is_domain m \<and> evaluate api hash host ip port network can_resolve m = v)"
proof (cases v)
  case None
  have "is_domain m \<Longrightarrow> evaluate api hash host ip port network can_resolve m \<noteq> None" for m
    by (cases m) simp_all
  then show ?thesis using None by auto
next
  case (Some b)
  then have true: "v = Some True" using assms(1) by (cases b) simp_all
  have "evaluate api hash host ip port network can_resolve (M_Domains s) = v \<longleftrightarrow>
      DomainSet_matches api hash s host" using true by simp
  moreover have "(\<exists>m\<in>set ms. is_domain m \<and> evaluate api hash host ip port network can_resolve m = v) \<longleftrightarrow>
      DomainSet_matches api hash s host"
    unfolding true by (rule assms(2) [symmetric])
  ultimately show ?thesis using empty_set_matches [of s api hash host] by argo
qed

lemma grouped:
  assumes "holds hash ms gs ss acc" "linked api ms gs ss" "regex_ok api" "host_ok host"
    and "no_collision hash (names_of ms) host"
  shows "evaluate api hash host ip port network can_resolve (M_Or (provider_nodes api hash acc)) =
    evaluate api hash host ip port network can_resolve (M_Or ms)"
proof -
  let ?e = "evaluate api hash host ip port network can_resolve"
  let ?s = "builder_build api hash (acc_domains acc)" and ?n = "IpSet_new (nets_of ms) False"
  have acc: "acc_nets acc = nets_of ms" "acc_nodes acc = rest_of ms" using assms(1) by (simp_all add: holds_def)
  note domains = domains_grouped [OF _ packed_domains [OF assms, of ip port network can_resolve]]
  have mem: "v \<in> ?e ` set (provider_nodes api hash acc) \<longleftrightarrow> v \<in> ?e ` set ms"
    if v: "v \<noteq> Some False" for v
  proof -
    have "v \<in> ?e ` set (provider_nodes api hash acc) \<longleftrightarrow>
        nets_of ms \<noteq> [] \<and> ?e (M_Nets ?n) = v \<or> \<not> DomainSet_is_empty ?s \<and> ?e (M_Domains ?s) = v \<or>
        (\<exists>m\<in>set (rest_of ms). ?e m = v)"
      by (auto simp: provider_nodes_def Let_def acc)
    also have "\<dots> \<longleftrightarrow> (\<exists>m\<in>set ms. ?e m = v)"
      unfolding nets_grouped [OF v] domains [OF v] by (auto simp: rest_of_def)
    finally show ?thesis unfolding image_iff by (simp add: eq_commute [of v])
  qed
  show ?thesis using mem [of None] mem [of "Some True"] by (simp add: kleene_def)
qed

subsection \<open>The loop over the entries\<close>

definition entry_matcher ::
    "'r regex_api \<Rightarrow> (string \<Rightarrow> ip_net outcome) \<Rightarrow> string \<Rightarrow> string \<Rightarrow> 'r matcher outcome" where
  "entry_matcher api net_parse behavior entry =
     (if behavior = ''domain'' then domain_pattern api entry
      else if behavior = ''ipcidr'' then out_then (net_parse entry) (\<lambda>n. Done (M_Net n))
      else if behavior = ''classical'' then parse_condition api net_parse entry
      else Fail ''unsupported provider behavior'')"

text \<open>A name that \<^verbatim>\<open>normalize\<close> leaves as it is.\<close>

fun tidy :: "'r matcher \<Rightarrow> bool" where
  "tidy (M_Domain d) \<longleftrightarrow> normalize d = d"
| "tidy (M_Suffix d) \<longleftrightarrow> normalize d = d"
| "tidy (M_Subdomain d) \<longleftrightarrow> normalize d = d"
| "tidy _ \<longleftrightarrow> True"

lemma part_append [simp]:
  "exact_of (ms @ ns) = exact_of ms @ exact_of ns" "suffix_of (ms @ ns) = suffix_of ms @ suffix_of ns"
  "subdomain_of (ms @ ns) = subdomain_of ms @ subdomain_of ns"
  "keyword_of (ms @ ns) = keyword_of ms @ keyword_of ns"
  "regex_of (ms @ ns) = regex_of ms @ regex_of ns" "nets_of (ms @ ns) = nets_of ms @ nets_of ns"
  "rest_of (ms @ ns) = rest_of ms @ rest_of ns"
  by (simp_all add: part_defs)

lemma part_single:
  "exact_of [m] = (case m of M_Domain d \<Rightarrow> [d] | _ \<Rightarrow> [])"
  "suffix_of [m] = (case m of M_Suffix d \<Rightarrow> [d] | _ \<Rightarrow> [])"
  "subdomain_of [m] = (case m of M_Subdomain d \<Rightarrow> [d] | _ \<Rightarrow> [])"
  "keyword_of [m] = (case m of M_Keyword d \<Rightarrow> [d] | _ \<Rightarrow> [])"
  "regex_of [m] = (case m of M_Regex r \<Rightarrow> [r] | _ \<Rightarrow> [])"
  "nets_of [m] = (case m of M_Net n \<Rightarrow> [n] | _ \<Rightarrow> [])"
  "rest_of [m] = (if is_domain m \<or> is_net m then [] else [m])"
  by (simp_all add: part_defs)

lemma parsed_regex:
  assumes "parse_condition api net_parse s = Done m"
  shows "(\<forall>r. m = M_Regex r \<longrightarrow> (\<exists>s. compile_regex api s = Done r)) \<and>
    (\<forall>k. m = M_Keyword k \<longrightarrow> is_lower k)"
proof -
  have leaf: "(\<forall>r. m = M_Regex r \<longrightarrow> (\<exists>s. compile_regex api s = Done r)) \<and>
      (\<forall>k. m = M_Keyword k \<longrightarrow> is_lower k)"
    if "parse_leaf api net_parse kind arg (to_ascii_lowercase arg) = Done m" for kind arg
    using that by (auto simp: parse_leaf_def is_lower_def split: if_splits)
  have node: "logical_node kind nodes \<noteq> Done (M_Regex r)" "logical_node kind nodes \<noteq> Done (M_Keyword k)"
    for kind and nodes :: "'a matcher list" and r k
    by (simp_all add: logical_node_def out_ensure_def)
  show ?thesis
    using assms leaf
    by (auto simp: node parse_condition_def parse_depth.simps [of api net_parse s 0] Let_def split: if_splits)
qed

lemma linked_steps:
  assumes "linked api ms gs ss" "regex_ok api"
  shows "regex_of [m] = [] \<Longrightarrow> linked api (ms @ [m]) gs ss"
    "re_build api False None (glob_regex api p) = Done r \<Longrightarrow> is_lower p \<Longrightarrow>
      linked api (ms @ [M_Regex r]) (gs @ [p]) ss"
    "compile_regex api s = Done r \<Longrightarrow> linked api (ms @ [M_Regex r]) gs (ss @ [re_as_str api r])"
proof -
  show "regex_of [m] = [] \<Longrightarrow> linked api (ms @ [m]) gs ss" using assms(1) by (simp add: linked_def)
  have r: "regex_of [M_Regex r] = [r]" by (simp add: regex_of_def)
  show "linked api (ms @ [M_Regex r]) (gs @ [p]) ss"
    if "re_build api False None (glob_regex api p) = Done r" "is_lower p"
  proof -
    have "re_is_match api r host \<longleftrightarrow> glob_matches p host" if "is_lower host" for host
      using star_match_labels [OF \<open>is_lower p\<close> that] assms(2) \<open>re_build _ _ _ _ = _\<close>
      by (simp add: regex_ok_def)
    then show ?thesis using assms(1) that(2) r by (auto simp: linked_def)
  qed
  show "linked api (ms @ [M_Regex r]) gs (ss @ [re_as_str api r])" if "compile_regex api s = Done r"
  proof -
    have "re_as_str api r = s" using assms(2) that by (simp add: regex_ok_def)
    then show ?thesis using assms(1) that r by (auto simp: linked_def)
  qed
qed

lemma domain_step:
  assumes "builder_pattern api hash entry (acc_domains acc) = Done b"
    and "holds hash ms gs ss acc" "linked api ms gs ss" "regex_ok api"
  shows "\<exists>m. domain_pattern api entry = Done m \<and>
    (\<exists>gs ss. holds hash (ms @ [m]) gs ss (acc\<lparr>acc_domains := b\<rparr>) \<and> linked api (ms @ [m]) gs ss)"
proof -
  let ?p = "to_ascii_lowercase (trim entry)"
  obtain m where m: "domain_pattern api entry = Done m"
    using assms(1) by (auto simp: builder_pattern_def)
  have cases: "(\<exists>d. m = M_Domain d) \<or> (\<exists>d. m = M_Suffix d) \<or> (\<exists>d. m = M_Subdomain d) \<or>
      (\<exists>r. m = M_Regex r \<and> re_build api False None (glob_regex api ?p) = Done r)"
    using m by (auto simp: domain_pattern_def Let_def split: option.splits if_splits)
  have lower: "is_lower ?p" by (simp add: is_lower_def)
  note steps = linked_steps [OF assms(3,4)]
  let ?acc = "acc\<lparr>acc_domains := b\<rparr>"
  from cases have "\<exists>gs ss. holds hash (ms @ [m]) gs ss ?acc \<and> linked api (ms @ [m]) gs ss"
  proof (elim disjE exE conjE)
    fix r assume r: "m = M_Regex r" "re_build api False None (glob_regex api ?p) = Done r"
    have "holds hash (ms @ [m]) (gs @ [?p]) ss ?acc"
      using assms(1,2) m r(1) by (auto simp: builder_pattern_def holds_def part_single)
    then show ?thesis using steps(2) [OF r(2) lower] r(1) by blast
  next
    fix d assume d: "m = M_Domain d"
    have "holds hash (ms @ [m]) gs ss ?acc"
      using assms(1,2) m d by (auto simp: builder_pattern_def holds_def part_single push_exact_def)
    then show ?thesis using steps(1) [of m] d by (auto simp: part_single)
  next
    fix d assume d: "m = M_Suffix d"
    have "holds hash (ms @ [m]) gs ss ?acc"
      using assms(1,2) m d by (auto simp: builder_pattern_def holds_def part_single push_suffix_def)
    then show ?thesis using steps(1) [of m] d by (auto simp: part_single)
  next
    fix d assume d: "m = M_Subdomain d"
    have "holds hash (ms @ [m]) gs ss ?acc"
      using assms(1,2) m d by (auto simp: builder_pattern_def holds_def part_single push_subdomain_def)
    then show ?thesis using steps(1) [of m] d by (auto simp: part_single)
  qed
  then show ?thesis using m by blast
qed

lemma classical_step:
  assumes "provider_classical api hash net_parse entry acc = Done acc'" "tidy m"
    and "parse_condition api net_parse entry = Done m"
    and "holds hash ms gs ss acc" "linked api ms gs ss" "regex_ok api"
  shows "\<exists>gs ss. holds hash (ms @ [m]) gs ss acc' \<and> linked api (ms @ [m]) gs ss"
proof -
  note parsed = parsed_regex [OF assms(3)] and steps = linked_steps [OF assms(5,6)]
  show ?thesis
  proof (cases "\<exists>r. m = M_Regex r")
    case True
    then obtain r s where r: "m = M_Regex r" "compile_regex api s = Done r" using parsed by blast
    have "holds hash (ms @ [m]) gs (ss @ [re_as_str api r]) acc'"
      using assms(1,3,4) r(1)
      by (auto simp: provider_classical_def builder_absorb_def holds_def part_single)
    then show ?thesis using steps(3) [OF r(2)] r(1) by blast
  next
    case False
    have "holds hash (ms @ [m]) gs ss acc'"
      using assms(1-4) False parsed
      by (cases m)
         (auto simp: provider_classical_def builder_absorb_def holds_def part_single builder_exact_def
           builder_suffix_def builder_subdomain_def builder_keyword_def push_exact_def push_suffix_def
           push_subdomain_def is_lower_def)
    moreover have "regex_of [m] = []" using False by (cases m) (simp_all add: part_single)
    ultimately show ?thesis using steps(1) by blast
  qed
qed

lemma entry_known:
  "provider_entry api hash net_parse behavior entry acc = Done acc' \<Longrightarrow>
   \<exists>m. entry_matcher api net_parse behavior entry = Done m"
  by (auto simp: provider_entry_def entry_matcher_def provider_classical_def builder_pattern_def
      split: if_splits)

lemma entry_step:
  assumes "provider_entry api hash net_parse behavior entry acc = Done acc'"
    and "entry_matcher api net_parse behavior entry = Done m" "behavior = ''classical'' \<Longrightarrow> tidy m"
    and "holds hash ms gs ss acc" "linked api ms gs ss" "regex_ok api"
  shows "\<exists>gs ss. holds hash (ms @ [m]) gs ss acc' \<and> linked api (ms @ [m]) gs ss"
proof -
  consider (domain) "behavior = ''domain''" | (ipcidr) "behavior = ''ipcidr''"
    | (classical) "behavior = ''classical''"
    using assms(1) by (auto simp: provider_entry_def split: if_splits)
  then show ?thesis
  proof cases
    case domain
    then obtain b where b: "builder_pattern api hash entry (acc_domains acc) = Done b"
        "acc' = acc\<lparr>acc_domains := b\<rparr>"
      using assms(1) by (auto simp: provider_entry_def)
    show ?thesis using domain_step [OF b(1) assms(4-6)] assms(2) domain b(2) by (auto simp: entry_matcher_def)
  next
    case ipcidr
    then obtain n where n: "net_parse entry = Done n" "acc' = acc\<lparr>acc_nets := acc_nets acc @ [n]\<rparr>" "m = M_Net n"
      using assms(1,2) by (auto simp: provider_entry_def entry_matcher_def)
    have "holds hash (ms @ [m]) gs ss acc'" using assms(4) n by (auto simp: holds_def part_single)
    then show ?thesis using linked_steps(1) [OF assms(5,6), of m] n(3) by (auto simp: part_single)
  next
    case classical
    then show ?thesis
      using classical_step [OF _ assms(3) _ assms(4-6), of net_parse entry acc'] assms(1,2)
      by (simp add: provider_entry_def entry_matcher_def)
  qed
qed

lemma loop_holds:
  assumes "provider_loop api hash net_parse behavior payload acc = Done acc'" "regex_ok api"
  shows "\<exists>es. map (entry_matcher api net_parse behavior) payload = map Done es \<and>
    ((behavior = ''classical'' \<longrightarrow> list_all tidy es) \<longrightarrow>
      (\<forall>ms gs ss. holds hash ms gs ss acc \<longrightarrow> linked api ms gs ss \<longrightarrow>
        (\<exists>gs ss. holds hash (ms @ es) gs ss acc' \<and> linked api (ms @ es) gs ss)))"
  using assms(1)
proof (induction payload arbitrary: acc)
  case Nil
  then show ?case by (intro exI [of _ "[]"]) auto
next
  case (Cons entry payload)
  then obtain acc1 where run: "provider_entry api hash net_parse behavior entry acc = Done acc1"
      "provider_loop api hash net_parse behavior payload acc1 = Done acc'" by auto
  obtain m where m: "entry_matcher api net_parse behavior entry = Done m" using entry_known [OF run(1)] by blast
  obtain es where es: "map (entry_matcher api net_parse behavior) payload = map Done es"
    "(behavior = ''classical'' \<longrightarrow> list_all tidy es) \<Longrightarrow> holds hash ms gs ss acc1 \<Longrightarrow> linked api ms gs ss \<Longrightarrow>
        \<exists>gs ss. holds hash (ms @ es) gs ss acc' \<and> linked api (ms @ es) gs ss" for ms gs ss
    using Cons.IH [OF run(2)] by blast
  have "\<exists>gs ss. holds hash (ms @ m # es) gs ss acc' \<and> linked api (ms @ m # es) gs ss"
    if tidy: "behavior = ''classical'' \<longrightarrow> list_all tidy (m # es)"
      and held: "holds hash ms gs ss acc" "linked api ms gs ss" for ms gs ss
  proof -
    obtain gs1 ss1 where "holds hash (ms @ [m]) gs1 ss1 acc1" "linked api (ms @ [m]) gs1 ss1"
      using entry_step [OF run(1) m _ held assms(2)] tidy by auto
    then show ?thesis using es(2) [of "ms @ [m]" gs1 ss1] tidy by simp
  qed
  then show ?case using m es(1) by (intro exI [of _ "m # es"]) simp
qed


subsection \<open>Instances\<close>

text \<open>
  An engine for the expressions of patterns: characters are escaped with a mark, and \<open>unglob\<close>
  reads an expression back. It declines alternations.
\<close>

definition toy_escape :: "string \<Rightarrow> string" where
  "toy_escape p = concat (map (\<lambda>c. if c = CHR ''*'' then [CHR 0x5C, c] else [CHR ''x'', c]) p)"

fun unglob :: "string \<Rightarrow> string" where
  "unglob (c # d # s) =
     (if c = CHR ''x'' then d # unglob s
      else if c = CHR ''['' then CHR ''*'' # unglob (drop 3 s)
      else unglob (d # s))"
| "unglob _ = []"

definition toy_regex :: "string regex_api" where
  "toy_regex =
     \<lparr>re_build = \<lambda>_ limit s. if limit = Some (8 * 1024 * 1024) then Fail ''size limit'' else Done s,
      re_is_match = \<lambda>r host. star_match (unglob r) host,
      re_as_str = \<lambda>r. r,
      re_escape = toy_escape\<rparr>"

definition toy_translate :: "string \<Rightarrow> string" where
  "toy_translate p = concat (map (\<lambda>c. if c = CHR ''*'' then ''[^.]*'' else [CHR ''x'', c]) p)"

lemma replace_step:
  "strip_prefix [CHR 0x5C, CHR ''*''] (c # s) = None \<Longrightarrow>
   str_replace [CHR 0x5C, CHR ''*''] to (c # s) = c # str_replace [CHR 0x5C, CHR ''*''] to s"
  by (simp add: str_replace.simps [of _ _ "c # s"])

lemma replace_escape:
  "str_replace [CHR 0x5C, CHR ''*''] ''[^.]*'' (toy_escape p) = toy_translate p"
proof (induction p)
  case Nil
  then show ?case by (simp add: toy_escape_def toy_translate_def str_replace.simps strip_prefix_def)
next
  case (Cons c p)
  let ?r = "str_replace [CHR 0x5C, CHR ''*''] ''[^.]*''"
  show ?case
  proof (cases "c = CHR ''*''")
    case True
    then have "?r (toy_escape (c # p)) = ''[^.]*'' @ ?r (toy_escape p)"
      by (simp add: toy_escape_def str_replace.simps [of _ _ "CHR 0x5C # CHR ''*'' # s" for s] strip_prefix_def)
    then show ?thesis using True Cons.IH by (simp add: toy_translate_def)
  next
    case False
    have "strip_prefix [CHR 0x5C, CHR ''*''] (c # toy_escape p) = None"
      by (cases p) (simp_all add: toy_escape_def strip_prefix_def)
    moreover have "strip_prefix [CHR 0x5C, CHR ''*''] (CHR ''x'' # c # toy_escape p) = None"
      by (simp add: strip_prefix_def)
    ultimately have "?r (toy_escape (c # p)) = CHR ''x'' # c # ?r (toy_escape p)"
      using False replace_step by (simp add: toy_escape_def)
    then show ?thesis using False Cons.IH by (simp add: toy_translate_def)
  qed
qed

lemma unglob_translate: "unglob (toy_translate p @ ''$'') = p"
  by (induction p) (simp_all add: toy_translate_def)

lemma toy_regex_ok: "regex_ok toy_regex"
proof -
  have "unglob (CHR ''^'' # toy_translate p @ ''$'') = p" for p
  proof (cases p)
    case (Cons c q)
    then have "unglob (CHR ''^'' # toy_translate p @ ''$'') = unglob (toy_translate p @ ''$'')"
      by (simp add: toy_translate_def)
    then show ?thesis by (simp only: unglob_translate)
  qed (simp add: toy_translate_def)
  then have "unglob (glob_regex toy_regex p) = p" for p
    by (simp add: glob_regex_def toy_regex_def replace_escape)
  then show ?thesis
    by (auto simp: regex_ok_def toy_regex_def compile_regex_def)
qed

definition length_hash :: domain_hash where
  "length_hash s = of_nat (length s)"


subsection \<open>Where grouping changes the result\<close>

text \<open>
  C30. The comment on \<^verbatim>\<open>provider_matcher\<close> says that grouping keeps the result. For a \<^verbatim>\<open>classical\<close>
  entry \<^verbatim>\<open>DOMAIN\<close> whose name starts with a dot it does not: the condition itself does not match
  the name without the dot, the provider does, because \<^verbatim>\<open>absorb\<close> normalises the name.
\<close>

theorem grouping_strips_leading_dot:
  "\<exists>m. parse_condition api net_parse ''DOMAIN,.a'' = Done (M_Domain ''.a'') \<and>
     provider_matcher api hash net_parse ''classical'' [''DOMAIN,.a''] = Done m \<and>
     evaluate api hash ''a'' ip port network can_resolve (M_Domain ''.a'') = Some False \<and>
     evaluate api hash ''a'' ip port network can_resolve m = Some True"
proof -
  have trims: "trim ''DOMAIN'' = ''DOMAIN''" "trim ''.a'' = ''.a''" by (simp_all add: trim_id graphic_def)
  have lower: "to_ascii_lowercase ''.a'' = ''.a''" "to_ascii_lowercase ''a'' = ''a''" by code_simp+
  have norm: "normalize ''.a'' = ''a''"
    unfolding normalize_def trims using lower by (simp add: trim_matches_def trim_end_matches_def)
  have fields: "rule_fields ''DOMAIN,.a'' = Done [''DOMAIN'', ''.a'']"
    by (simp add: rule_fields_def trims out_ensure_def)
  have parse: "parse_condition api net_parse ''DOMAIN,.a'' = Done (M_Domain ''.a'')"
    unfolding parse_condition_def parse_depth.simps [of api net_parse _ 0] fields
    by (simp add: is_logical_def parse_leaf_def lower trim_end_matches_def out_ensure_def)
  let ?b = "builder_default\<lparr>b_exact := [hash ''a'']\<rparr>" and ?acc = "\<lparr>acc_domains = builder_default, acc_nets = [], acc_nodes = []\<rparr>"
  have "provider_matcher api hash net_parse ''classical'' [''DOMAIN,.a''] =
      Done (M_Or (provider_nodes api hash (?acc\<lparr>acc_domains := ?b\<rparr>)))"
    by (simp add: provider_matcher_def provider_entry_def provider_classical_def parse norm
        builder_absorb_def builder_exact_def push_exact_def builder_default_def out_ensure_def)
  moreover have "DomainSet_matches api hash (builder_build api hash ?b) ''a''"
  proof -
    have "packs hash [''a''] [] [] [] (builder_build api hash ?b)"
      by (simp add: packs_def builder_build_def builder_default_def)
    then show ?thesis using DomainSet_matches_hashes lower(2) by (fastforce simp: is_lower_def)
  qed
  ultimately show ?thesis
    using parse empty_set_matches [of "builder_build api hash ?b" api hash "''a''"]
    by (auto simp: provider_nodes_def Let_def kleene_def)
qed

end
