(* ===== verification/Rust_Ip.thy ===== *)
theory Rust_Ip
  imports Net_Types Rust_Str
begin

text \<open>
  What the sources use of \<^verbatim>\<open>std::net::IpAddr\<close>: parsing from text, the canonical form of a mapped
  address, and its family. A reader returns its value with the rest of the input, or \<open>None\<close> with
  the input left where it was. Numbers in text are printed by \<open>show_nat\<close>.
\<close>

subsection \<open>Numbers\<close>

fun show_nat :: "nat \<Rightarrow> string" where
  "show_nat n = (if n < 10 then [char_of (48 + n)] else show_nat (n div 10) @ [char_of (48 + n mod 10)])"

declare show_nat.simps [simp del]

definition to_digit :: "nat \<Rightarrow> char \<Rightarrow> nat option" where
  "to_digit radix c =
     (let n = (of_char c :: nat);
          d = (if 48 \<le> n \<and> n \<le> 57 then n - 48
               else if 97 \<le> n \<and> n \<le> 122 then n - 87
               else if 65 \<le> n \<and> n \<le> 90 then n - 55 else radix)
      in if d < radix then Some d else None)"

text \<open>The loop over the digits: their number and value, unless one digit is too many or the value
  does not fit below \<open>bound\<close>.\<close>

fun digits_loop :: "nat \<Rightarrow> nat \<Rightarrow> nat \<Rightarrow> nat \<Rightarrow> nat \<Rightarrow> string \<Rightarrow> (nat \<times> nat \<times> string) option" where
  "digits_loop radix bound max_digits count acc [] = Some (count, acc, [])"
| "digits_loop radix bound max_digits count acc (c # s) =
     (case to_digit radix c of
        None \<Rightarrow> Some (count, acc, c # s)
      | Some d \<Rightarrow>
          if bound \<le> acc * radix + d \<or> max_digits < count + 1 then None
          else digits_loop radix bound max_digits (count + 1) (acc * radix + d) s)"

definition read_number :: "nat \<Rightarrow> nat \<Rightarrow> nat \<Rightarrow> bool \<Rightarrow> string \<Rightarrow> (nat \<times> string) option" where
  "read_number radix bound max_digits allow_zero_prefix s =
     (case digits_loop radix bound max_digits 0 0 s of
        None \<Rightarrow> None
      | Some (count, n, r) \<Rightarrow>
          if count = 0 \<or> \<not> allow_zero_prefix \<and> hd s = CHR ''0'' \<and> 1 < count then None
          else Some (n, r))"

subsection \<open>Addresses\<close>

definition read_given_char :: "char \<Rightarrow> string \<Rightarrow> string option" where
  "read_given_char c s = (case s of [] \<Rightarrow> None | d # r \<Rightarrow> if d = c then Some r else None)"

definition read_separator ::
    "char \<Rightarrow> nat \<Rightarrow> (string \<Rightarrow> ('a \<times> string) option) \<Rightarrow> string \<Rightarrow> ('a \<times> string) option" where
  "read_separator sep index p s =
     (if 0 < index then Option.bind (read_given_char sep s) p else p s)"

fun read_octets :: "nat \<Rightarrow> nat \<Rightarrow> string \<Rightarrow> (nat list \<times> string) option" where
  "read_octets 0 i s = Some ([], s)"
| "read_octets (Suc n) i s =
     Option.bind (read_separator CHR ''.'' i (read_number 10 256 3 False) s) (\<lambda>(b, r).
     map_option (map_prod ((#) b) id) (read_octets n (Suc i) r))"

definition join_groups :: "nat \<Rightarrow> nat list \<Rightarrow> nat" where
  "join_groups base = foldl (\<lambda>a g. a * base + g) 0"

definition read_ipv4_addr :: "string \<Rightarrow> (nat \<times> string) option" where
  "read_ipv4_addr s = map_option (map_prod (join_groups 256) id) (read_octets 4 0 s)"

text \<open>The groups of an address, the last two of which may be written as a dotted address, and
  whether they were. The first argument counts the free groups.\<close>

fun read_groups :: "nat \<Rightarrow> nat \<Rightarrow> string \<Rightarrow> nat list \<times> bool \<times> string" where
  "read_groups 0 i s = ([], False, s)"
| "read_groups (Suc n) i s =
     (case (if 0 < n then read_separator CHR '':'' i read_ipv4_addr s else None) of
        Some (v4, r) \<Rightarrow> ([v4 div 65536, v4 mod 65536], True, r)
      | None \<Rightarrow>
          (case read_separator CHR '':'' i (read_number 16 65536 4 True) s of
             None \<Rightarrow> ([], False, s)
           | Some (g, r) \<Rightarrow> map_prod ((#) g) id (read_groups n (Suc i) r)))"

definition read_ipv6_addr :: "string \<Rightarrow> (nat \<times> string) option" where
  "read_ipv6_addr s =
     (case read_groups 8 0 s of
        (head, ipv4, r) \<Rightarrow>
          if length head = 8 then Some (join_groups 65536 head, r)
          else if ipv4 then None
          else
            Option.bind (read_given_char CHR '':'' r) (\<lambda>r.
            Option.bind (read_given_char CHR '':'' r) (\<lambda>r.
              (case read_groups (8 - (length head + 1)) 0 r of
                 (tail, _, r) \<Rightarrow>
                   Some (join_groups 65536
                     (head @ replicate (8 - length head - length tail) 0 @ tail), r)))))"

definition parse_ip :: "string \<Rightarrow> ip_addr option" where
  "parse_ip s =
     (case (case read_ipv4_addr s of
              Some (n, r) \<Rightarrow> Some (IpV4 (of_nat n), r)
            | None \<Rightarrow> map_option (map_prod (\<lambda>n. IpV6 (of_nat n)) id) (read_ipv6_addr s)) of
        Some (ip, []) \<Rightarrow> Some ip
      | _ \<Rightarrow> None)"

fun is_ipv6 :: "ip_addr \<Rightarrow> bool" where
  "is_ipv6 (IpV4 _) \<longleftrightarrow> False"
| "is_ipv6 (IpV6 _) \<longleftrightarrow> True"

text \<open>\<^verbatim>\<open>to_canonical\<close> turns \<^verbatim>\<open>::ffff:a.b.c.d\<close> into \<^verbatim>\<open>a.b.c.d\<close>.\<close>

fun to_canonical :: "ip_addr \<Rightarrow> ip_addr" where
  "to_canonical (IpV4 a) = IpV4 a"
| "to_canonical (IpV6 a) = (if drop_bit 32 a = 0xFFFF then IpV4 (ucast a) else IpV6 a)"

subsection \<open>Addresses written in decimal\<close>

lemma to_digit_decimal [simp]: "d < 10 \<Longrightarrow> to_digit 10 (char_of (48 + d)) = Some d"
  by (simp add: to_digit_def Let_def)

lemma decimal_shapes:
  assumes "n < 256"
  obtains (one) "show_nat n = [char_of (48 + n)]" "n < 10"
  | (two) a b where "show_nat n = [char_of (48 + a), char_of (48 + b)]" "0 < a" "a < 10" "b < 10" "n = a * 10 + b"
  | (three) a b c where "show_nat n = [char_of (48 + a), char_of (48 + b), char_of (48 + c)]"
      "0 < a" "a < 10" "b < 10" "c < 10" "n = (a * 10 + b) * 10 + c"
proof -
  consider "n < 10" | "10 \<le> n" "n < 100" | "100 \<le> n" by linarith
  then show thesis
  proof cases
    case 1
    then show thesis using one by (simp add: show_nat.simps)
  next
    case 2
    then show thesis
      by (intro two [of "n div 10" "n mod 10"]) (simp_all add: show_nat.simps)
  next
    case 3
    moreover have "n div 10 div 10 < 10" using assms by simp
    ultimately show thesis
      by (intro three [of "n div 10 div 10" "n div 10 mod 10" "n mod 10"])
        (simp_all add: show_nat.simps)
  qed
qed

definition digit_free :: "string \<Rightarrow> bool" where
  "digit_free r \<longleftrightarrow> (case r of [] \<Rightarrow> True | c # _ \<Rightarrow> to_digit 10 c = None)"

lemma digits_loop_stop: "digit_free r \<Longrightarrow> digits_loop 10 bound k count acc r = Some (count, acc, r)"
  by (cases r) (auto simp: digit_free_def)

lemma leading_zero: "0 < (a::nat) \<Longrightarrow> a < 10 \<Longrightarrow> char_of (48 + a) \<noteq> CHR ''0''"
proof
  assume a: "0 < a" "a < 10" "char_of (48 + a) = CHR ''0''"
  then have "of_char (char_of (48 + a)) = (of_char (CHR ''0'') :: nat)" by (simp only:)
  then have "(48 + a) mod 256 = 48" by (simp only: of_char_of) simp
  with a show False by simp
qed

lemma read_number_decimal [simp]:
  assumes "n < 256" "digit_free r"
  shows "read_number 10 256 3 False (show_nat n @ r) = Some (n, r)"
  using assms(1)
proof (cases rule: decimal_shapes)
  case one
  then show ?thesis using assms by (simp add: read_number_def digits_loop_stop)
next
  case (two a b)
  then show ?thesis using assms leading_zero [of a] by (simp add: read_number_def digits_loop_stop)
next
  case (three a b c)
  then show ?thesis using assms leading_zero [of a] by (simp add: read_number_def digits_loop_stop)
qed

lemma digit_free_simps [simp]: "digit_free []" "digit_free (CHR ''.'' # r)"
  by (simp_all add: digit_free_def to_digit_def)

text \<open>Every dotted address is read back.\<close>

lemma parse_ip_dotted:
  assumes "a < 256" "b < 256" "c < 256" "d < 256"
  shows "parse_ip (show_nat a @ ''.'' @ show_nat b @ ''.'' @ show_nat c @ ''.'' @ show_nat d) =
    Some (IpV4 (of_nat (((a * 256 + b) * 256 + c) * 256 + d)))"
proof -
  have "read_number 10 256 3 False (show_nat d) = Some (d, [])"
    using read_number_decimal [OF assms(4), of "[]"] by simp
  moreover have "(4::nat) = Suc (Suc (Suc (Suc 0)))" by simp
  ultimately show ?thesis
    using assms
    by (simp only: parse_ip_def read_ipv4_addr_def)
      (simp add: read_separator_def read_given_char_def join_groups_def)
qed

text \<open>A name that starts like no address is none.\<close>

lemma parse_ip_name:
  assumes "s \<noteq> []" "to_digit 16 (hd s) = None" "hd s \<noteq> CHR '':''"
  shows "parse_ip s = None"
proof -
  obtain c r where s: "s = c # r" using assms(1) by (cases s) auto
  with assms have c: "to_digit 16 c = None" "c \<noteq> CHR '':''" by auto
  then have "to_digit 10 c = None" by (auto simp: to_digit_def Let_def split: if_splits)
  then have "read_octets (Suc 3) 0 s = None"
    unfolding read_octets.simps by (simp add: s read_separator_def read_number_def)
  then have "read_ipv4_addr s = None" by (simp add: read_ipv4_addr_def)
  moreover have "read_groups (Suc 7) 0 s = ([], False, s)"
    using c calculation unfolding read_groups.simps by (simp add: s read_separator_def read_number_def)
  ultimately show ?thesis
    using c(2) by (simp add: parse_ip_def read_ipv6_addr_def s read_given_char_def)
qed

end
