(* ===== verification/Networks.thy ===== *)
theory Networks
  imports Rust_Ip Rule_Parse
begin

text \<open>
  \<^verbatim>\<open>crates/config/src/network.rs\<close>: named networks, the conditions that recognize them in what the
  host reports, and the overrides that apply on them; \<^verbatim>\<open>Strings\<close> of \<^verbatim>\<open>crates/config/src/compat.rs\<close>.
  A \<^verbatim>\<open>BTreeMap\<close> is the list of its entries by key. Of error texts the fixed part is kept.
\<close>

datatype strings = One string | Many "string list"

fun strings_values :: "strings \<Rightarrow> string list" where
  "strings_values (One v) = [v]"
| "strings_values (Many v) = v"

definition opt_values :: "strings option \<Rightarrow> string list" where
  "opt_values v = (case v of None \<Rightarrow> [] | Some v \<Rightarrow> strings_values v)"

record named_network =
  nn_kind :: "strings option"
  nn_ssid :: "strings option"
  nn_subnet :: "strings option"
  nn_gateway :: "strings option"

record network_override =
  no_network :: string
  no_hosts :: "(string \<times> strings) list"
  no_nameserver_policy :: "(string \<times> strings) list"

definition NetworkInfo_default :: network_info where
  "NetworkInfo_default = \<lparr>info_kind = None, info_ssid = None, info_addresses = [], info_gateways = []\<rparr>"

definition KINDS :: "string list" where
  "KINDS = [''wifi'', ''cellular'', ''wired'']"

type_synonym net_parser = "string \<Rightarrow> ip_net outcome"

definition net_of_ip :: "ip_addr \<Rightarrow> ip_net" where
  "net_of_ip ip = (case ip of IpV4 a \<Rightarrow> NetV4 a 32 | IpV6 a \<Rightarrow> NetV6 a 128)"

definition parse_subnet :: "net_parser \<Rightarrow> net_parser" where
  "parse_subnet net_parse v =
     (case net_parse v of
        Done n \<Rightarrow> Done n
      | Panicked e \<Rightarrow> Panicked e
      | Fail _ \<Rightarrow>
          (case parse_ip v of
             Some ip \<Rightarrow> Done (net_of_ip ip)
           | None \<Rightarrow> Fail ''invalid subnet''))"

fun all_done :: "('a \<Rightarrow> 'b outcome) \<Rightarrow> 'a list \<Rightarrow> unit outcome" where
  "all_done f [] = Done ()"
| "all_done f (x # xs) = out_then (f x) (\<lambda>_. all_done f xs)"

lemma all_done_Done [simp]: "all_done f xs = Done () \<longleftrightarrow> (\<forall>x\<in>set xs. \<exists>y. f x = Done y)"
  by (induction xs) auto

definition Network_validate :: "net_parser \<Rightarrow> string \<Rightarrow> named_network \<Rightarrow> unit outcome" where
  "Network_validate net_parse name n =
     out_ensure (name \<noteq> [] \<and> hd name \<noteq> CHR ''!'') ''networks: invalid name'' (
     out_ensure (nn_kind n \<noteq> None \<or> nn_ssid n \<noteq> None \<or> nn_subnet n \<noteq> None \<or> nn_gateway n \<noteq> None)
       ''networks: give at least one of type, ssid, subnet or gateway'' (
     out_ensure (list_all (\<lambda>values. case values of None \<Rightarrow> True | Some v \<Rightarrow> strings_values v \<noteq> [])
         [nn_kind n, nn_ssid n, nn_subnet n, nn_gateway n])
       ''networks: is empty'' (
     out_ensure (list_all (\<lambda>kind. kind \<in> set KINDS) (opt_values (nn_kind n)))
       ''networks.type: is not one of wifi, cellular, wired'' (
     out_then (all_done (parse_subnet net_parse) (opt_values (nn_subnet n))) (\<lambda>_.
     all_done (\<lambda>g. opt_context ''networks.gateway: invalid address'' (parse_ip g))
       (opt_values (nn_gateway n)))))))"

subsection \<open>Recognizing a network\<close>

text \<open>\<open>None\<close> when the condition is absent or its fact unknown.\<close>

definition check_fact :: "strings option \<Rightarrow> bool \<Rightarrow> (string \<Rightarrow> bool) \<Rightarrow> bool option" where
  "check_fact values known test =
     (case values of
        Some v \<Rightarrow> if known then Some (list_ex test (strings_values v)) else None
      | None \<Rightarrow> None)"

definition Network_checks :: "net_parser \<Rightarrow> named_network \<Rightarrow> network_info \<Rightarrow> bool option list" where
  "Network_checks net_parse n info =
     [check_fact (nn_kind n) (info_kind info \<noteq> None) (\<lambda>kind. info_kind info = Some kind),
      check_fact (nn_ssid n) (info_ssid info \<noteq> None) (\<lambda>ssid. info_ssid info = Some ssid),
      check_fact (nn_subnet n) (info_addresses info \<noteq> []) (\<lambda>subnet.
        case parse_subnet net_parse subnet of
          Done net \<Rightarrow> list_ex (net_contains net) (info_addresses info)
        | _ \<Rightarrow> False),
      check_fact (nn_gateway n) (info_gateways info \<noteq> []) (\<lambda>gateway.
        case parse_ip gateway of
          Some ip \<Rightarrow> ip \<in> set (info_gateways info)
        | None \<Rightarrow> False)]"

definition Network_matches :: "net_parser \<Rightarrow> named_network \<Rightarrow> network_info \<Rightarrow> bool" where
  "Network_matches net_parse n info \<longleftrightarrow>
     (let checks = Network_checks net_parse n info
      in list_ex (\<lambda>c. c \<noteq> None) checks \<and>
         list_all (\<lambda>c. case c of Some v \<Rightarrow> v | None \<Rightarrow> True) checks)"

definition matching :: "net_parser \<Rightarrow> (string \<times> named_network) list \<Rightarrow> network_info \<Rightarrow> string list" where
  "matching net_parse networks info =
     map fst (filter (\<lambda>(_, n). Network_matches net_parse n info) networks)"

definition override_target :: "network_override \<Rightarrow> string \<times> bool" where
  "override_target entry =
     (case strip_prefix ''!'' (no_network entry) of
        Some name \<Rightarrow> (name, True)
      | None \<Rightarrow> (no_network entry, False))"

fun position :: "('a \<Rightarrow> bool) \<Rightarrow> 'a list \<Rightarrow> nat option" where
  "position p [] = None"
| "position p (x # xs) = (if p x then Some 0 else map_option Suc (position p xs))"

definition active_override ::
    "net_parser \<Rightarrow> (string \<times> named_network) list \<Rightarrow> network_override list \<Rightarrow> network_info \<Rightarrow> nat option" where
  "active_override net_parse networks overrides info =
     (let matched = matching net_parse networks info
      in position (\<lambda>entry. case override_target entry of
           (name, negated) \<Rightarrow> (name \<in> set matched) \<noteq> negated) overrides)"

text \<open>Without a report no network is recognized.\<close>

lemma matching_default [simp]: "matching net_parse networks NetworkInfo_default = []"
  by (auto simp: matching_def Network_matches_def Network_checks_def NetworkInfo_default_def
      check_fact_def filter_empty_conv split: option.splits)

lemma position_Some:
  "position p xs = Some i \<longleftrightarrow> i < length xs \<and> p (xs ! i) \<and> (\<forall>j<i. \<not> p (xs ! j))"
proof (induction xs arbitrary: i)
  case (Cons x xs)
  show ?case
    by (cases i) (auto simp: Cons.IH less_Suc_eq_0_disj)
qed simp

end
