(* ===== verification/Ad_Filter.thy ===== *)
theory Ad_Filter
  imports Networks Rule_Builder "HOL-Library.AList"
begin

text \<open>
  Ad blocking: \<^verbatim>\<open>Adblock\<close>, \<^verbatim>\<open>List\<close> and \<^verbatim>\<open>allow_pattern\<close> of \<^verbatim>\<open>crates/config/src/adblock.rs\<close>, and
  \<^verbatim>\<open>Filter\<close> and \<^verbatim>\<open>Stats\<close> of \<^verbatim>\<open>crates/core/src/adblock.rs\<close>. A \<^verbatim>\<open>HashMap\<close> of counters is an association
  list with distinct keys. The time of an event is an argument.
\<close>

subsection \<open>Settings\<close>

record ad_list =
  al_name :: string
  al_url :: string
  al_format :: string

record adblock =
  ab_enable :: bool
  ab_lists :: "ad_list list"
  ab_allow :: "string list"
  ab_interval :: uint64
  ab_block_httpdns :: bool
  ab_quic_fallback :: bool
  ab_dns_answer :: string

definition Adblock_default :: adblock where
  "Adblock_default =
     \<lparr>ab_enable = False, ab_lists = [], ab_allow = [], ab_interval = 86400, ab_block_httpdns = True,
      ab_quic_fallback = True, ab_dns_answer = ''nxdomain''\<rparr>"

definition DNS_ANSWERS :: "string list" where
  "DNS_ANSWERS = [''nxdomain'', ''null'']"

definition FORMATS :: "string list" where
  "FORMATS = [''clash'', ''hosts'', ''adguard'']"

definition HTTPDNS_PORTS :: "uint16 list" where
  "HTTPDNS_PORTS = [80, 443, 853]"

definition HTTPDNS_ADDRESSES :: "string list" where
  "HTTPDNS_ADDRESSES =
     [''203.107.1.0/24'', ''119.29.29.0/24'', ''119.28.28.28/32'', ''43.132.43.43/32'',
      ''43.132.55.55/32'', ''1.12.12.12/32'', ''120.53.53.53/32'', ''180.76.76.112/32'',
      ''223.5.5.5/32'', ''223.6.6.6/32'', ''101.198.198.198/32'', ''1.1.1.1/32'', ''1.0.0.1/32'',
      ''8.8.8.8/32'', ''8.8.4.4/32'', ''9.9.9.9/32'', ''149.112.112.112/32'']"

definition HTTPDNS_DOMAINS :: "string list" where
  "HTTPDNS_DOMAINS =
     [''httpdns.aliyuncs.com'', ''httpdns-api.aliyuncs.com'', ''httpdns.alicdn.com'',
      ''dns.alidns.com'', ''doh.pub'', ''dot.pub'', ''doh.360.cn'', ''dns.google'',
      ''dns.google.com'', ''cloudflare-dns.com'', ''one.one.one.one'', ''dns.quad9.net'',
      ''dns.adguard-dns.com'', ''doh.opendns.com'', ''dns.nextdns.io'',
      ''use-application-dns.net'', ''mask.icloud.com'', ''mask-h2.icloud.com'']"

definition is_ascii_alphanumeric :: "char \<Rightarrow> bool" where
  "is_ascii_alphanumeric c \<longleftrightarrow> to_digit 36 c \<noteq> None"

text \<open>\<^verbatim>\<open>file_name\<close> maps characters; a character outside ASCII, of several bytes, becomes one \<^verbatim>\<open>_\<close>.\<close>

fun char_starts :: "string \<Rightarrow> string" where
  "char_starts [] = []"
| "char_starts (c # s) =
     (if (of_char c :: nat) div 64 = 2 then char_starts s else c # char_starts s)"

definition file_name :: "ad_list \<Rightarrow> string" where
  "file_name l =
     ''adblock/'' @
     map (\<lambda>c. if is_ascii_alphanumeric c \<or> c = CHR ''-'' then ascii_lower c else CHR ''_'')
       (char_starts (al_name l)) @ ''.list''"

definition starts_with :: "string \<Rightarrow> string \<Rightarrow> bool" where
  "starts_with p s \<longleftrightarrow> strip_prefix p s \<noteq> None"

definition allow_pattern ::
    "'r regex_api \<Rightarrow> domain_hash \<Rightarrow> string \<Rightarrow> set_builder \<Rightarrow> set_builder outcome" where
  "allow_pattern api hash pattern b =
     (let pattern = trim_end_matches CHR ''.'' (trim pattern)
      in out_ensure (pattern \<noteq> []) ''empty adblock allow entry''
         (if starts_with ''+.'' pattern \<or> starts_with ''.'' pattern \<or> CHR ''*'' \<in> set pattern
          then builder_pattern api hash pattern b
          else Done (builder_suffix hash pattern b)))"

fun check_lists :: "string list \<Rightarrow> ad_list list \<Rightarrow> unit outcome" where
  "check_lists names [] = Done ()"
| "check_lists names (l # ls) =
     out_ensure (trim (al_name l) \<noteq> [] \<and> length (al_name l) \<le> 64 \<and> file_name l \<notin> set names)
       ''adblock list names must be non-empty, unique and at most 64 bytes'' (
     out_ensure (starts_with ''https://'' (al_url l) \<or> starts_with ''http://'' (al_url l))
       (''adblock list '' @ al_name l @ '': url must be http(s)'') (
     out_ensure (al_format l \<in> set FORMATS)
       (''adblock list '' @ al_name l @ '': format must be clash, hosts or adguard'') (
       check_lists (file_name l # names) ls)))"

fun allow_patterns ::
    "'r regex_api \<Rightarrow> domain_hash \<Rightarrow> string list \<Rightarrow> set_builder \<Rightarrow> set_builder outcome" where
  "allow_patterns api hash [] b = Done b"
| "allow_patterns api hash (p # ps) b =
     out_then (allow_pattern api hash p b) (allow_patterns api hash ps)"

definition Adblock_validate :: "'r regex_api \<Rightarrow> domain_hash \<Rightarrow> adblock \<Rightarrow> unit outcome" where
  "Adblock_validate api hash a =
     out_ensure (3600 \<le> ab_interval a) ''adblock.interval must be at least 3600 seconds'' (
     out_then (check_lists [] (ab_lists a)) (\<lambda>_.
     out_ensure (ab_dns_answer a \<in> set DNS_ANSWERS) ''adblock.dns-answer must be nxdomain or null'' (
     out_ensure (length (ab_allow a) \<le> 10000) ''adblock.allow has too many entries'' (
     out_then (allow_patterns api hash (ab_allow a) builder_default) (\<lambda>_. Done ())))))"

subsection \<open>The filter\<close>

record list_info =
  li_name :: string
  li_entries :: nat
  li_updated :: "uint64 option"
  li_error :: "string option"

datatype block = Block_List | Block_Endpoint | Block_Address | Block_Quic

fun block_matched :: "block \<Rightarrow> string" where
  "block_matched Block_List = ''Adblock''"
| "block_matched Block_Endpoint = ''Adblock(HTTPDNS)''"
| "block_matched Block_Address = ''Adblock(IP)''"
| "block_matched Block_Quic = ''Adblock(QUIC)''"

record 'r endpoints =
  e_domains :: "'r domain_set"
  e_addresses :: "ip_net list"

record 'r ad_filter =
  f_block :: "'r domain_set"
  f_list_allow :: "'r domain_set"
  f_user_allow :: "'r domain_set"
  f_addresses :: "ip_net list"
  f_endpoints :: "'r endpoints"
  f_block_httpdns :: bool
  f_quic_fallback :: bool
  f_null_answer :: bool
  f_lists :: "list_info list"

definition Endpoints_new :: "'r regex_api \<Rightarrow> domain_hash \<Rightarrow> net_parser \<Rightarrow> 'r endpoints" where
  "Endpoints_new api hash net_parse =
     \<lparr>e_domains = builder_build api hash (foldl (\<lambda>b d. builder_suffix hash d b) builder_default HTTPDNS_DOMAINS),
      e_addresses = concat (map (\<lambda>net. out_list (net_parse net)) HTTPDNS_ADDRESSES)\<rparr>"

definition allow_set :: "'r regex_api \<Rightarrow> domain_hash \<Rightarrow> string list \<Rightarrow> 'r domain_set" where
  "allow_set api hash patterns =
     builder_build api hash
       (foldl (\<lambda>b p. case allow_pattern api hash p b of Done b' \<Rightarrow> b' | _ \<Rightarrow> b) builder_default patterns)"

definition Filter_new ::
    "'r regex_api \<Rightarrow> domain_hash \<Rightarrow> net_parser \<Rightarrow> 'r domain_set \<Rightarrow> 'r domain_set \<Rightarrow> ip_net list \<Rightarrow>
     adblock \<Rightarrow> list_info list \<Rightarrow> 'r ad_filter" where
  "Filter_new api hash net_parse blk list_allow addresses settings infos =
     \<lparr>f_block = blk, f_list_allow = list_allow, f_user_allow = allow_set api hash (ab_allow settings),
      f_addresses = addresses, f_endpoints = Endpoints_new api hash net_parse,
      f_block_httpdns = ab_block_httpdns settings, f_quic_fallback = ab_quic_fallback settings,
      f_null_answer = (ab_dns_answer settings = ''null''), f_lists = infos\<rparr>"

definition with_lists ::
    "'r regex_api \<Rightarrow> domain_hash \<Rightarrow> 'r ad_filter \<Rightarrow> adblock \<Rightarrow> list_info list \<Rightarrow> 'r ad_filter" where
  "with_lists api hash f settings infos =
     f\<lparr>f_user_allow := allow_set api hash (ab_allow settings),
       f_block_httpdns := ab_block_httpdns settings, f_quic_fallback := ab_quic_fallback settings,
       f_null_answer := (ab_dns_answer settings = ''null''), f_lists := infos\<rparr>"

definition blocks :: "'r regex_api \<Rightarrow> domain_hash \<Rightarrow> 'r ad_filter \<Rightarrow> string \<Rightarrow> bool" where
  "blocks api hash f host \<longleftrightarrow>
     (let host = trim_end_matches CHR ''.'' host
      in if parse_ip host \<noteq> None \<or> \<not> DomainSet_matches api hash (f_block f) host then False
         else \<not> (DomainSet_matches api hash (f_list_allow f) host \<or>
                 DomainSet_matches api hash (f_user_allow f) host))"

definition endpoint_name :: "'r regex_api \<Rightarrow> domain_hash \<Rightarrow> 'r ad_filter \<Rightarrow> string \<Rightarrow> bool" where
  "endpoint_name api hash f host \<longleftrightarrow>
     (let host = trim_end_matches CHR ''.'' host
      in f_block_httpdns f \<and> DomainSet_matches api hash (e_domains (f_endpoints f)) host \<and>
         \<not> DomainSet_matches api hash (f_user_allow f) host)"

definition refuses_name :: "'r regex_api \<Rightarrow> domain_hash \<Rightarrow> 'r ad_filter \<Rightarrow> string \<Rightarrow> block option" where
  "refuses_name api hash f host =
     (if blocks api hash f host then Some Block_List
      else if endpoint_name api hash f host then Some Block_Endpoint else None)"

definition trim_start_matches :: "char \<Rightarrow> string \<Rightarrow> string" where
  "trim_start_matches c s = dropWhile (\<lambda>d. d = c) s"

definition refuses ::
    "'r regex_api \<Rightarrow> domain_hash \<Rightarrow> 'r ad_filter \<Rightarrow> string \<Rightarrow> uint16 \<Rightarrow> string \<Rightarrow> block option" where
  "refuses api hash f host port network =
     (case parse_ip (trim_end_matches CHR '']'' (trim_start_matches CHR ''['' host)) of
        None \<Rightarrow> refuses_name api hash f host
      | Some ip \<Rightarrow>
          (let ip = to_canonical ip
           in if f_block_httpdns f \<and> port \<in> set HTTPDNS_PORTS \<and>
                list_ex (\<lambda>net. net_contains net ip) (e_addresses (f_endpoints f))
              then Some Block_Endpoint
              else if list_ex (\<lambda>net. net_contains net ip) (f_addresses f) then Some Block_Address
              else if f_quic_fallback f \<and> network = ''udp'' \<and> port = 443 then Some Block_Quic
              else None))"

definition set_allow :: "'r regex_api \<Rightarrow> domain_hash \<Rightarrow> string list \<Rightarrow> 'r ad_filter \<Rightarrow> 'r ad_filter" where
  "set_allow api hash patterns f = f\<lparr>f_user_allow := allow_set api hash patterns\<rparr>"

definition entries :: "'r ad_filter \<Rightarrow> nat" where
  "entries f = DomainSet_len (f_block f) + length (f_addresses f)"

subsection \<open>Counters\<close>

definition RECENT :: nat where
  "RECENT = 100"

definition TRACKED_DOMAINS :: nat where
  "TRACKED_DOMAINS = 2000"

record blocked =
  bl_time :: uint64
  bl_domain :: string
  bl_via :: string

record stats =
  st_since :: uint64
  st_dns :: uint64
  st_connections :: uint64
  st_domains :: "(string \<times> nat) list"
  st_recent :: "blocked list"
  st_window :: "nat \<times> (string \<times> nat) list"

definition bump :: "string \<Rightarrow> (string \<times> nat) list \<Rightarrow> (string \<times> nat) list" where
  "bump key m =
     (case map_of m key of
        Some count \<Rightarrow> AList.update key (count + 1) m
      | None \<Rightarrow> if length m < TRACKED_DOMAINS then AList.update key 1 m else m)"

definition Stats_record :: "uint64 \<Rightarrow> string \<Rightarrow> string \<Rightarrow> stats \<Rightarrow> stats" where
  "Stats_record now domain via st =
     (let st = (if via = ''dns'' then st\<lparr>st_dns := st_dns st + 1\<rparr>
                else st\<lparr>st_connections := st_connections st + 1\<rparr>);
          domain = to_ascii_lowercase (trim_end_matches CHR ''.'' domain)
      in st\<lparr>st_window := (fst (st_window st) + 1, bump domain (snd (st_window st))),
            st_domains := bump domain (st_domains st),
            st_recent := \<lparr>bl_time = now, bl_domain = domain, bl_via = via\<rparr> #
              (if length (st_recent st) = RECENT then butlast (st_recent st) else st_recent st)\<rparr>)"

text \<open>Most blocked first, then by name.\<close>

fun count_before :: "string \<times> nat \<Rightarrow> string \<times> nat \<Rightarrow> bool" where
  "count_before (d, n) (e, m) \<longleftrightarrow> n > m \<or> n = m \<and> map (of_char :: char \<Rightarrow> nat) d \<le> map of_char e"

fun insert_count :: "string \<times> nat \<Rightarrow> (string \<times> nat) list \<Rightarrow> (string \<times> nat) list" where
  "insert_count x [] = [x]"
| "insert_count x (y # ys) = (if count_before x y then x # y # ys else y # insert_count x ys)"

definition by_count :: "(string \<times> nat) list \<Rightarrow> (string \<times> nat) list" where
  "by_count targets = foldr insert_count targets []"

fun join_with :: "string \<Rightarrow> string list \<Rightarrow> string" where
  "join_with sep [] = []"
| "join_with sep [w] = w"
| "join_with sep (w # ws) = w @ sep @ join_with sep ws"

definition times_sign :: string where
  "times_sign = [CHR 0xC3, CHR 0x97]"

definition take_summary :: "nat \<Rightarrow> stats \<Rightarrow> string option \<times> stats" where
  "take_summary most st =
     (let total = fst (st_window st); targets = by_count (snd (st_window st));
          st = st\<lparr>st_window := (0, [])\<rparr>
      in if total = 0 then (None, st)
         else
           (let line = join_with '', ''
                  (map (\<lambda>(target, count). target @ '' '' @ times_sign @ show_nat count) (take most targets));
                line = (if length targets > most
                        then line @ '' (+'' @ show_nat (length targets - most) @ '' more)'' else line)
            in (Some (''blocked '' @ show_nat total @ '': '' @ line), st)))"

definition snapshot_top :: "nat \<Rightarrow> stats \<Rightarrow> (string \<times> nat) list" where
  "snapshot_top most st = take most (by_count (st_domains st))"

text \<open>The counters stay bounded, and while fewer names than the limit were seen none is missed.\<close>

definition stats_ok :: "stats \<Rightarrow> bool" where
  "stats_ok st \<longleftrightarrow>
     length (st_domains st) \<le> TRACKED_DOMAINS \<and> length (snd (st_window st)) \<le> TRACKED_DOMAINS \<and>
     length (st_recent st) \<le> RECENT \<and>
     distinct (map fst (st_domains st)) \<and> distinct (map fst (snd (st_window st))) \<and>
     sum_list (map snd (snd (st_window st))) \<le> fst (st_window st)"

lemma length_update_absent:
  "map_of m k = None \<Longrightarrow> AList.update k v m = m @ [(k, v)]"
  by (induction m) auto

lemma update_present:
  "map_of m k = Some (n::nat) \<Longrightarrow> distinct (map fst m) \<Longrightarrow>
    length (AList.update k v m) = length m \<and>
    sum_list (map snd (AList.update k v m)) + n = sum_list (map snd m) + v"
proof (induction m)
  case (Cons e m)
  then show ?case by (cases "fst e = k") (auto simp: ac_simps)
qed simp

lemma bump_ok:
  assumes "length m \<le> TRACKED_DOMAINS" "distinct (map fst m)"
  shows "length (bump k m) \<le> TRACKED_DOMAINS \<and> distinct (map fst (bump k m)) \<and>
    sum_list (map snd (bump k m)) \<le> Suc (sum_list (map snd m))"
proof (cases "map_of m k")
  case None
  then have "k \<notin> fst ` set m" by (simp add: map_of_eq_None_iff)
  then show ?thesis
    using assms by (simp add: bump_def None length_update_absent [OF None])
next
  case (Some n)
  from update_present [OF this assms(2), of "n + 1"] show ?thesis
    using assms Some by (auto simp: bump_def distinct_update)
qed

lemma Stats_record_ok: "stats_ok st \<Longrightarrow> stats_ok (Stats_record now domain via st)"
proof -
  assume ok: "stats_ok st"
  let ?d = "to_ascii_lowercase (trim_end_matches CHR ''.'' domain)"
  have "sum_list (map snd (bump ?d (snd (st_window st)))) \<le> Suc (fst (st_window st))"
    using ok bump_ok [of "snd (st_window st)" ?d] by (simp add: stats_ok_def)
  then show ?thesis
    using ok bump_ok [of "st_domains st" ?d] bump_ok [of "snd (st_window st)" ?d]
    by (auto simp: stats_ok_def Stats_record_def Let_def RECENT_def)
qed

lemma take_summary_ok: "stats_ok st \<Longrightarrow> stats_ok (snd (take_summary most st))"
  by (auto simp: stats_ok_def take_summary_def Let_def)

end
