(* ===== verification/Policy_Config.thy ===== *)
theory Policy_Config
  imports Networks
begin

text \<open>
  The part of \<^verbatim>\<open>Config\<close> that decides routes, and the part of \<^verbatim>\<open>Config::validate\<close>
  (\<^verbatim>\<open>crates/config/src/lib.rs\<close>) that checks it: names of proxies and groups, members of groups,
  which must not form cycles, and rules. The checks of \<^verbatim>\<open>validate\<close> on other settings are the
  argument \<open>others\<close>.
\<close>

datatype group_kind = Select | UrlTest

record group =
  g_name :: string
  g_kind :: group_kind
  g_proxies :: "string list"
  g_url :: string
  g_interval :: uint64
  g_tolerance :: uint64

record proxy =
  px_name :: string
  px_dialer :: "string option"

record route_config =
  rc_mode :: mode
  rc_proxies :: "proxy list"
  rc_groups :: "group list"
  rc_rules :: "string list"
  rc_providers :: "string list"
  rc_networks :: "(string \<times> named_network) list"
  rc_overrides :: "network_override list"

definition RESERVED :: "string list" where
  "RESERVED = [''DIRECT'', ''REJECT'', ''GLOBAL'']"

text \<open>The first argument is the set \<^verbatim>\<open>names\<close> so far.\<close>

fun add_proxies :: "string list \<Rightarrow> proxy list \<Rightarrow> string list outcome" where
  "add_proxies names [] = Done names"
| "add_proxies names (p # ps) =
     out_ensure (px_name p \<noteq> [] \<and> px_name p \<notin> set names)
       (''duplicate/reserved proxy name: '' @ px_name p)
       (add_proxies (px_name p # names) ps)"

fun add_groups :: "string list \<Rightarrow> group list \<Rightarrow> string list outcome" where
  "add_groups names [] = Done names"
| "add_groups names (g # gs) =
     out_ensure (g_name g \<noteq> [] \<and> g_name g \<notin> set names)
       (''duplicate/reserved group name: '' @ g_name g) (
     out_ensure (g_proxies g \<noteq> []) (''empty group '' @ g_name g) (
     out_ensure (g_interval g > 0) ''group interval must be positive'' (
       add_groups (g_name g # names) gs)))"

definition check_dialer :: "string list \<Rightarrow> proxy \<Rightarrow> unit outcome" where
  "check_dialer names p =
     (case px_dialer p of
        None \<Rightarrow> Done ()
      | Some via \<Rightarrow>
          out_ensure (via \<noteq> px_name p \<and> via \<noteq> ''GLOBAL'' \<and> via \<in> set names)
            (''proxy '' @ px_name p @ '': unknown dialer-proxy '' @ via) (Done ()))"

definition group_of :: "group list \<Rightarrow> string \<Rightarrow> group option" where
  "group_of groups = map_of (rev (map (\<lambda>g. (g_name g, g)) groups))"

lemma group_of_Some: "group_of groups n = Some g \<Longrightarrow> g \<in> set groups \<and> g_name g = n"
  by (auto simp: group_of_def dest!: map_of_SomeD)

lemma group_of_None: "group_of groups n = None \<longleftrightarrow> n \<notin> g_name ` set groups"
  by (auto simp: group_of_def map_of_eq_None_iff image_image)

text \<open>
  \<^verbatim>\<open>visit\<close> keeps the groups on the way down in \<^verbatim>\<open>path\<close>; a name that was inserted is removed after
  its members, so each member is visited with the same path, here an argument.
\<close>

function visit :: "group list \<Rightarrow> string list \<Rightarrow> string list \<Rightarrow> string \<Rightarrow> unit outcome"
  and visit_all :: "group list \<Rightarrow> string list \<Rightarrow> string list \<Rightarrow> string list \<Rightarrow> unit outcome" where
  "visit groups names path name =
     out_ensure (name \<in> set names \<and> name \<noteq> ''GLOBAL'')
       (''unknown or invalid group target: '' @ name)
       (case group_of groups name of
          None \<Rightarrow> Done ()
        | Some g \<Rightarrow>
            out_ensure (name \<notin> set path) (''cyclic group: '' @ name)
              (visit_all groups names (name # path) (g_proxies g)))"
| "visit_all groups names path [] = Done ()"
| "visit_all groups names path (child # children) =
     out_then (visit groups names path child) (\<lambda>_. visit_all groups names path children)"
  by pat_completeness auto
termination
proof (relation "measures
    [\<lambda>x. case x of Inl (gs, _, path, _) \<Rightarrow> card (g_name ` set gs - set path)
        | Inr (gs, _, path, _) \<Rightarrow> card (g_name ` set gs - set path),
     \<lambda>x. case x of Inl _ \<Rightarrow> 0 | Inr (_, _, _, cs) \<Rightarrow> length cs]", goal_cases)
  case (2 groups names path name g)
  then have "name \<in> g_name ` set groups - set path" by (auto dest: group_of_Some)
  moreover have "finite (g_name ` set groups - set path)" by simp
  moreover have "g_name ` set groups - set (name # path) = (g_name ` set groups - set path) - {name}"
    by auto
  ultimately have "card (g_name ` set groups - set (name # path)) < card (g_name ` set groups - set path)"
    by (metis card_Diff1_less)
  then show ?case by simp
qed auto

declare visit.simps [simp del]

subsection \<open>Rules\<close>

text \<open>The names that \<^verbatim>\<open>networks\<close> passes to its argument, in order.\<close>

fun network_names :: "'r matcher \<Rightarrow> string list" where
  "network_names (M_OnNetwork name on) = [name]"
| "network_names (M_And nodes) = concat (map network_names nodes)"
| "network_names (M_Or nodes) = concat (map network_names nodes)"
| "network_names (M_Not m) = network_names m"
| "network_names (M_NoResolve m) = network_names m"
| "network_names _ = []"

definition check_rule ::
    "'r regex_api \<Rightarrow> net_parser \<Rightarrow> route_config \<Rightarrow> string list \<Rightarrow> nat \<Rightarrow> string \<Rightarrow> unit outcome" where
  "check_rule api net_parse c names i raw =
     (let at = ''rules['' @ show_nat i @ '']''
      in
      out_then (err_context at (Rule_parse api net_parse raw)) (\<lambda>r.
      out_ensure (rule_target r \<in> set names) (at @ '': unknown target '' @ rule_target r) (
      out_ensure (list_all (\<lambda>n. n \<in> fst ` set (rc_networks c)) (network_names (rule_matcher r)))
        (at @ '': NETWORK-NAME is not defined in networks'') (
      out_ensure (list_all (\<lambda>(kind, n). kind = ''rule-set'' \<longrightarrow> n \<in> set (rc_providers c))
          (references (rule_matcher r)))
        (at @ '': unknown rule provider'') (Done ())))))"

fun check_rules ::
    "'r regex_api \<Rightarrow> net_parser \<Rightarrow> route_config \<Rightarrow> string list \<Rightarrow> nat \<Rightarrow> string list \<Rightarrow> unit outcome" where
  "check_rules api net_parse c names i [] = Done ()"
| "check_rules api net_parse c names i (raw # rest) =
     out_then (check_rule api net_parse c names i raw) (\<lambda>_.
       check_rules api net_parse c names (Suc i) rest)"

definition validate ::
    "(route_config \<Rightarrow> unit outcome) \<Rightarrow> 'r regex_api \<Rightarrow> net_parser \<Rightarrow> route_config \<Rightarrow> unit outcome" where
  "validate others api net_parse c =
     out_then (add_proxies RESERVED (rc_proxies c)) (\<lambda>names.
     out_then (add_groups names (rc_groups c)) (\<lambda>names.
     out_then (all_done (check_dialer names) (rc_proxies c)) (\<lambda>_.
     out_then (all_done (\<lambda>g. visit (rc_groups c) names [] (g_name g)) (rc_groups c)) (\<lambda>_.
     out_then (check_rules api net_parse c names 0 (rc_rules c)) (\<lambda>_.
     out_then (all_done (\<lambda>(name, n). Network_validate net_parse name n) (rc_networks c)) (\<lambda>_.
     others c))))))"

subsection \<open>What a valid configuration guarantees\<close>

definition node_names :: "route_config \<Rightarrow> string set" where
  "node_names c = {''DIRECT'', ''REJECT''} \<union> px_name ` set (rc_proxies c)"

definition group_names :: "route_config \<Rightarrow> string set" where
  "group_names c = g_name ` set (rc_groups c)"

definition member_of :: "route_config \<Rightarrow> string \<Rightarrow> string \<Rightarrow> bool" where
  "member_of c a b \<longleftrightarrow> (\<exists>g\<in>set (rc_groups c). g_name g = a \<and> b \<in> set (g_proxies g))"

lemma add_proxies_Done:
  "add_proxies names ps = Done ns \<Longrightarrow>
    set ns = set names \<union> px_name ` set ps \<and> set names \<inter> px_name ` set ps = {} \<and> [] \<notin> px_name ` set ps"
  by (induction names ps rule: add_proxies.induct) auto

lemma add_groups_Done:
  "add_groups names gs = Done ns \<Longrightarrow>
    set ns = set names \<union> g_name ` set gs \<and> set names \<inter> g_name ` set gs = {} \<and>
    distinct (map g_name gs) \<and> (\<forall>g\<in>set gs. g_proxies g \<noteq> [])"
  by (induction names gs rule: add_groups.induct) auto

lemma group_of_distinct:
  "distinct (map g_name gs) \<Longrightarrow> g \<in> set gs \<Longrightarrow> group_of gs (g_name g) = Some g"
  by (auto simp: group_of_def distinct_map inj_on_def comp_def intro!: map_of_is_SomeI)

lemma visit_all_Done:
  "visit_all groups names path cs = Done () \<longleftrightarrow> (\<forall>c\<in>set cs. visit groups names path c = Done ())"
  by (induction cs) auto

text \<open>From a visited name, no walk along members returns to a group it passed.\<close>

lemma visit_walk:
  assumes "visit groups names path n = Done ()"
    and "successively (\<lambda>a b. \<exists>g. group_of groups a = Some g \<and> b \<in> set (g_proxies g)) (n # ns)"
  shows "set (n # ns) \<subseteq> set names - {''GLOBAL''} \<and>
    distinct (filter (\<lambda>x. group_of groups x \<noteq> None) (n # ns)) \<and>
    set (filter (\<lambda>x. group_of groups x \<noteq> None) (n # ns)) \<inter> set path = {}"
  using assms
proof (induction ns arbitrary: n path)
  case Nil
  then show ?case by (auto simp: visit.simps [of groups names path n] split: option.splits)
next
  case (Cons m ns)
  then obtain g where g: "group_of groups n = Some g" "m \<in> set (g_proxies g)" by auto
  with Cons.prems have n: "n \<in> set names" "n \<noteq> ''GLOBAL''" "n \<notin> set path"
    and m: "visit groups names (n # path) m = Done ()"
    by (simp_all add: visit.simps [of groups names path n] visit_all_Done)
  from Cons.prems have "successively (\<lambda>a b. \<exists>g. group_of groups a = Some g \<and> b \<in> set (g_proxies g)) (m # ns)"
    by simp
  from Cons.IH [OF m this] n g(1) show ?case by auto
qed

lemma check_rules_Done:
  "check_rules api net_parse c names i raws = Done () \<Longrightarrow> raw \<in> set raws \<Longrightarrow>
    \<exists>r. Rule_parse api net_parse raw = Done r \<and> rule_target r \<in> set names"
proof (induction raws arbitrary: i)
  case (Cons a raws)
  then consider "raw = a" "check_rule api net_parse c names i a = Done ()" | "raw \<in> set raws"
    by auto
  then show ?case
  proof cases
    case 1
    then show ?thesis
      by (auto simp: check_rule_def Let_def err_context_def split: outcome.splits)
  next
    case 2
    with Cons show ?thesis by auto
  qed
qed simp

text \<open>The facts about a configuration that was validated, in the form the routing proofs use.\<close>

definition config_ok :: "'r regex_api \<Rightarrow> net_parser \<Rightarrow> route_config \<Rightarrow> bool" where
  "config_ok api net_parse c \<longleftrightarrow>
     distinct (map g_name (rc_groups c)) \<and>
     (\<forall>g\<in>set (rc_groups c). g_proxies g \<noteq> []) \<and>
     ''GLOBAL'' \<notin> px_name ` set (rc_proxies c) \<and>
     group_names c \<inter> ({''GLOBAL''} \<union> node_names c) = {} \<and>
     (\<forall>n ns. n \<in> group_names c \<longrightarrow> successively (member_of c) (n # ns) \<longrightarrow>
        set (n # ns) \<subseteq> node_names c \<union> group_names c \<and>
        distinct (filter (\<lambda>x. x \<in> group_names c) (n # ns))) \<and>
     (\<forall>raw\<in>set (rc_rules c). \<exists>r. Rule_parse api net_parse raw = Done r \<and>
        rule_target r \<in> {''GLOBAL''} \<union> node_names c \<union> group_names c)"

lemma validate_ok:
  assumes "validate others api net_parse c = Done ()"
  shows "config_ok api net_parse c"
proof -
  from assms obtain ns names where
    ns: "add_proxies RESERVED (rc_proxies c) = Done ns" and
    names: "add_groups ns (rc_groups c) = Done names" and
    visit: "\<forall>g\<in>set (rc_groups c). visit (rc_groups c) names [] (g_name g) = Done ()" and
    rules: "check_rules api net_parse c names 0 (rc_rules c) = Done ()"
    by (auto simp: validate_def)
  note ns = add_proxies_Done [OF ns] and gs = add_groups_Done [OF names]
  have set_names: "set names = {''GLOBAL''} \<union> node_names c \<union> group_names c"
    using ns gs by (auto simp: node_names_def group_names_def RESERVED_def)
  have member: "member_of c = (\<lambda>a b. \<exists>g. group_of (rc_groups c) a = Some g \<and> b \<in> set (g_proxies g))"
    using gs by (auto simp: member_of_def fun_eq_iff dest: group_of_Some group_of_distinct)
  have group: "x \<in> group_names c \<longleftrightarrow> group_of (rc_groups c) x \<noteq> None" for x
    by (simp add: group_names_def group_of_None)
  have "set (n # ns) \<subseteq> node_names c \<union> group_names c \<and>
      distinct (filter (\<lambda>x. x \<in> group_names c) (n # ns))"
    if "n \<in> group_names c" "successively (member_of c) (n # ns)" for n ns
  proof -
    have "visit (rc_groups c) names [] n = Done ()" using that(1) visit by (auto simp: group_names_def)
    from visit_walk [OF this that(2) [unfolded member]] show ?thesis
      unfolding group set_names by auto
  qed
  moreover have "\<forall>raw\<in>set (rc_rules c). \<exists>r. Rule_parse api net_parse raw = Done r \<and>
      rule_target r \<in> {''GLOBAL''} \<union> node_names c \<union> group_names c"
    using check_rules_Done [OF rules] set_names by auto
  moreover have "group_names c \<inter> ({''GLOBAL''} \<union> node_names c) = {}"
  proof -
    have "{''GLOBAL''} \<union> node_names c = set ns"
      using ns by (auto simp: node_names_def RESERVED_def)
    then show ?thesis using gs by (simp only: Int_commute group_names_def)
  qed
  moreover have "''GLOBAL'' \<notin> px_name ` set (rc_proxies c)"
    using ns by (simp add: RESERVED_def)
  ultimately show ?thesis
    using gs unfolding config_ok_def by simp
qed

end
