(* ===== verification/Route_Trace.thy ===== *)
theory Route_Trace
  imports Ad_Filter Policy_Config Rule_Grouping
begin

text \<open>
  How \<^verbatim>\<open>crates/core/src/lib.rs\<close> routes a connection: \<^verbatim>\<open>describe_rule\<close>, \<^verbatim>\<open>Policy\<close> (without the
  results of probes, which only status displays read), \<^verbatim>\<open>chain\<close>, \<^verbatim>\<open>leaf\<close> and \<^verbatim>\<open>trace_route\<close>.
  The answer of the resolver, which is asked at most once, is the argument \<open>answer\<close>: the first
  address, if any.
\<close>

subsection \<open>Describing a rule\<close>

definition ascii_upper :: "char \<Rightarrow> char" where
  "ascii_upper c = (let n = (of_char c :: nat) in if 97 \<le> n \<and> n \<le> 122 then char_of (n - 32) else c)"

definition str_eq_ignore_case :: "string \<Rightarrow> string \<Rightarrow> bool" where
  "str_eq_ignore_case a b \<longleftrightarrow> to_ascii_lowercase a = to_ascii_lowercase b"

text \<open>The loop from the end: \<open>before\<close> is the text to the left in reverse, \<open>after\<close> the text to the
  right.\<close>

fun without_loop :: "string \<Rightarrow> nat \<Rightarrow> string \<Rightarrow> string \<Rightarrow> string option" where
  "without_loop expected depth [] after = None"
| "without_loop expected depth (c # before) after =
     (if c = CHR '')'' then without_loop expected (depth + 1) before (c # after)
      else if c = CHR ''('' then without_loop expected (depth - 1) before (c # after)
      else if c = CHR '','' \<and> depth = 0 \<and> str_eq_ignore_case (trim after) expected
      then Some (trim_end (rev before))
      else without_loop expected depth before (c # after))"

definition without_last_rule_field :: "string \<Rightarrow> string \<Rightarrow> string" where
  "without_last_rule_field raw expected =
     (case without_loop expected 0 (rev raw) [] of Some r \<Rightarrow> r | None \<Rightarrow> raw)"

definition kind_names :: "(string \<times> string) list" where
  "kind_names =
     [(''DOMAIN'', ''Domain''), (''DOMAIN-SUFFIX'', ''DomainSuffix''), (''DOMAIN-KEYWORD'', ''DomainKeyword''),
      (''DOMAIN-REGEX'', ''DomainRegex''), (''IP-CIDR'', ''IPCIDR''), (''IP-CIDR6'', ''IPCIDR6''),
      (''GEOIP'', ''GeoIP''), (''GEOSITE'', ''GeoSite''), (''RULE-SET'', ''RuleSet''),
      (''DST-PORT'', ''DstPort''), (''NETWORK'', ''Network''), (''NETWORK-NAME'', ''NetworkName''),
      (''AND'', ''And''), (''OR'', ''Or''), (''NOT'', ''Not'')]"

definition describe_rule :: "string \<Rightarrow> string \<Rightarrow> string" where
  "describe_rule raw target =
     (let raw = without_last_rule_field raw ''no-resolve'';
          raw = without_last_rule_field raw target
      in case split_once CHR '','' raw of
           None \<Rightarrow> if str_eq_ignore_case raw ''MATCH'' then ''Match'' else raw
         | Some (kind, val) \<Rightarrow>
             (let kind = trim kind; val = trim val;
                  name = (case map_of kind_names (map ascii_upper kind) of Some n \<Rightarrow> n | None \<Rightarrow> kind)
              in name @ ''('' @ val @ '')''))"

subsection \<open>Policy and groups\<close>

record 'r policy =
  p_mode :: mode
  p_rules :: "'r rule list"
  p_raw_rules :: "string list"
  p_selection :: "string \<rightharpoonup> string"

record route_decision =
  d_node :: string
  d_group :: string
  d_rule :: string

record trace =
  t_decision :: route_decision
  t_ip :: "ip_addr option"
  t_index :: "nat option"
  t_looked_up :: bool

definition Trace_new :: "string \<Rightarrow> string \<Rightarrow> string \<Rightarrow> ip_addr option \<Rightarrow> trace" where
  "Trace_new node grp rule ip =
     \<lparr>t_decision = \<lparr>d_node = node, d_group = grp, d_rule = rule\<rparr>,
      t_ip = ip, t_index = None, t_looked_up = False\<rparr>"

definition chain_start :: "route_config \<Rightarrow> string \<Rightarrow> string" where
  "chain_start c name =
     (if name = ''GLOBAL'' then
        (case rc_groups c of
           g # _ \<Rightarrow> g_name g
         | [] \<Rightarrow> (case rc_proxies c of p # _ \<Rightarrow> px_name p | [] \<Rightarrow> ''DIRECT''))
      else name)"

fun chain_loop :: "(string \<rightharpoonup> string) \<Rightarrow> nat \<Rightarrow> string list \<Rightarrow> string list outcome" where
  "chain_loop selection 0 names = Fail ''group cycle''"
| "chain_loop selection (Suc n) names =
     (case selection (last names) of
        Some selected \<Rightarrow> chain_loop selection n (names @ [selected])
      | None \<Rightarrow> Done names)"

definition chain :: "route_config \<Rightarrow> 'r policy \<Rightarrow> string \<Rightarrow> string list outcome" where
  "chain c p name =
     chain_loop (p_selection p) (Suc (length (rc_groups c))) [chain_start c name]"

definition leaf :: "route_config \<Rightarrow> 'r policy \<Rightarrow> string \<Rightarrow> string outcome" where
  "leaf c p name =
     out_then (chain c p name) (\<lambda>names. Done (if names = [] then [] else last names))"

subsection \<open>Rules\<close>

text \<open>The loop over the rules; \<open>ip\<close>, \<open>resolved\<close> and \<open>looked_up\<close> are its variables.\<close>

fun rules_loop ::
    "'r regex_api \<Rightarrow> domain_hash \<Rightarrow> (string \<Rightarrow> string outcome) \<Rightarrow> string list \<Rightarrow> string \<Rightarrow> uint16 \<Rightarrow>
     string \<Rightarrow> ip_addr option \<Rightarrow> ip_addr option \<Rightarrow> bool \<Rightarrow> bool \<Rightarrow> nat \<Rightarrow> 'r rule list \<Rightarrow> trace outcome" where
  "rules_loop api hash leaf_of raws host port network answer ip resolved looked_up index [] =
     Done ((Trace_new ''DIRECT'' ''DIRECT'' ''Fallback'' ip)\<lparr>t_looked_up := looked_up\<rparr>)"
| "rules_loop api hash leaf_of raws host port network answer ip resolved looked_up index (r # rs) =
     (let matched = evaluate api hash host ip port network (\<not> rule_no_resolve r \<and> \<not> resolved)
            (rule_matcher r);
          ask = (matched = None \<and> \<not> rule_no_resolve r \<and> \<not> resolved);
          ip = (if ask then answer else ip);
          resolved = (resolved \<or> ask);
          looked_up = (looked_up \<or> ask)
      in if matched = Some True \<or> matched = None \<and> Rule_matches api hash host ip port network r
         then
           out_then (leaf_of (rule_target r)) (\<lambda>node.
           Done ((Trace_new node (rule_target r)
                    (if index < length raws then describe_rule (raws ! index) (rule_target r)
                     else ''Match'') ip)
                 \<lparr>t_index := Some index, t_looked_up := looked_up\<rparr>))
         else rules_loop api hash leaf_of raws host port network answer ip resolved looked_up
                (Suc index) rs)"

record route_target =
  tg_host :: string
  tg_port :: uint16

definition target_ip :: "route_target \<Rightarrow> ip_addr option" where
  "target_ip t = parse_ip (tg_host t)"

definition route_host :: "route_target \<Rightarrow> string" where
  "route_host t = to_ascii_lowercase (trim_end_matches CHR ''.'' (tg_host t))"

definition known_ip :: "route_target \<Rightarrow> ip_addr option \<Rightarrow> ip_addr option" where
  "known_ip t address = (case target_ip t of Some ip \<Rightarrow> Some ip | None \<Rightarrow> address)"

text \<open>\<^verbatim>\<open>trace_route\<close> with the filter of the resolver, if any, and its counters; \<open>now\<close> is the time.\<close>

definition trace_route ::
    "'r regex_api \<Rightarrow> domain_hash \<Rightarrow> route_config \<Rightarrow> uint64 \<Rightarrow> ip_addr option \<Rightarrow> 'r policy \<Rightarrow>
     'r ad_filter option \<Rightarrow> stats \<Rightarrow> route_target \<Rightarrow> ip_addr option \<Rightarrow> string \<Rightarrow> bool \<Rightarrow>
     trace outcome \<times> stats" where
  "trace_route api hash c now answer p flt stats t address network rec =
     (case (case flt of None \<Rightarrow> None | Some f \<Rightarrow> refuses api hash f (tg_host t) (tg_port t) network) of
        Some b \<Rightarrow>
          (Done (Trace_new ''REJECT'' ''REJECT'' (block_matched b) None),
           if rec then Stats_record now (tg_host t) ''connection'' stats else stats)
      | None \<Rightarrow>
          (case p_mode p of
             Direct \<Rightarrow> Done (Trace_new ''DIRECT'' ''DIRECT'' ''Mode(Direct)'' None)
           | Global \<Rightarrow>
               out_then (leaf c p ''GLOBAL'') (\<lambda>node. Done (Trace_new node ''GLOBAL'' ''Mode(Global)'' None))
           | Rule \<Rightarrow>
               rules_loop api hash (leaf c p) (p_raw_rules p) (route_host t) (tg_port t) network answer
                 (known_ip t address) (known_ip t address \<noteq> None) False 0 (p_rules p), stats))"

definition route_decision_of ::
    "'r regex_api \<Rightarrow> domain_hash \<Rightarrow> route_config \<Rightarrow> uint64 \<Rightarrow> ip_addr option \<Rightarrow> 'r policy \<Rightarrow>
     'r ad_filter option \<Rightarrow> stats \<Rightarrow> route_target \<Rightarrow> string \<Rightarrow> route_decision outcome \<times> stats" where
  "route_decision_of api hash c now answer p flt stats t network =
     (case trace_route api hash c now answer p flt stats t None network True of
        (r, stats) \<Rightarrow> (out_then r (\<lambda>t. Done (t_decision t)), stats))"

subsection \<open>First match\<close>

text \<open>
  The reference: a rule asks for the address when it is not marked \<^verbatim>\<open>no-resolve\<close> and cannot be
  decided without it; from the first such rule on, all rules see the answer.
\<close>

definition asks :: "'r regex_api \<Rightarrow> domain_hash \<Rightarrow> string \<Rightarrow> uint16 \<Rightarrow> string \<Rightarrow> 'r rule \<Rightarrow> bool" where
  "asks api hash host port network r \<longleftrightarrow>
     \<not> rule_no_resolve r \<and> evaluate api hash host None port network True (rule_matcher r) = None"

definition asked ::
    "'r regex_api \<Rightarrow> domain_hash \<Rightarrow> string \<Rightarrow> uint16 \<Rightarrow> string \<Rightarrow> ip_addr option \<Rightarrow> 'r rule list \<Rightarrow> nat \<Rightarrow> bool" where
  "asked api hash host port network ip rules n \<longleftrightarrow>
     ip = None \<and> list_ex (asks api hash host port network) (take n rules)"

definition seen ::
    "'r regex_api \<Rightarrow> domain_hash \<Rightarrow> string \<Rightarrow> uint16 \<Rightarrow> string \<Rightarrow> ip_addr option \<Rightarrow> ip_addr option \<Rightarrow>
     'r rule list \<Rightarrow> nat \<Rightarrow> ip_addr option" where
  "seen api hash host port network ip answer rules n =
     (if asked api hash host port network ip rules n then answer else ip)"

definition first_match ::
    "'r regex_api \<Rightarrow> domain_hash \<Rightarrow> string \<Rightarrow> uint16 \<Rightarrow> string \<Rightarrow> ip_addr option \<Rightarrow> ip_addr option \<Rightarrow>
     'r rule list \<Rightarrow> nat option" where
  "first_match api hash host port network ip answer rules =
     find (\<lambda>i. Rule_matches api hash host (seen api hash host port network ip answer rules (Suc i))
         port network (rules ! i)) [0..<length rules]"

definition hit ::
    "(string \<Rightarrow> string outcome) \<Rightarrow> string list \<Rightarrow> ip_addr option \<Rightarrow> bool \<Rightarrow> nat \<Rightarrow> 'r rule \<Rightarrow> trace outcome" where
  "hit leaf_of raws ip looked_up index r =
     out_then (leaf_of (rule_target r)) (\<lambda>node.
     Done ((Trace_new node (rule_target r)
              (if index < length raws then describe_rule (raws ! index) (rule_target r) else ''Match'') ip)
           \<lparr>t_index := Some index, t_looked_up := looked_up\<rparr>))"

lemma evaluate_settled:
  "evaluate api hash host None port network True m = Some v \<Longrightarrow>
    evaluate api hash host None port network False m = Some v"
proof (induction m arbitrary: v)
  case (M_And nodes)
  then have v: "kleene True (evaluate api hash host None port network True ` set nodes) = Some v" by simp
  show ?case unfolding evaluate_nodes by (rule kleene_lazy [OF _ v]) (use M_And.IH in blast)
next
  case (M_Or nodes)
  then have v: "kleene False (evaluate api hash host None port network True ` set nodes) = Some v" by simp
  show ?case unfolding evaluate_nodes by (rule kleene_lazy [OF _ v]) (use M_Or.IH in blast)
qed (auto simp: on_ip_def)

lemma find_upt_Suc:
  "find P [0..<Suc n] = (if P 0 then Some 0 else map_option Suc (find (\<lambda>i. P (Suc i)) [0..<n]))"
proof -
  have "find P (map Suc xs) = map_option Suc (find (\<lambda>i. P (Suc i)) xs)" for xs
    by (induction xs) simp_all
  then show ?thesis
    by (simp add: upt_conv_Cons map_Suc_upt [symmetric] del: upt_Suc map_Suc_upt)
qed

text \<open>A host name in the form \<^verbatim>\<open>trace_route\<close> uses.\<close>

definition host_form :: "string \<Rightarrow> bool" where
  "host_form host \<longleftrightarrow> to_ascii_lowercase (trim_end_matches CHR ''.'' host) = host"

lemma rules_loop_resolved:
  assumes "host_form host"
  shows "rules_loop api hash leaf_of raws host port network answer ip True looked_up k rules =
    (case find (\<lambda>i. Rule_matches api hash host ip port network (rules ! i)) [0..<length rules] of
       Some i \<Rightarrow> hit leaf_of raws ip looked_up (k + i) (rules ! i)
     | None \<Rightarrow> Done ((Trace_new ''DIRECT'' ''DIRECT'' ''Fallback'' ip)\<lparr>t_looked_up := looked_up\<rparr>))"
proof (induction rules arbitrary: k)
  case (Cons r rules)
  have "evaluate api hash host ip port network False (rule_matcher r) \<noteq> None"
    by (rule evaluate_known) simp
  then obtain v where v: "evaluate api hash host ip port network False (rule_matcher r) = Some v" by auto
  then have "Rule_matches api hash host ip port network r \<longleftrightarrow> v"
    using assms by (simp add: Rule_matches_def host_form_def)
  with v show ?case
    unfolding length_Cons find_upt_Suc
    by (simp add: Cons.IH hit_def option.case_eq_if option.map_sel)
qed simp

lemma seen_Cons:
  "\<not> asks api hash host port network r \<Longrightarrow>
    asked api hash host port network None (r # rules) (Suc n) = asked api hash host port network None rules n"
  "\<not> asks api hash host port network r \<Longrightarrow>
    seen api hash host port network None answer (r # rules) (Suc n) =
      seen api hash host port network None answer rules n"
  "asks api hash host port network r \<Longrightarrow> asked api hash host port network None (r # rules) (Suc n)"
  "asks api hash host port network r \<Longrightarrow>
    seen api hash host port network None answer (r # rules) (Suc n) = answer"
  by (simp_all add: asked_def seen_def)

lemma rules_loop_unresolved:
  assumes "host_form host"
  shows "rules_loop api hash leaf_of raws host port network answer None False False k rules =
    (case find (\<lambda>i. Rule_matches api hash host
              (seen api hash host port network None answer rules (Suc i)) port network (rules ! i))
            [0..<length rules] of
       Some i \<Rightarrow> hit leaf_of raws (seen api hash host port network None answer rules (Suc i))
         (asked api hash host port network None rules (Suc i)) (k + i) (rules ! i)
     | None \<Rightarrow> Done ((Trace_new ''DIRECT'' ''DIRECT'' ''Fallback''
         (seen api hash host port network None answer rules (length rules)))
           \<lparr>t_looked_up := asked api hash host port network None rules (length rules)\<rparr>))"
proof (induction rules arbitrary: k)
  case (Cons r rules)
  show ?case
  proof (cases "asks api hash host port network r")
    case True
    then have "evaluate api hash host None port network True (rule_matcher r) = None" "\<not> rule_no_resolve r"
      by (simp_all add: asks_def)
    with True show ?thesis
      unfolding length_Cons find_upt_Suc
      by (simp add: rules_loop_resolved [OF assms] seen_Cons hit_def option.case_eq_if option.map_sel)
  next
    case False
    have "\<exists>v. evaluate api hash host None port network (\<not> rule_no_resolve r) (rule_matcher r) = Some v \<and>
        (Rule_matches api hash host None port network r \<longleftrightarrow> v)"
    proof (cases "rule_no_resolve r")
      case True
      have "evaluate api hash host None port network False (rule_matcher r) \<noteq> None"
        by (rule evaluate_known) simp
      with True assms show ?thesis by (auto simp: Rule_matches_def host_form_def)
    next
      case no: False
      with False obtain v where v: "evaluate api hash host None port network True (rule_matcher r) = Some v"
        by (auto simp: asks_def)
      with no assms evaluate_settled [OF v] show ?thesis by (auto simp: Rule_matches_def host_form_def)
    qed
    then obtain v where
      "evaluate api hash host None port network (\<not> rule_no_resolve r) (rule_matcher r) = Some v"
      "Rule_matches api hash host None port network r \<longleftrightarrow> v" by blast
    moreover have "seen api hash host port network None answer (r # rules) (Suc 0) = None"
      "\<not> asked api hash host port network None (r # rules) (Suc 0)"
      using False by (simp_all add: seen_def asked_def)
    ultimately show ?thesis
      unfolding length_Cons find_upt_Suc
      by (simp add: Cons.IH False seen_Cons hit_def option.case_eq_if option.map_sel)
  qed
qed (simp add: seen_def asked_def)

lemma route_host_form [simp]: "host_form (route_host t)"
  by (simp add: host_form_def route_host_def)

lemma rules_loop_first_match:
  assumes "host_form host"
  shows "rules_loop api hash leaf_of raws host port network answer ip (ip \<noteq> None) False 0 rules =
    (case first_match api hash host port network ip answer rules of
       Some i \<Rightarrow> hit leaf_of raws (seen api hash host port network ip answer rules (Suc i))
         (asked api hash host port network ip rules (Suc i)) i (rules ! i)
     | None \<Rightarrow> Done ((Trace_new ''DIRECT'' ''DIRECT'' ''Fallback''
         (seen api hash host port network ip answer rules (length rules)))
           \<lparr>t_looked_up := asked api hash host port network ip rules (length rules)\<rparr>))"
proof (cases ip)
  case None
  then show ?thesis by (simp add: rules_loop_unresolved [OF assms] first_match_def cong: option.case_cong)
next
  case (Some a)
  then have "seen api hash host port network ip answer rules n = ip"
    "\<not> asked api hash host port network ip rules n" for n
    by (simp_all add: seen_def asked_def)
  with Some show ?thesis
    by (simp add: rules_loop_resolved [OF assms] first_match_def cong: option.case_cong)
qed

text \<open>
  C6. In rule mode, and unless ad blocking refuses it, a connection takes the first rule that
  matches it. A rule sees the literal or dialed address; without one it sees none until the
  first rule, in order, that is not marked \<^verbatim>\<open>no-resolve\<close> and cannot be decided without an
  address: that rule and all later ones see the answer of the resolver. The trace names that
  rule's position, target and description, the address it saw, and whether the resolver was
  asked; without a match the connection goes out directly.
\<close>

theorem route_first_match:
  assumes "p_mode p = Rule"
    and "case flt of None \<Rightarrow> True | Some f \<Rightarrow> refuses api hash f (tg_host t) (tg_port t) network = None"
  shows "trace_route api hash c now answer p flt stats t address network rec =
    ((let ip = known_ip t address; host = route_host t; port = tg_port t; rules = p_rules p
      in case first_match api hash host port network ip answer rules of
           Some i \<Rightarrow> hit (leaf c p) (p_raw_rules p) (seen api hash host port network ip answer rules (Suc i))
             (asked api hash host port network ip rules (Suc i)) i (rules ! i)
         | None \<Rightarrow> Done ((Trace_new ''DIRECT'' ''DIRECT'' ''Fallback''
             (seen api hash host port network ip answer rules (length rules)))
               \<lparr>t_looked_up := asked api hash host port network ip rules (length rules)\<rparr>)), stats)"
  using assms
  by (cases flt) (simp_all add: trace_route_def Let_def rules_loop_first_match del: not_None_eq)

text \<open>Without rules marked \<^verbatim>\<open>no-resolve\<close>, asking late does not change which rule matches.\<close>

lemma first_match_eager:
  assumes "host_form host" "\<forall>r\<in>set rules. \<not> rule_no_resolve r \<and> resolving (rule_matcher r)"
  shows "first_match api hash host port network None answer rules =
    find (\<lambda>i. Rule_matches api hash host answer port network (rules ! i)) [0..<length rules]"
  unfolding first_match_def
proof (rule find_cong [OF refl])
  fix i assume "i \<in> set [0..<length rules]"
  then have i: "i < length rules" by simp
  show "Rule_matches api hash host (seen api hash host port network None answer rules (Suc i)) port network (rules ! i)
    \<longleftrightarrow> Rule_matches api hash host answer port network (rules ! i)"
  proof (cases "asked api hash host port network None rules (Suc i)")
    case False
    then have "\<not> asks api hash host port network (rules ! i)"
      using i by (simp add: asked_def take_Suc_conv_app_nth)
    moreover have r: "\<not> rule_no_resolve (rules ! i)" "resolving (rule_matcher (rules ! i))"
      using assms(2) i by simp_all
    ultimately obtain v where
      "evaluate api hash host None port network True (rule_matcher (rules ! i)) = Some v"
      by (auto simp: asks_def)
    from evaluate_lazy [OF this r(2)] show ?thesis
      using assms(1) by (simp add: Rule_matches_def host_form_def)
  qed (simp add: seen_def)
qed

text \<open>
  C14. The resolver is asked as late as possible, and this does not change routes: when no rule
  and no condition is marked \<^verbatim>\<open>no-resolve\<close>, a connection to a name takes the rule, the group and the
  node that it would take if the name had been resolved before the first rule.
\<close>

theorem late_lookup_keeps_route:
  assumes "p_mode p = Rule"
    and "case flt of None \<Rightarrow> True | Some f \<Rightarrow> refuses api hash f (tg_host t) (tg_port t) network = None"
    and "known_ip t address = None"
    and "\<forall>r\<in>set (p_rules p). \<not> rule_no_resolve r \<and> resolving (rule_matcher r)"
  shows "out_then (fst (trace_route api hash c now answer p flt stats t address network rec))
      (\<lambda>tr. Done (t_index tr, d_group (t_decision tr), d_node (t_decision tr))) =
    (case find (\<lambda>i. Rule_matches api hash (tg_host t) answer (tg_port t) network (p_rules p ! i))
            [0..<length (p_rules p)] of
       Some i \<Rightarrow> out_then (leaf c p (rule_target (p_rules p ! i)))
         (\<lambda>node. Done (Some i, rule_target (p_rules p ! i), node))
     | None \<Rightarrow> Done (None, ''DIRECT'', ''DIRECT''))"
proof -
  have "Rule_matches api hash (tg_host t) answer (tg_port t) network r \<longleftrightarrow>
      Rule_matches api hash (route_host t) answer (tg_port t) network r" for r
    using route_host_form [of t] by (simp add: Rule_matches_def host_form_def route_host_def)
  moreover have "rules_loop api hash (leaf c p) (p_raw_rules p) (route_host t) (tg_port t) network answer
      None False False 0 (p_rules p) =
    (case find (\<lambda>i. Rule_matches api hash (route_host t) answer (tg_port t) network (p_rules p ! i))
            [0..<length (p_rules p)] of
       Some i \<Rightarrow> hit (leaf c p) (p_raw_rules p) (seen api hash (route_host t) (tg_port t) network None answer (p_rules p) (Suc i))
         (asked api hash (route_host t) (tg_port t) network None (p_rules p) (Suc i)) i (p_rules p ! i)
     | None \<Rightarrow> Done ((Trace_new ''DIRECT'' ''DIRECT'' ''Fallback''
         (seen api hash (route_host t) (tg_port t) network None answer (p_rules p) (length (p_rules p))))
           \<lparr>t_looked_up := asked api hash (route_host t) (tg_port t) network None (p_rules p) (length (p_rules p))\<rparr>))"
    by (simp only: first_match_eager [OF route_host_form assms(4), symmetric]
        rules_loop_first_match [OF route_host_form, where ip = None, simplified])
  moreover have "out_then (hit leaf_of raws ip l i r)
      (\<lambda>tr. Done (t_index tr, d_group (t_decision tr), d_node (t_decision tr))) =
    out_then (leaf_of (rule_target r)) (\<lambda>node. Done (Some i, rule_target r, node))" for leaf_of raws ip l i r
    by (cases "leaf_of (rule_target r)") (simp_all add: hit_def Trace_new_def)
  ultimately show ?thesis
    using assms(1-3)
    by (cases flt) (auto simp: trace_route_def Trace_new_def split: option.splits)
qed

subsection \<open>An example\<close>

text \<open>Two rules, of which the second needs the address of the name.\<close>

definition sample_target :: route_target where
  "sample_target = \<lparr>tg_host = ''x.y.'', tg_port = 443\<rparr>"

definition sample_policy :: "string policy" where
  "sample_policy =
     \<lparr>p_mode = Rule,
      p_rules =
        [\<lparr>rule_matcher = M_Suffix ''a'', rule_target = ''REJECT'', rule_no_resolve = False\<rparr>,
         \<lparr>rule_matcher = M_Net (NetV4 0x0A000001 32), rule_target = ''G'', rule_no_resolve = False\<rparr>],
      p_raw_rules = [''DOMAIN-SUFFIX,a,REJECT'', ''IP-CIDR,10.0.0.1/32,G''],
      p_selection = [''G'' \<mapsto> ''N'']\<rparr>"

definition sample_config :: route_config where
  "sample_config =
     \<lparr>rc_mode = Rule, rc_proxies = [\<lparr>px_name = ''N'', px_dialer = None\<rparr>],
      rc_groups = [\<lparr>g_name = ''G'', g_kind = Select, g_proxies = [''N'', ''DIRECT''], g_url = [],
        g_interval = 300, g_tolerance = 50\<rparr>],
      rc_rules = [''DOMAIN-SUFFIX,a,REJECT'', ''IP-CIDR,10.0.0.1/32,G''],
      rc_providers = [], rc_networks = [], rc_overrides = []\<rparr>"

definition sample_stats :: stats where
  "sample_stats =
     \<lparr>st_since = 0, st_dns = 0, st_connections = 0, st_domains = [], st_recent = [], st_window = (0, [])\<rparr>"

lemma sample_known: "known_ip sample_target None = None"
  by (simp add: known_ip_def target_ip_def sample_target_def parse_ip_name to_digit_def)

lemma sample_host: "route_host sample_target = ''x.y''"
  by (simp add: route_host_def sample_target_def to_ascii_lowercase_def trim_end_matches_def ascii_lower_def)

lemma sample_match:
  "first_match toy_regex length_hash ''x.y'' 443 ''tcp'' None (Some (IpV4 0x0A000001))
     (p_rules sample_policy) = Some 1"
  by (simp add: first_match_def sample_policy_def Rule_matches_def seen_def asked_def asks_def
      on_ip_def strip_suffix_def strip_prefix_def prefix_low_def prefix_high_def
      to_ascii_lowercase_def trim_end_matches_def ascii_lower_def)

lemma sample_asked:
  "asked toy_regex length_hash ''x.y'' 443 ''tcp'' None (p_rules sample_policy) (Suc (Suc 0))"
  by (simp add: sample_policy_def asked_def asks_def on_ip_def strip_suffix_def strip_prefix_def)

lemma sample_leaf: "leaf sample_config sample_policy ''G'' = Done ''N''"
  by (simp add: leaf_def chain_def chain_start_def sample_config_def sample_policy_def)

theorem route_first_match_witness:
  "trace_route toy_regex length_hash sample_config 0 (Some (IpV4 0x0A000001)) sample_policy None
     sample_stats sample_target None ''tcp'' True =
   (Done \<lparr>t_decision = \<lparr>d_node = ''N'', d_group = ''G'', d_rule = describe_rule ''IP-CIDR,10.0.0.1/32,G'' ''G''\<rparr>,
      t_ip = Some (IpV4 0x0A000001), t_index = Some 1, t_looked_up = True\<rparr>, sample_stats)"
proof -
  have "p_mode sample_policy = Rule" "tg_port sample_target = 443"
    "rule_target (p_rules sample_policy ! 1) = ''G''" "length (p_raw_rules sample_policy) = 2"
    "p_raw_rules sample_policy ! 1 = ''IP-CIDR,10.0.0.1/32,G''"
    by (simp_all add: sample_policy_def sample_target_def)
  with route_first_match [where p = sample_policy and flt = None and t = sample_target and
      address = None and network = "''tcp''" and answer = "Some (IpV4 0x0A000001)" and
      api = toy_regex and hash = length_hash]
  show ?thesis
    by (simp add: sample_known sample_host sample_match sample_asked sample_leaf seen_def hit_def
        Trace_new_def Let_def)
qed

theorem late_lookup_keeps_route_witness:
  "out_then (fst (trace_route toy_regex length_hash sample_config 0 (Some (IpV4 0x0A000001)) sample_policy
      None sample_stats sample_target None ''tcp'' True))
      (\<lambda>tr. Done (t_index tr, d_group (t_decision tr), d_node (t_decision tr))) =
    Done (Some 1, ''G'', ''N'')"
proof -
  have rules: "p_mode sample_policy = Rule" "tg_port sample_target = 443"
    "\<forall>r\<in>set (p_rules sample_policy). \<not> rule_no_resolve r \<and> resolving (rule_matcher r)"
    "rule_target (p_rules sample_policy ! 1) = ''G''"
    by (simp_all add: sample_policy_def sample_target_def)
  have "find (\<lambda>i. Rule_matches toy_regex length_hash (tg_host sample_target) (Some (IpV4 0x0A000001)) 443
      ''tcp'' (p_rules sample_policy ! i)) [0..<length (p_rules sample_policy)] = Some 1"
    by (simp add: sample_policy_def sample_target_def Rule_matches_def on_ip_def strip_suffix_def
        strip_prefix_def prefix_low_def prefix_high_def to_ascii_lowercase_def trim_end_matches_def
        ascii_lower_def)
  with late_lookup_keeps_route [OF rules(1) _ sample_known rules(3), where flt = None and
      network = "''tcp''" and answer = "Some (IpV4 0x0A000001)" and api = toy_regex and hash = length_hash]
  show ?thesis using rules by (simp add: sample_leaf)
qed

end
