(* ===== verification/Route_Core.thy ===== *)
theory Route_Core
  imports Route_Trace
begin

text \<open>
  The operations of \<^verbatim>\<open>Core\<close> (\<^verbatim>\<open>crates/core/src/lib.rs\<close>, \<^verbatim>\<open>profile.rs\<close>) that change what routing
  depends on, with \<^verbatim>\<open>Resources::bind\<close> and \<^verbatim>\<open>rules\<close>, on the state they share; every operation holds
  the locks it needs, so operations do not overlap. Results of code that is not modelled are
  arguments: the downloaded resources, \<^verbatim>\<open>Resolver::configure\<close> after it stored the filter, and the
  writing of the profile. The flag of a named network is stored with each rule, since all its
  readers are rules.
\<close>

record 'r routing_env =
  rx_api :: "'r regex_api"
  rx_hash :: domain_hash
  rx_net :: net_parser
  rx_others :: "route_config \<Rightarrow> unit outcome"

type_synonym 'r matcher_table = "string \<times> string \<rightharpoonup> 'r matcher"

record 'r core_state =
  cs_policy :: "'r policy"
  cs_network :: "network_info \<times> nat option"
  cs_matchers :: "'r matcher_table"
  cs_filter :: "'r ad_filter option"
  cs_allow :: "string list"
  cs_stats :: stats

subsection \<open>Rules\<close>

definition resolve_reference :: "'r matcher_table \<Rightarrow> 'r matcher \<Rightarrow> 'r matcher outcome" where
  "resolve_reference table m =
     (case m of
        M_GeoIp v \<Rightarrow> opt_context ''referenced routing data is not loaded'' (table (''geoip'', v))
      | M_GeoSite v \<Rightarrow> opt_context ''referenced routing data is not loaded'' (table (''geosite'', v))
      | M_RuleSet v \<Rightarrow> opt_context ''referenced routing data is not loaded'' (table (''rule-set'', v))
      | _ \<Rightarrow> Panicked ''unreachable'')"

definition Resources_bind :: "'r matcher_table \<Rightarrow> 'r matcher \<Rightarrow> 'r matcher outcome" where
  "Resources_bind table = bind (resolve_reference table)"

fun Resources_rules :: "'r routing_env \<Rightarrow> 'r matcher_table \<Rightarrow> string list \<Rightarrow> 'r rule list outcome" where
  "Resources_rules x table [] = Done []"
| "Resources_rules x table (raw # rest) =
     out_then (Rule_parse (rx_api x) (rx_net x) raw) (\<lambda>r.
     out_then (Resources_bind table (rule_matcher r)) (\<lambda>m.
     out_then (Resources_rules x table rest) (\<lambda>rs. Done (r\<lparr>rule_matcher := m\<rparr> # rs))))"

fun parse_rules :: "'r routing_env \<Rightarrow> string list \<Rightarrow> 'r rule list outcome" where
  "parse_rules x [] = Done []"
| "parse_rules x (raw # rest) =
     out_then (Rule_parse (rx_api x) (rx_net x) raw) (\<lambda>r.
     out_then (parse_rules x rest) (\<lambda>rs. Done (r # rs)))"

definition on_network :: "'r routing_env \<Rightarrow> route_config \<Rightarrow> network_info \<Rightarrow> string \<Rightarrow> bool" where
  "on_network x c info name \<longleftrightarrow> name \<in> set (matching (rx_net x) (rc_networks c) info)"

definition mark_networks ::
    "'r routing_env \<Rightarrow> route_config \<Rightarrow> network_info \<Rightarrow> 'r rule list \<Rightarrow> 'r rule list" where
  "mark_networks x c info =
     map (\<lambda>r. r\<lparr>rule_matcher := set_networks (on_network x c info) (rule_matcher r)\<rparr>)"

subsection \<open>Operations\<close>

fun initial_selection :: "group list \<Rightarrow> (string \<rightharpoonup> string) \<Rightarrow> (string \<rightharpoonup> string) outcome" where
  "initial_selection [] sel = Done sel"
| "initial_selection (g # gs) sel =
     (case g_proxies g of
        [] \<Rightarrow> Panicked ''index out of bounds''
      | n # _ \<Rightarrow> initial_selection gs (sel(g_name g \<mapsto> n)))"

definition validate_config :: "'r routing_env \<Rightarrow> route_config \<Rightarrow> unit outcome" where
  "validate_config x c = validate (rx_others x) (rx_api x) (rx_net x) c"

definition Core_new :: "'r routing_env \<Rightarrow> route_config \<Rightarrow> string list \<Rightarrow> uint64 \<Rightarrow> 'r core_state outcome" where
  "Core_new x c allow now =
     out_then (validate_config x c) (\<lambda>_.
     out_then (initial_selection (rc_groups c) Map.empty) (\<lambda>sel.
     out_then (parse_rules x (rc_rules c)) (\<lambda>rules.
     Done \<lparr>cs_policy = \<lparr>p_mode = rc_mode c, p_rules = rules, p_raw_rules = rc_rules c, p_selection = sel\<rparr>,
       cs_network = (NetworkInfo_default, None), cs_matchers = Map.empty, cs_filter = None,
       cs_allow = allow,
       cs_stats = \<lparr>st_since = now, st_dns = 0, st_connections = 0, st_domains = [], st_recent = [],
         st_window = (0, [])\<rparr>\<rparr>)))"

definition set_policy :: "('r policy \<Rightarrow> 'r policy) \<Rightarrow> ('r core_state, unit) io" where
  "set_policy f = modify (\<lambda>s. s\<lparr>cs_policy := f (cs_policy s)\<rparr>)"

definition select :: "route_config \<Rightarrow> unit outcome \<Rightarrow> string \<Rightarrow> string \<Rightarrow> ('r core_state, unit) io" where
  "select c saved grp name =
     andthen (attempt (opt_context ''group not found'' (find (\<lambda>g. g_name g = grp) (rc_groups c)))) (\<lambda>g.
     ensure (name \<in> set (g_proxies g)) ''node not in group'' (
     andthen (set_policy (\<lambda>p. p\<lparr>p_selection := (p_selection p)(grp \<mapsto> name)\<rparr>)) (\<lambda>_.
     attempt saved)))"

definition set_mode :: "mode \<Rightarrow> ('r core_state, unit) io" where
  "set_mode m = set_policy (\<lambda>p. p\<lparr>p_mode := m\<rparr>)"

definition update_policy ::
    "'r routing_env \<Rightarrow> route_config \<Rightarrow> mode option \<Rightarrow> string list option \<Rightarrow> ('r core_state, unit) io" where
  "update_policy x c m rules =
     andthen (gets id) (\<lambda>s.
     let cfg = c\<lparr>rc_rules := (case rules of Some r \<Rightarrow> r | None \<Rightarrow> p_raw_rules (cs_policy s))\<rparr>;
         cfg = (case m of Some m \<Rightarrow> cfg\<lparr>rc_mode := m\<rparr> | None \<Rightarrow> cfg)
     in
     andthen (attempt (validate_config x cfg)) (\<lambda>_.
     andthen (attempt (Resources_rules x (cs_matchers s) (rc_rules cfg))) (\<lambda>compiled.
     andthen (if rules = None then ret ()
        else set_policy (\<lambda>p. p\<lparr>p_rules := mark_networks x c (fst (cs_network s)) compiled,
          p_raw_rules := rc_rules cfg\<rparr>)) (\<lambda>_.
     case m of Some m \<Rightarrow> set_mode m | None \<Rightarrow> ret ()))))"

definition replace_rules :: "'r routing_env \<Rightarrow> route_config \<Rightarrow> string list \<Rightarrow> ('r core_state, unit) io" where
  "replace_rules x c rules = update_policy x c None (Some rules)"

text \<open>\<open>configured\<close> is what \<^verbatim>\<open>Resolver::configure\<close> returns.\<close>

definition set_network ::
    "'r routing_env \<Rightarrow> route_config \<Rightarrow> unit outcome \<Rightarrow> network_info \<Rightarrow> ('r core_state, unit) io" where
  "set_network x c configured info =
     (let active = active_override (rx_net x) (rc_networks c) (rc_overrides c) info
      in
      andthen (gets (\<lambda>s. snd (cs_network s))) (\<lambda>previous.
      andthen (modify (\<lambda>s. s\<lparr>cs_network := (info, active)\<rparr>)) (\<lambda>_.
      if rc_networks c = [] then ret ()
      else
        andthen (set_policy (\<lambda>p. p\<lparr>p_rules := mark_networks x c info (p_rules p)\<rparr>)) (\<lambda>_.
        if previous \<noteq> active then attempt configured else ret ()))))"

definition prepare_resources ::
    "'r routing_env \<Rightarrow> route_config \<Rightarrow> ('r matcher_table \<times> 'r ad_filter option) outcome \<Rightarrow> unit outcome \<Rightarrow>
     ('r core_state, unit) io" where
  "prepare_resources x c loaded configured =
     andthen (attempt loaded) (\<lambda>(table, flt).
     andthen (gets id) (\<lambda>s.
     andthen (attempt (Resources_rules x table (p_raw_rules (cs_policy s)))) (\<lambda>compiled.
     andthen (modify (\<lambda>s. s\<lparr>cs_filter := flt\<rparr>)) (\<lambda>_.
     andthen (attempt configured) (\<lambda>_.
     andthen (modify (\<lambda>s. s\<lparr>cs_filter := map_option (set_allow (rx_api x) (rx_hash x) (cs_allow s)) (cs_filter s)\<rparr>)) (\<lambda>_.
     andthen (set_policy (\<lambda>p. p\<lparr>p_rules := mark_networks x c (fst (cs_network s)) compiled\<rparr>)) (\<lambda>_.
     modify (\<lambda>s. s\<lparr>cs_matchers := table\<rparr>))))))))"

definition set_adblock_allow :: "'r routing_env \<Rightarrow> string list \<Rightarrow> ('r core_state, unit) io" where
  "set_adblock_allow x allow =
     andthen (attempt (Adblock_validate (rx_api x) (rx_hash x) (Adblock_default\<lparr>ab_allow := allow\<rparr>))) (\<lambda>_.
     modify (\<lambda>s. s\<lparr>cs_allow := allow,
       cs_filter := map_option (set_allow (rx_api x) (rx_hash x) allow) (cs_filter s)\<rparr>))"

text \<open>\<^verbatim>\<open>min_by_key\<close> keeps the first of equal keys.\<close>

fun min_delay :: "(string \<times> uint64) option \<Rightarrow> (string \<times> uint64 option) list \<Rightarrow> (string \<times> uint64) option" where
  "min_delay best [] = best"
| "min_delay best ((name, None) # rest) = min_delay best rest"
| "min_delay best ((name, Some d) # rest) =
     min_delay (case best of Some (n, b) \<Rightarrow> if d < b then Some (name, d) else best | None \<Rightarrow> Some (name, d)) rest"

definition url_test_choice ::
    "string option \<Rightarrow> (string \<times> uint64 option) list \<Rightarrow> uint64 \<Rightarrow> string option" where
  "url_test_choice current results tolerance =
     Option.bind (min_delay None results) (\<lambda>(best, best_delay).
     let current_delay = Option.bind current (\<lambda>name.
           Option.bind (find (\<lambda>(member, _). member = name) results) snd)
     in case current_delay of
          Some delay \<Rightarrow>
            if delay \<le> saturating_add best_delay tolerance then current else Some best
        | None \<Rightarrow> Some best)"

definition url_test_round :: "group \<Rightarrow> (nat \<Rightarrow> uint64 option) \<Rightarrow> ('r core_state, unit) io" where
  "url_test_round g probed =
     (let results = map (\<lambda>(i, target). (target, probed i)) (List.enumerate 0 (g_proxies g))
      in set_policy (\<lambda>p.
           case url_test_choice (p_selection p (g_name g)) results (g_tolerance g) of
             Some next \<Rightarrow> p\<lparr>p_selection := (p_selection p)(g_name g \<mapsto> next)\<rparr>
           | None \<Rightarrow> p))"

text \<open>The part of \<^verbatim>\<open>load_profile\<close> that restores selections.\<close>

definition restore_selection :: "route_config \<Rightarrow> (string \<times> string) list \<Rightarrow> ('r core_state, unit) io" where
  "restore_selection c saved =
     set_policy (\<lambda>p. p\<lparr>p_selection :=
       foldl (\<lambda>sel (grp, node).
           if list_ex (\<lambda>g. g_name g = grp \<and> node \<in> set (g_proxies g)) (rc_groups c)
           then sel(grp \<mapsto> node) else sel) (p_selection p) saved\<rparr>)"

definition route ::
    "'r routing_env \<Rightarrow> route_config \<Rightarrow> uint64 \<Rightarrow> ip_addr option \<Rightarrow> route_target \<Rightarrow> ip_addr option \<Rightarrow>
     string \<Rightarrow> bool \<Rightarrow> ('r core_state, trace) io" where
  "route x c now answer t address network rec s =
     (case trace_route (rx_api x) (rx_hash x) c now answer (cs_policy s) (cs_filter s) (cs_stats s) t
             address network rec of
        (r, st) \<Rightarrow> (r, s\<lparr>cs_stats := st\<rparr>))"

text \<open>\<^verbatim>\<open>resource_proxy\<close>: the target of the last \<^verbatim>\<open>MATCH\<close> rule, else a group, else a proxy.\<close>

definition match_target :: "string \<Rightarrow> string option" where
  "match_target rule =
     (case map trim (str_split CHR '','' rule) of
        kind # rest \<Rightarrow>
          if str_eq_ignore_case kind ''MATCH''
          then (case rest of [] \<Rightarrow> None | n # _ \<Rightarrow> Some n) else None
      | [] \<Rightarrow> None)"

fun find_map :: "('a \<Rightarrow> 'b option) \<Rightarrow> 'a list \<Rightarrow> 'b option" where
  "find_map f [] = None"
| "find_map f (y # ys) = (case f y of Some z \<Rightarrow> Some z | None \<Rightarrow> find_map f ys)"

definition resource_proxy :: "route_config \<Rightarrow> 'r policy \<Rightarrow> string option" where
  "resource_proxy c p =
     (let from_match = find_map match_target (rev (p_raw_rules p));
          candidate =
            (case from_match of
               Some n \<Rightarrow> if n \<noteq> ''DIRECT'' \<and> n \<noteq> ''REJECT'' then Some n else None
             | None \<Rightarrow> None);
          candidate =
            (case candidate of Some n \<Rightarrow> Some n
             | None \<Rightarrow>
                 (case rc_groups c of g # _ \<Rightarrow> Some (g_name g)
                  | [] \<Rightarrow> (case rc_proxies c of px # _ \<Rightarrow> Some (px_name px) | [] \<Rightarrow> None)))
      in Option.bind candidate (\<lambda>n.
           case leaf c p n of
             Done l \<Rightarrow> if l \<noteq> ''DIRECT'' \<and> l \<noteq> ''REJECT'' then Some n else None
           | _ \<Rightarrow> None))"

subsection \<open>Runs\<close>

text \<open>All operations with all arguments; the state after an operation that failed included.\<close>

inductive core_step :: "'r routing_env \<Rightarrow> route_config \<Rightarrow> 'r core_state \<Rightarrow> 'r core_state \<Rightarrow> bool"
  for x :: "'r routing_env" and c :: route_config where
  step_select: "core_step x c s (snd (select c saved grp name s))"
| step_mode: "core_step x c s (snd (set_mode m s))"
| step_update: "core_step x c s (snd (update_policy x c m rules s))"
| step_network: "core_step x c s (snd (set_network x c configured info s))"
| step_resources: "core_step x c s (snd (prepare_resources x c loaded configured s))"
| step_allow: "core_step x c s (snd (set_adblock_allow x allow s))"
| step_url_test: "g \<in> set (rc_groups c) \<Longrightarrow> core_step x c s (snd (url_test_round g probed s))"
| step_restore: "core_step x c s (snd (restore_selection c stored s))"
| step_route: "core_step x c s (snd (route x c now answer t address network rec s))"

inductive core_reachable :: "'r routing_env \<Rightarrow> route_config \<Rightarrow> 'r core_state \<Rightarrow> bool"
  for x :: "'r routing_env" and c :: route_config where
  reach_new: "Core_new x c allow now = Done s \<Longrightarrow> core_reachable x c s"
| reach_step: "core_reachable x c s \<Longrightarrow> core_step x c s s' \<Longrightarrow> core_reachable x c s'"

subsection \<open>What every run keeps\<close>

definition selection_ok :: "route_config \<Rightarrow> (string \<rightharpoonup> string) \<Rightarrow> bool" where
  "selection_ok c sel \<longleftrightarrow> dom sel = group_names c \<and> (\<forall>a b. sel a = Some b \<longrightarrow> member_of c a b)"

definition target_ok :: "route_config \<Rightarrow> string \<Rightarrow> bool" where
  "target_ok c n \<longleftrightarrow> n \<in> {''GLOBAL''} \<union> node_names c \<union> group_names c"

definition rules_ok :: "route_config \<Rightarrow> 'r policy \<Rightarrow> bool" where
  "rules_ok c p \<longleftrightarrow> length (p_rules p) = length (p_raw_rules p) \<and>
     (\<forall>r\<in>set (p_rules p). target_ok c (rule_target r))"

definition in_sync :: "'r routing_env \<Rightarrow> route_config \<Rightarrow> 'r core_state \<Rightarrow> bool" where
  "in_sync x c s \<longleftrightarrow>
     (\<forall>r\<in>set (p_rules (cs_policy s)).
        set_networks (on_network x c (fst (cs_network s))) (rule_matcher r) = rule_matcher r)"

definition raws_ok :: "'r routing_env \<Rightarrow> route_config \<Rightarrow> 'r policy \<Rightarrow> bool" where
  "raws_ok x c p \<longleftrightarrow> (\<forall>raw\<in>set (p_raw_rules p). \<exists>r. Rule_parse (rx_api x) (rx_net x) raw = Done r \<and>
     target_ok c (rule_target r))"

definition core_ok :: "'r routing_env \<Rightarrow> route_config \<Rightarrow> 'r core_state \<Rightarrow> bool" where
  "core_ok x c s \<longleftrightarrow>
     selection_ok c (p_selection (cs_policy s)) \<and> rules_ok c (cs_policy s) \<and>
     raws_ok x c (cs_policy s) \<and> in_sync x c s"

lemma core_okI:
  assumes "selection_ok c (p_selection (cs_policy s))" "rules_ok c (cs_policy s)"
    "raws_ok x c (cs_policy s)" "in_sync x c s"
  shows "core_ok x c s"
  using assms by (simp add: core_ok_def)

subsubsection \<open>Flags of networks\<close>

lemma set_networks_twice [simp]: "set_networks f (set_networks g m) = set_networks f m"
  by (induction m) auto

lemma mark_networks_sync:
  "r \<in> set (mark_networks x c info rules) \<Longrightarrow>
    set_networks (on_network x c info) (rule_matcher r) = rule_matcher r"
  by (auto simp: mark_networks_def)

lemma mark_networks_targets:
  "map rule_target (mark_networks x c info rules) = map rule_target rules"
  by (simp add: mark_networks_def)

text \<open>Parsed conditions start with their flags off.\<close>

lemma out_thenE:
  assumes "out_then r f = Done y"
  obtains z where "r = Done z" "f z = Done y"
  using assms by auto

lemma out_ensureE:
  assumes "out_ensure c e r = Done y"
  obtains "c" "r = Done y"
  using assms by simp

lemma if_DoneE:
  assumes "(if c then a else b) = Done y"
  obtains "a = Done y" | "b = Done y"
  using assms by (cases c) simp_all

lemma parse_leaf_off:
  "parse_leaf api net_parse kind arg v = Done m \<Longrightarrow> set_networks (\<lambda>_. False) m = m"
  unfolding parse_leaf_def
  by (elim if_DoneE out_thenE out_ensureE) auto

lemma parse_parts_Done:
  "parse_parts api net_parse parts d = Done ms \<Longrightarrow> m \<in> set ms \<Longrightarrow> \<exists>q. parse_depth api net_parse q d = Done m"
  by (induction parts arbitrary: ms) auto

lemma logical_node_cases:
  "logical_node kind ms = Done m \<Longrightarrow> m = M_And ms \<or> m = M_Or ms \<or> (\<exists>n. ms = [n] \<and> m = M_Not n)"
  by (auto simp: logical_node_def length_Suc_conv split: if_splits)

lemma parse_depth_Done:
  assumes "parse_depth api net_parse raw d = Done m"
  obtains m' kind arg val where "d < 32" "m = m' \<or> m = M_NoResolve m'"
    "parse_leaf api net_parse kind arg val = Done m'"
  | m' kind parts ms where "d < 32" "m = m' \<or> m = M_NoResolve m'"
    "parse_parts api net_parse parts (d + 1) = Done ms" "logical_node kind ms = Done m'"
proof -
  obtain m' g where d: "d < 32" and m: "m = m' \<or> m = M_NoResolve m'" and
    body: "(if is_logical (g ! 0) then
          out_then (logical_parts g) (\<lambda>parts.
          out_ensure (parts \<noteq> []) ''empty logical rule'' (
          out_then (parse_parts api net_parse parts (d + 1)) (logical_node (g ! 0))))
        else parse_leaf api net_parse (g ! 0) (g ! 1) (to_ascii_lowercase (g ! 1))) = Done m'"
    using assms
    unfolding parse_depth.simps [of api net_parse raw d] Let_def
    apply (elim out_ensureE out_thenE)
    apply (rule that)
      prefer 3
      apply assumption
     apply assumption
    apply (auto split: if_splits)
    done
  show thesis
  proof (cases "is_logical (g ! 0)")
    case True
    with body obtain parts ms where "parse_parts api net_parse parts (d + 1) = Done ms"
      "logical_node (g ! 0) ms = Done m'" by auto
    with d m show thesis using that(2) by blast
  next
    case False
    with body d m show thesis using that(1) by simp
  qed
qed

lemma parse_off: "parse_depth api net_parse raw d = Done m \<Longrightarrow> set_networks (\<lambda>_. False) m = m"
proof (induction "32 - d" arbitrary: raw d m rule: less_induct)
  case less
  from less.prems show ?case
  proof (cases rule: parse_depth_Done)
    case (1 m' kind arg v)
    then show ?thesis by (auto dest: parse_leaf_off)
  next
    case (2 m' kind parts ms)
    have "set_networks (\<lambda>_. False) n = n" if "n \<in> set ms" for n
      using parse_parts_Done [OF 2(3) that] less.hyps [of "d + 1"] 2(1) by auto
    then have "map (set_networks (\<lambda>_. False)) ms = ms" by (simp add: map_idI)
    with 2(2) logical_node_cases [OF 2(4)] show ?thesis by auto
  qed
qed

lemma Rule_parse_off:
  "Rule_parse api net_parse raw = Done r \<Longrightarrow> set_networks (\<lambda>_. False) (rule_matcher r) = rule_matcher r"
  unfolding Rule_parse_def Let_def parse_condition_def
  by (elim out_ensureE out_thenE) (auto dest: parse_off split: if_splits)

lemma parse_rules_Done:
  "parse_rules x raws = Done rs \<Longrightarrow>
    list_all2 (\<lambda>raw r. Rule_parse (rx_api x) (rx_net x) raw = Done r) raws rs"
  by (induction raws arbitrary: rs) auto

lemma Resources_rules_Done:
  "Resources_rules x table raws = Done rs \<Longrightarrow>
    list_all2 (\<lambda>raw r. \<exists>q. Rule_parse (rx_api x) (rx_net x) raw = Done q \<and> rule_target q = rule_target r) raws rs"
  by (induction raws arbitrary: rs) auto

subsubsection \<open>Each operation\<close>

lemma selection_ok_update:
  "selection_ok c sel \<Longrightarrow> member_of c g n \<Longrightarrow> selection_ok c (sel(g \<mapsto> n))"
  by (auto simp: selection_ok_def member_of_def group_names_def)

lemma core_ok_cong:
  assumes "core_ok x c s" "cs_policy s' = cs_policy s" "cs_network s' = cs_network s"
  shows "core_ok x c s'"
  using assms by (simp add: core_ok_def in_sync_def)

lemma core_ok_selection:
  assumes "core_ok x c s" "member_of c g n"
  shows "core_ok x c (s\<lparr>cs_policy := (cs_policy s)\<lparr>p_selection := (p_selection (cs_policy s))(g \<mapsto> n)\<rparr>\<rparr>)"
  using assms by (simp add: core_ok_def rules_ok_def raws_ok_def in_sync_def selection_ok_update)

lemma select_ok: "core_ok x c s \<Longrightarrow> core_ok x c (snd (select c saved grp name s))"
proof (cases "find (\<lambda>g. g_name g = grp) (rc_groups c)")
  case (Some g)
  then have "name \<in> set (g_proxies g) \<Longrightarrow> member_of c grp name"
    by (auto simp: member_of_def find_Some_iff)
  then show "core_ok x c s \<Longrightarrow> ?thesis"
    using Some
    by (auto simp: select_def ensure_def io_simps set_policy_def opt_context_def intro!: core_ok_selection)
qed (simp add: select_def io_simps opt_context_def)

lemma set_mode_ok: "core_ok x c s \<Longrightarrow> core_ok x c (snd (set_mode m s))"
  by (simp add: set_mode_def set_policy_def io_simps core_ok_def rules_ok_def raws_ok_def in_sync_def)

lemma compiled_ok:
  assumes "Resources_rules x table raws = Done rs"
    and "\<forall>raw\<in>set raws. \<exists>r. Rule_parse (rx_api x) (rx_net x) raw = Done r \<and> target_ok c (rule_target r)"
  shows "length rs = length raws \<and> (\<forall>r\<in>set rs. target_ok c (rule_target r))"
proof -
  note rs = Resources_rules_Done [OF assms(1)]
  have "target_ok c (rule_target r)" if "r \<in> set rs" for r
  proof -
    from that obtain i where i: "i < length rs" "r = rs ! i" by (auto simp: in_set_conv_nth)
    with rs obtain q where "Rule_parse (rx_api x) (rx_net x) (raws ! i) = Done q" "rule_target q = rule_target r"
      by (auto simp: list_all2_conv_all_nth)
    moreover have "raws ! i \<in> set raws" using rs i by (simp add: list_all2_lengthD)
    ultimately show ?thesis using assms(2) by fastforce
  qed
  then show ?thesis using rs by (auto dest: list_all2_lengthD)
qed

lemma marked_ok:
  assumes "length rs = length raws \<and> (\<forall>r\<in>set rs. target_ok c (rule_target r))"
  shows "length (mark_networks x c info rs) = length raws \<and>
    (\<forall>r\<in>set (mark_networks x c info rs). target_ok c (rule_target r))"
  using assms by (auto simp: mark_networks_def)

text \<open>New rules, compiled from lines that parse to known targets.\<close>

lemma core_ok_rules:
  assumes ok: "core_ok x c s" and rs: "Resources_rules x table raws = Done rs"
    and raws: "\<forall>raw\<in>set raws. \<exists>r. Rule_parse (rx_api x) (rx_net x) raw = Done r \<and> target_ok c (rule_target r)"
  shows "core_ok x c (s\<lparr>cs_policy := (cs_policy s)\<lparr>p_rules := mark_networks x c (fst (cs_network s)) rs,
    p_raw_rules := raws\<rparr>\<rparr>)"
proof (rule core_okI)
  note marked = marked_ok [OF compiled_ok [OF rs raws], of x "fst (cs_network s)"]
  show "rules_ok c (cs_policy (s\<lparr>cs_policy := (cs_policy s)\<lparr>p_rules := mark_networks x c (fst (cs_network s)) rs,
    p_raw_rules := raws\<rparr>\<rparr>))"
    using marked by (simp add: rules_ok_def)
  show "in_sync x c (s\<lparr>cs_policy := (cs_policy s)\<lparr>p_rules := mark_networks x c (fst (cs_network s)) rs,
    p_raw_rules := raws\<rparr>\<rparr>)"
    by (auto simp: in_sync_def mark_networks_sync)
qed (use ok raws in \<open>simp_all add: core_ok_def raws_ok_def\<close>)

lemma config_ok_targets:
  "config_ok api net_parse (c\<lparr>rc_rules := raws\<rparr>) \<Longrightarrow>
    \<forall>raw\<in>set raws. \<exists>r. Rule_parse api net_parse raw = Done r \<and> target_ok c (rule_target r)"
  "config_ok api net_parse (c\<lparr>rc_rules := raws, rc_mode := m\<rparr>) \<Longrightarrow>
    \<forall>raw\<in>set raws. \<exists>r. Rule_parse api net_parse raw = Done r \<and> target_ok c (rule_target r)"
  by (simp_all add: config_ok_def target_ok_def node_names_def group_names_def)

lemma update_policy_ok:
  assumes "core_ok x c s"
  shows "core_ok x c (snd (update_policy x c m rules s))"
proof -
  define raws where "raws = (case rules of Some r \<Rightarrow> r | None \<Rightarrow> p_raw_rules (cs_policy s))"
  define cfg where "cfg = (case m of Some m \<Rightarrow> c\<lparr>rc_rules := raws, rc_mode := m\<rparr> | None \<Rightarrow> c\<lparr>rc_rules := raws\<rparr>)"
  have eq: "update_policy x c m rules s =
    andthen (attempt (validate_config x cfg)) (\<lambda>_.
     andthen (attempt (Resources_rules x (cs_matchers s) raws)) (\<lambda>compiled.
     andthen (if rules = None then ret ()
        else set_policy (\<lambda>p. p\<lparr>p_rules := mark_networks x c (fst (cs_network s)) compiled,
          p_raw_rules := raws\<rparr>)) (\<lambda>_.
     case m of Some m \<Rightarrow> set_mode m | None \<Rightarrow> ret ()))) s"
    by (cases m; cases rules) (simp_all add: update_policy_def Let_def io_simps raws_def cfg_def)
  show ?thesis
  proof (cases "validate_config x cfg")
    case (Done u)
    then have "config_ok (rx_api x) (rx_net x) cfg" by (simp add: validate_config_def validate_ok)
    then have raws: "\<forall>raw\<in>set raws. \<exists>r. Rule_parse (rx_api x) (rx_net x) raw = Done r \<and> target_ok c (rule_target r)"
      by (cases m) (simp_all add: cfg_def config_ok_targets)
    show ?thesis
    proof (cases "Resources_rules x (cs_matchers s) raws")
      case compiled: (Done rs)
      show ?thesis
        unfolding eq
        using core_ok_rules [OF assms compiled raws] assms Done compiled
        by (cases m; cases rules) (simp_all add: io_simps set_policy_def set_mode_ok)
    qed (simp_all add: eq io_simps Done assms)
  qed (simp_all add: eq io_simps assms)
qed

lemma set_network_ok:
  assumes "core_ok x c s"
  shows "core_ok x c (snd (set_network x c configured info s))"
proof -
  let ?active = "active_override (rx_net x) (rc_networks c) (rc_overrides c) info"
  let ?marked = "s\<lparr>cs_network := (info, ?active),
      cs_policy := (cs_policy s)\<lparr>p_rules := mark_networks x c info (p_rules (cs_policy s))\<rparr>\<rparr>"
  have marked: "core_ok x c ?marked"
  proof (rule core_okI)
    show "rules_ok c (cs_policy ?marked)"
      using assms marked_ok [of "p_rules (cs_policy s)" "p_raw_rules (cs_policy s)" c x info]
      by (simp add: core_ok_def rules_ok_def)
    show "in_sync x c ?marked" by (auto simp: in_sync_def mark_networks_sync)
  qed (use assms in \<open>simp_all add: core_ok_def raws_ok_def\<close>)
  show ?thesis
  proof (cases "rc_networks c = []")
    case True
    then have "on_network x c i = (\<lambda>_. False)" for i by (simp add: on_network_def matching_def fun_eq_iff)
    with True assms show ?thesis
      by (simp add: set_network_def Let_def io_simps core_ok_def in_sync_def)
  next
    case False
    with marked show ?thesis
      by (simp add: set_network_def Let_def io_simps set_policy_def)
  qed
qed

lemma prepare_resources_ok:
  assumes "core_ok x c s"
  shows "core_ok x c (snd (prepare_resources x c loaded configured s))"
proof (cases loaded)
  case (Done r)
  obtain table flt where r: "r = (table, flt)" by fastforce
  show ?thesis
  proof (cases "Resources_rules x table (p_raw_rules (cs_policy s))")
    case compiled: (Done rs)
    let ?s = "s\<lparr>cs_policy := (cs_policy s)\<lparr>p_rules := mark_networks x c (fst (cs_network s)) rs\<rparr>\<rparr>"
    have "core_ok x c ?s"
      using core_ok_rules [OF assms compiled] assms by (simp add: core_ok_def raws_ok_def)
    moreover have "core_ok x c (s\<lparr>cs_filter := flt\<rparr>)" using assms by (rule core_ok_cong) simp_all
    ultimately show ?thesis
      using Done r compiled
      by (cases configured)
        (auto simp: prepare_resources_def io_simps set_policy_def elim!: core_ok_cong)
  qed (simp_all add: prepare_resources_def io_simps Done r assms)
qed (simp_all add: prepare_resources_def io_simps assms)

lemma set_adblock_allow_ok:
  "core_ok x c s \<Longrightarrow> core_ok x c (snd (set_adblock_allow x allow s))"
  by (cases "Adblock_validate (rx_api x) (rx_hash x) (Adblock_default\<lparr>ab_allow := allow\<rparr>)")
    (auto simp: set_adblock_allow_def io_simps elim!: core_ok_cong)

lemma route_ok: "core_ok x c s \<Longrightarrow> core_ok x c (snd (route x c now answer t address network rec s))"
  by (auto simp: route_def split: prod.splits elim!: core_ok_cong)

text \<open>A test round chooses among the members, or keeps the selection.\<close>

lemma min_delay_member:
  "min_delay best results = Some (n, d) \<Longrightarrow> (n, Some d) \<in> set results \<or> best = Some (n, d)"
  by (induction best results rule: min_delay.induct) (auto split: option.splits if_splits)

lemma url_test_choice_member:
  "url_test_choice current results tolerance = Some n \<Longrightarrow> current = Some n \<or> n \<in> fst ` set results"
  by (auto simp: url_test_choice_def Let_def split: option.splits if_splits Option.bind_splits
      dest!: min_delay_member intro: rev_image_eqI)

lemma url_test_round_ok:
  assumes "core_ok x c s" "g \<in> set (rc_groups c)"
  shows "core_ok x c (snd (url_test_round g probed s))"
proof -
  let ?results = "map (\<lambda>(i, target). (target, probed i)) (List.enumerate 0 (g_proxies g))"
  let ?current = "p_selection (cs_policy s) (g_name g)"
  show ?thesis
  proof (cases "url_test_choice ?current ?results (g_tolerance g)")
    case None
    then show ?thesis using assms by (simp add: url_test_round_def Let_def set_policy_def io_simps)
  next
    case (Some n)
    from url_test_choice_member [OF this] have "member_of c (g_name g) n"
    proof
      assume "?current = Some n"
      then show ?thesis using assms(1) by (simp add: core_ok_def selection_ok_def)
    next
      assume "n \<in> fst ` set ?results"
      then have "n \<in> set (g_proxies g)" by (auto simp: in_set_enumerate_eq)
      then show ?thesis using assms(2) by (auto simp: member_of_def)
    qed
    from core_ok_selection [OF assms(1) this] Some show ?thesis
      by (simp add: url_test_round_def Let_def set_policy_def io_simps)
  qed
qed

lemma restore_selection_ok:
  assumes "core_ok x c s"
  shows "core_ok x c (snd (restore_selection c stored s))"
proof -
  have "selection_ok c sel \<Longrightarrow> selection_ok c
      (foldl (\<lambda>sel (grp, node).
         if list_ex (\<lambda>g. g_name g = grp \<and> node \<in> set (g_proxies g)) (rc_groups c)
         then sel(grp \<mapsto> node) else sel) sel stored)" for sel
  proof (induction stored arbitrary: sel)
    case (Cons e stored)
    obtain grp node where e: "e = (grp, node)" by fastforce
    show ?case
      using Cons.IH [of "if list_ex (\<lambda>g. g_name g = grp \<and> node \<in> set (g_proxies g)) (rc_groups c)
          then sel(grp \<mapsto> node) else sel"] Cons.prems selection_ok_update [of c sel grp node]
      by (auto simp: e list_ex_iff member_of_def)
  qed simp
  then show ?thesis
    using assms by (simp add: restore_selection_def set_policy_def io_simps core_ok_def rules_ok_def
        raws_ok_def in_sync_def)
qed

subsubsection \<open>All runs\<close>

lemma core_step_ok: "core_step x c s s' \<Longrightarrow> core_ok x c s \<Longrightarrow> core_ok x c s'"
  by (induction rule: core_step.induct)
    (simp_all add: select_ok set_mode_ok update_policy_ok set_network_ok prepare_resources_ok
      set_adblock_allow_ok url_test_round_ok restore_selection_ok route_ok)

lemma initial_selection_Done:
  assumes "initial_selection gs sel = Done sel'"
  shows "dom sel' = dom sel \<union> g_name ` set gs \<and>
    (\<forall>a b. sel' a = Some b \<longrightarrow> sel a = Some b \<or> (\<exists>g\<in>set gs. g_name g = a \<and> b \<in> set (g_proxies g)))"
  using assms
proof (induction gs arbitrary: sel)
  case (Cons g gs)
  then obtain n ns where n: "g_proxies g = n # ns" by (auto split: list.splits)
  with Cons.prems have "initial_selection gs (sel(g_name g \<mapsto> n)) = Done sel'" by simp
  from Cons.IH [OF this] n show ?case by (auto split: if_splits)
qed simp

lemma Core_new_ok:
  assumes "Core_new x c allow now = Done s"
  shows "core_ok x c s \<and> config_ok (rx_api x) (rx_net x) c"
proof -
  from assms obtain sel rs where valid: "validate_config x c = Done ()" and
    sel: "initial_selection (rc_groups c) Map.empty = Done sel" and
    rs: "parse_rules x (rc_rules c) = Done rs" and
    s: "cs_policy s = \<lparr>p_mode = rc_mode c, p_rules = rs, p_raw_rules = rc_rules c, p_selection = sel\<rparr>"
      "cs_network s = (NetworkInfo_default, None)"
    by (auto simp: Core_new_def)
  from valid have ok: "config_ok (rx_api x) (rx_net x) c" by (simp add: validate_config_def validate_ok)
  note rs = parse_rules_Done [OF rs]
  have rule: "\<exists>raw\<in>set (rc_rules c). Rule_parse (rx_api x) (rx_net x) raw = Done r" if "r \<in> set rs" for r
  proof -
    from that obtain i where "i < length rs" "r = rs ! i" by (auto simp: in_set_conv_nth)
    with rs have "Rule_parse (rx_api x) (rx_net x) (rc_rules c ! i) = Done r" "rc_rules c ! i \<in> set (rc_rules c)"
      by (simp_all add: list_all2_conv_all_nth)
    then show ?thesis by blast
  qed
  have off: "on_network x c NetworkInfo_default = (\<lambda>_. False)" by (simp add: on_network_def fun_eq_iff)
  have raws: "raws_ok x c (cs_policy s)" using ok by (simp add: raws_ok_def s config_ok_def target_ok_def)
  have "core_ok x c s"
  proof (rule core_okI)
    show "selection_ok c (p_selection (cs_policy s))"
      using initial_selection_Done [OF sel] by (auto simp: s selection_ok_def group_names_def member_of_def)
    show "rules_ok c (cs_policy s)"
      using rs rule raws by (fastforce simp: s rules_ok_def raws_ok_def dest: list_all2_lengthD)
    show "in_sync x c s"
      using rule by (auto simp: in_sync_def s off dest: Rule_parse_off)
  qed (rule raws)
  with ok show ?thesis by blast
qed

lemma reachable_ok:
  "core_reachable x c s \<Longrightarrow> core_ok x c s \<and> config_ok (rx_api x) (rx_net x) c"
  by (induction rule: core_reachable.induct) (auto dest: Core_new_ok core_step_ok)

subsection \<open>Chains of groups end\<close>

lemma chain_loop_walk:
  assumes "selection_ok c sel" "names \<noteq> []" "successively (member_of c) names"
    "set (butlast names) \<subseteq> group_names c"
  shows "(\<exists>ns. chain_loop sel n names = Done ns \<and> successively (member_of c) ns \<and> hd ns = hd names \<and>
      ns \<noteq> [] \<and> last ns \<notin> group_names c) \<or>
    (\<exists>ns. successively (member_of c) ns \<and> hd ns = hd names \<and> ns \<noteq> [] \<and>
      n + length names \<le> Suc (length (filter (\<lambda>a. a \<in> group_names c) ns)))"
  using assms
proof (induction n arbitrary: names)
  case 0
  have "length (filter (\<lambda>a. a \<in> group_names c) (butlast names)) = length (butlast names)"
    using 0(4) by (subst filter_True) auto
  moreover have "filter P names = filter P (butlast names) @ filter P [last names]" for P
    using 0(2) by (metis append_butlast_last_id filter_append)
  ultimately have "length names \<le> Suc (length (filter (\<lambda>a. a \<in> group_names c) names))"
    using 0(2) by (cases names rule: rev_cases) simp_all
  with 0 show ?case by auto
next
  case (Suc n)
  show ?case
  proof (cases "sel (last names)")
    case None
    then have "last names \<notin> group_names c" using Suc.prems(1) by (auto simp: selection_ok_def)
    with None Suc.prems show ?thesis by auto
  next
    case (Some a)
    then have m: "member_of c (last names) a" "last names \<in> group_names c"
      using Suc.prems(1) by (auto simp: selection_ok_def)
    have "set names \<subseteq> group_names c"
      using Suc.prems(2,4) m(2) by (cases names rule: rev_cases) auto
    moreover have "successively (member_of c) (names @ [a])"
      using Suc.prems(2,3) m(1) by (simp add: successively_append_iff)
    ultimately show ?thesis
      using Suc.IH [of "names @ [a]"] Suc.prems(1,2) Some by (auto simp: hd_append)
  qed
qed

lemma leaf_total:
  assumes ok: "config_ok (rx_api x) (rx_net x) c" and sel: "selection_ok c (p_selection p)"
    and target: "target_ok c name"
  shows "\<exists>node\<in>node_names c. leaf c p name = Done node"
proof -
  let ?start = "chain_start c name" and ?G = "group_names c"
  have start: "?start \<in> node_names c \<union> ?G"
    using target by (auto simp: chain_start_def target_ok_def node_names_def group_names_def split: list.splits)
  show ?thesis
  proof (cases "?start \<in> ?G")
    case False
    then have "p_selection p ?start = None" using sel by (auto simp: selection_ok_def)
    then show ?thesis using start False by (auto simp: leaf_def chain_def)
  next
    case True
    have bound: "length (filter (\<lambda>a. a \<in> ?G) ns) \<le> length (rc_groups c) \<and> set ns \<subseteq> node_names c \<union> ?G"
      if walk: "successively (member_of c) ns" "hd ns = ?start" "ns \<noteq> []" for ns
    proof -
      obtain ms where ns: "ns = ?start # ms" using walk by (cases ns) auto
      with ok walk True have "set ns \<subseteq> node_names c \<union> ?G" and d: "distinct (filter (\<lambda>a. a \<in> ?G) ns)"
        unfolding config_ok_def by blast+
      have "length (filter (\<lambda>a. a \<in> ?G) ns) = card (set (filter (\<lambda>a. a \<in> ?G) ns))"
        using d by (rule distinct_card [symmetric])
      also have "\<dots> \<le> card ?G" by (rule card_mono) (auto simp: group_names_def)
      also have "\<dots> \<le> length (rc_groups c)"
        unfolding group_names_def by (metis card_image_le card_length finite_set le_trans)
      finally show ?thesis using \<open>set ns \<subseteq> _\<close> by blast
    qed
    from chain_loop_walk [OF sel, of "[?start]" "Suc (length (rc_groups c))"] bound
    obtain ns where "chain c p name = Done ns" "successively (member_of c) ns" "hd ns = ?start" "ns \<noteq> []"
      "last ns \<notin> ?G"
      unfolding chain_def by fastforce
    moreover have "last ns \<in> node_names c"
      using bound [OF calculation(2-4)] calculation(4,5) last_in_set by blast
    ultimately show ?thesis by (auto simp: leaf_def)
  qed
qed

subsection \<open>Routing always answers\<close>

lemma hit_total:
  assumes "\<exists>node\<in>N. leaf_of (rule_target r) = Done node"
  shows "\<exists>tr. hit leaf_of raws ip l i r = Done tr \<and> d_node (t_decision tr) \<in> N \<and>
    d_group (t_decision tr) = rule_target r \<and> leaf_of (d_group (t_decision tr)) = Done (d_node (t_decision tr))"
  using assms by (auto simp: hit_def Trace_new_def)

end
