(* ===== verification/Route_Runs.thy ===== *)
theory Route_Runs
  imports Route_Core
begin

text \<open>
  What routing promises along every run of a core: connections are always routed, and the flags of
  named networks are current; and where ad blocking misses a name. The example is a core with two
  nested groups, a named network and two rules, before and after the host reported a network.
\<close>

definition home_env :: "string routing_env" where
  "home_env = \<lparr>rx_api = toy_regex, rx_hash = length_hash, rx_net = (\<lambda>_. Fail ''invalid network''),
     rx_others = (\<lambda>_. Done ())\<rparr>"

definition home_group :: "string \<Rightarrow> string list \<Rightarrow> group" where
  "home_group name members =
     \<lparr>g_name = name, g_kind = Select, g_proxies = members, g_url = [], g_interval = 300, g_tolerance = 50\<rparr>"

definition home_config :: route_config where
  "home_config =
     \<lparr>rc_mode = Rule, rc_proxies = [\<lparr>px_name = ''N'', px_dialer = None\<rparr>],
      rc_groups = [home_group ''G'' [''H''], home_group ''H'' [''N'', ''DIRECT'']],
      rc_rules = [''NETWORK-NAME,home,G'', ''MATCH,H''], rc_providers = [],
      rc_networks = [(''home'', \<lparr>nn_kind = Some (One ''wifi''), nn_ssid = None, nn_subnet = None, nn_gateway = None\<rparr>)],
      rc_overrides = []\<rparr>"

definition home_rules :: "bool \<Rightarrow> string rule list" where
  "home_rules on =
     [\<lparr>rule_matcher = M_OnNetwork ''home'' on, rule_target = ''G'', rule_no_resolve = False\<rparr>,
      \<lparr>rule_matcher = M_All, rule_target = ''H'', rule_no_resolve = False\<rparr>]"

definition home_core :: "string core_state" where
  "home_core =
     \<lparr>cs_policy = \<lparr>p_mode = Rule, p_rules = home_rules False, p_raw_rules = rc_rules home_config,
        p_selection = [''G'' \<mapsto> ''H'', ''H'' \<mapsto> ''N'']\<rparr>,
      cs_network = (NetworkInfo_default, None), cs_matchers = Map.empty, cs_filter = None, cs_allow = [],
      cs_stats = \<lparr>st_since = 0, st_dns = 0, st_connections = 0, st_domains = [], st_recent = [],
        st_window = (0, [])\<rparr>\<rparr>"

lemma home_parse:
  "Rule_parse toy_regex net_parse ''NETWORK-NAME,home,G'' = Done (home_rules False ! 0)"
  "Rule_parse toy_regex net_parse ''MATCH,H'' = Done (home_rules False ! 1)"
  by (simp_all add: home_rules_def Rule_parse_def rule_fields_def out_ensure_def trim_id graphic_def
      parse_condition_def parse_depth.simps is_logical_def parse_leaf_def Let_def)

lemma home_valid: "validate_config home_env home_config = Done ()"
  by (simp add: validate_config_def validate_def home_env_def home_config_def home_group_def RESERVED_def
      out_ensure_def check_dialer_def visit.simps group_of_def check_rule_def Let_def err_context_def home_parse
      home_rules_def Network_validate_def KINDS_def opt_values_def)

lemma home_new: "Core_new home_env home_config [] 0 = Done home_core"
  by (simp add: Core_new_def home_valid)
    (simp add: home_config_def home_group_def home_core_def home_env_def home_parse home_rules_def)


definition wifi :: network_info where
  "wifi = \<lparr>info_kind = Some ''wifi'', info_ssid = None, info_addresses = [], info_gateways = []\<rparr>"

definition home_wifi :: "string core_state" where
  "home_wifi = snd (set_network home_env home_config (Done ()) wifi home_core)"

lemma home_wifi_reachable: "core_reachable home_env home_config home_wifi"
  unfolding home_wifi_def by (rule reach_step [OF reach_new [OF home_new] step_network])

lemma home_wifi_matching:
  "matching net_parse (rc_networks home_config) wifi = [''home'']"
  by (simp add: matching_def home_config_def Network_matches_def Network_checks_def check_fact_def wifi_def
      ex_bool_eq)

lemma home_wifi_rules: "p_rules (cs_policy home_wifi) = home_rules True"
  by (simp add: home_wifi_def set_network_def Let_def io_simps set_policy_def home_core_def mark_networks_def
      on_network_def home_wifi_matching home_rules_def)
    (simp add: home_config_def)

subsection \<open>Properties of runs\<close>

text \<open>
  C5. Along every run of a core whose configuration was accepted, whatever is selected, tested,
  restored, updated, reloaded or reported by the host in between, every connection is routed:
  routing never fails, no chain of groups is ever reported as a cycle, and the node is a
  configured proxy, \<^verbatim>\<open>DIRECT\<close> or \<^verbatim>\<open>REJECT\<close>, the one to which the chain of the decided group leads.
\<close>

theorem routing_always_answers:
  assumes "core_reachable x c s"
  shows "\<exists>tr. fst (route x c now answer t address network rec s) = Done tr \<and>
    d_node (t_decision tr) \<in> {''DIRECT'', ''REJECT''} \<union> px_name ` set (rc_proxies c) \<and>
    leaf c (cs_policy s) (d_group (t_decision tr)) = Done (d_node (t_decision tr))"
proof -
  let ?p = "cs_policy s" and ?T = "\<lambda>r. \<exists>tr. r = Done tr \<and> d_node (t_decision tr) \<in> node_names c \<and>
    leaf c (cs_policy s) (d_group (t_decision tr)) = Done (d_node (t_decision tr))"
  from reachable_ok [OF assms] have ok: "core_ok x c s" and cfg: "config_ok (rx_api x) (rx_net x) c" by auto
  note total = leaf_total [OF cfg, of ?p]
  have sel: "selection_ok c (p_selection ?p)" using ok by (simp add: core_ok_def)
  have fixed: "leaf c ?p n = Done n" if "n = ''DIRECT'' \<or> n = ''REJECT''" for n
  proof -
    have "n \<in> node_names c" using that by (auto simp: node_names_def)
    then have "n \<notin> group_names c" "n \<noteq> ''GLOBAL''" using cfg that by (auto simp: config_ok_def)
    then have "p_selection ?p n = None" using sel by (auto simp: selection_ok_def)
    with \<open>n \<noteq> ''GLOBAL''\<close> show ?thesis by (simp add: leaf_def chain_def chain_start_def)
  qed
  have nodes: "''DIRECT'' \<in> node_names c" "''REJECT'' \<in> node_names c" by (simp_all add: node_names_def)
  have "?T (rules_loop (rx_api x) (rx_hash x) (leaf c ?p) (p_raw_rules ?p) (route_host t) (tg_port t) network
      answer (known_ip t address) (known_ip t address \<noteq> None) False 0 (p_rules ?p))"
  proof (cases "first_match (rx_api x) (rx_hash x) (route_host t) (tg_port t) network (known_ip t address)
      answer (p_rules ?p)")
    case None
    then show ?thesis by (simp add: rules_loop_first_match fixed nodes Trace_new_def del: not_None_eq)
  next
    case (Some i)
    then have "i < length (p_rules ?p)" by (auto simp: first_match_def find_Some_iff)
    then have "target_ok c (rule_target (p_rules ?p ! i))" using ok by (simp add: core_ok_def rules_ok_def)
    from hit_total [where leaf_of = "leaf c ?p", OF total [OF sel this]] Some show ?thesis
      by (simp add: rules_loop_first_match del: not_None_eq) metis
  qed
  moreover have "?T (out_then (leaf c ?p ''GLOBAL'') (\<lambda>node. Done (Trace_new node ''GLOBAL'' ''Mode(Global)'' None)))"
    using total [OF sel, of "''GLOBAL''"] by (auto simp: target_ok_def Trace_new_def)
  ultimately have "?T (fst (route x c now answer t address network rec s))"
    by (cases "p_mode ?p")
      (auto simp: route_def trace_route_def Trace_new_def fixed nodes split: prod.splits option.splits)
  then show ?thesis by (simp add: node_names_def)
qed

theorem routing_always_answers_witness:
  "\<exists>tr. fst (route home_env home_config 0 None sample_target None ''tcp'' True home_wifi) = Done tr \<and>
    d_node (t_decision tr) \<in> {''DIRECT'', ''REJECT'', ''N''} \<and>
    leaf home_config (cs_policy home_wifi) (d_group (t_decision tr)) = Done (d_node (t_decision tr))"
proof -
  have "insert ''DIRECT'' (insert ''REJECT'' (px_name ` set (rc_proxies home_config))) = {''DIRECT'', ''REJECT'', ''N''}"
    by (simp add: home_config_def)
  with routing_always_answers [OF home_wifi_reachable, of 0 None sample_target None "''tcp''" True]
  show ?thesis by simp
qed



subsection \<open>Where ad blocking misses a name\<close>

definition ad_filter_of :: "'r regex_api \<Rightarrow> domain_hash \<Rightarrow> net_parser \<Rightarrow> string \<Rightarrow> 'r ad_filter" where
  "ad_filter_of api hash net_parse name =
     Filter_new api hash net_parse (builder_build api hash (builder_suffix hash name builder_default))
       (builder_build api hash builder_default) [] (Adblock_default\<lparr>ab_block_httpdns := False\<rparr>) []"

lemma no_entries_match: "\<not> DomainSet_matches api hash (builder_build api hash builder_default) host"
  by (simp add: DomainSet_matches_def builder_build_def builder_default_def ListBuilder_build_def
      DomainList_is_empty_def Globs_new_def loose_matches_def compile_regexes_def out_list_def)

lemma suffix_set_matches:
  "DomainSet_matches api hash (builder_build api hash (builder_suffix hash ''x.test'' builder_default)) host \<longleftrightarrow>
    host_loop hash (builder_build api hash (builder_suffix hash ''x.test'' builder_default)) host 0 True False host True"
  by (simp add: DomainSet_matches_def builder_build_def builder_default_def ListBuilder_build_def
      DomainList_is_empty_def Globs_new_def loose_matches_def compile_regexes_def out_list_def
      builder_suffix_def push_suffix_def)

lemma x_test_normal: "normalize ''x.test'' = ''x.test''"
  by (simp add: normalize_def trim_id graphic_def trim_matches_def trim_end_stays to_ascii_lowercase_def
      ascii_lower_def)

lemma suffix_contains:
  "DomainList_contains (ds_suffix (builder_build api hash (builder_suffix hash ''x.test'' builder_default))) h
    \<longleftrightarrow> h = hash ''x.test''"
  "\<not> DomainList_contains (ds_exact (builder_build api hash (builder_suffix hash ''x.test'' builder_default))) h"
  "\<not> DomainList_contains (ds_subdomain (builder_build api hash (builder_suffix hash ''x.test'' builder_default))) h"
  by (simp_all add: builder_build_def builder_suffix_def push_suffix_def builder_default_def x_test_normal)



end
