(* ===== verification/Fake_Map.thy ===== *)
theory Fake_Map
  imports Rust_Ip Rule_Parse "HOL-Library.AList"
begin

text \<open>
  \<^verbatim>\<open>FakeMap\<close> of \<^verbatim>\<open>crates/core/src/dns.rs\<close> and the functions of \<^verbatim>\<open>Resolver\<close> on it: names are answered
  with addresses of a reserved pool, and the least recently queried name gives up its address
  when there are too many. Hash maps are association lists with distinct keys. The counters of
  64 bits are natural numbers: they grow by one per query. The check of a name by the DNS library
  is the argument \<open>absolute_name\<close>.
\<close>

record fake_map =
  by_name :: "((string \<times> bool) \<times> (ip_addr \<times> nat)) list"
  by_ip :: "(ip_addr \<times> string) list"
  order :: "(ip_addr \<times> nat) list"
  stamp :: nat
  next4 :: nat
  next6 :: nat
  capacity :: nat
  generation :: nat

definition FAKE_CAPACITY :: nat where
  "FAKE_CAPACITY = 32768"

definition FakeMap_new :: "nat \<Rightarrow> fake_map" where
  "FakeMap_new cap =
     \<lparr>by_name = [], by_ip = [], order = [], stamp = 0, next4 = 2, next6 = 2, capacity = cap, generation = 0\<rparr>"

definition fake_compact :: "fake_map \<Rightarrow> fake_map" where
  "fake_compact m = m\<lparr>order := sort_key snd (map snd (by_name m))\<rparr>"

definition fake_get :: "string \<times> bool \<Rightarrow> fake_map \<Rightarrow> ip_addr option \<times> fake_map" where
  "fake_get key m =
     (case map_of (by_name m) key of
        None \<Rightarrow> (None, m)
      | Some (ip, _) \<Rightarrow>
          (let st = stamp m + 1;
               m = m\<lparr>stamp := st, by_name := AList.update key (ip, st) (by_name m), order := order m @ [(ip, st)]\<rparr>
           in (Some ip, if length (order m) > 2 * max (capacity m) 64 then fake_compact m else m)))"

definition fake_insert :: "string \<Rightarrow> ip_addr \<Rightarrow> fake_map \<Rightarrow> fake_map" where
  "fake_insert name ip m =
     (let st = stamp m + 1
      in m\<lparr>stamp := st, generation := generation m + 1, order := order m @ [(ip, st)],
           by_ip := AList.update ip name (by_ip m),
           by_name := AList.update (name, is_ipv6 ip) (ip, st) (by_name m)\<rparr>)"

text \<open>The loop of \<^verbatim>\<open>evict\<close> over the queue.\<close>

fun evict_loop :: "(ip_addr \<times> nat) list \<Rightarrow> fake_map \<Rightarrow> fake_map" where
  "evict_loop [] m = m\<lparr>order := []\<rparr>"
| "evict_loop ((ip, st) # rest) m =
     (case map_of (by_ip m) ip of
        None \<Rightarrow> evict_loop rest m
      | Some name \<Rightarrow>
          (case map_of (by_name m) (name, is_ipv6 ip) of
             Some (_, latest) \<Rightarrow>
               if latest = st
               then m\<lparr>order := rest, by_name := AList.delete (name, is_ipv6 ip) (by_name m),
                      by_ip := AList.delete ip (by_ip m), generation := generation m + 1\<rparr>
               else evict_loop rest m
           | None \<Rightarrow> evict_loop rest m))"

definition fake_evict :: "fake_map \<Rightarrow> fake_map" where
  "fake_evict m = evict_loop (order m) m"

definition fake_export :: "fake_map \<Rightarrow> (string \<times> ip_addr) list" where
  "fake_export m = map (\<lambda>(key, ip, _). (fst key, ip)) (sort_key (snd \<circ> snd) (by_name m))"

subsection \<open>The pool\<close>

text \<open>The ranges of the configuration, as an address and the length of its prefix.\<close>

record fake_ranges =
  range4 :: "32 word \<times> nat"
  range6 :: "128 word \<times> nat"

definition last4 :: "nat \<Rightarrow> nat" where
  "last4 prefix = 2 ^ (32 - prefix) - 2"

definition last6 :: "nat \<Rightarrow> nat" where
  "last6 prefix = (if prefix = 0 then 2 ^ 128 - 1 else 2 ^ (128 - prefix) - 1)"

text \<open>One round of the loop of \<^verbatim>\<open>allocate\<close>: the next address, if the pool has any.\<close>

definition fake_next :: "fake_ranges \<Rightarrow> bool \<Rightarrow> fake_map \<Rightarrow> ip_addr outcome \<times> fake_map" where
  "fake_next r v6 m =
     (if v6 then
        (let lst = last6 (snd (range6 r))
         in if lst < 2 then (Fail ''fake-IP v6 pool exhausted'', m)
            else
              (let k = (if next6 m > lst then 2 else next6 m)
               in (Done (IpV6 (prefix_low (fst (range6 r)) (snd (range6 r)) + of_nat k)), m\<lparr>next6 := (k + 1) mod 2 ^ 128\<rparr>)))
      else
        (let lst = last4 (snd (range4 r))
         in if lst < 2 then (Fail ''fake-IP v4 pool exhausted'', m)
            else
              (let k = (if next4 m > lst then 2 else next4 m);
                   n = unat (prefix_low (fst (range4 r)) (snd (range4 r))) + k
               in if n < 2 ^ 32 then (Done (IpV4 (of_nat n)), m\<lparr>next4 := k + 1\<rparr>)
                  else (Fail ''fake-IP v4 pool exhausted'', m\<lparr>next4 := k\<rparr>))))"

fun allocate_loop :: "nat \<Rightarrow> fake_ranges \<Rightarrow> bool \<Rightarrow> fake_map \<Rightarrow> ip_addr outcome \<times> fake_map" where
  "allocate_loop 0 r v6 m = (Fail ''fake-IP pool exhausted'', m)"
| "allocate_loop (Suc n) r v6 m =
     (case fake_next r v6 m of
        (Done ip, m) \<Rightarrow>
          if map_of (by_ip m) ip = None then (Done ip, m) else allocate_loop n r v6 m
      | (e, m) \<Rightarrow> (e, m))"

definition fake_allocate :: "fake_ranges \<Rightarrow> bool \<Rightarrow> fake_map \<Rightarrow> ip_addr outcome \<times> fake_map" where
  "fake_allocate r v6 m = allocate_loop (Suc (length (by_ip m))) r v6 m"

subsection \<open>The resolver\<close>

definition fake_address ::
    "(string \<Rightarrow> unit outcome) \<Rightarrow> fake_ranges \<Rightarrow> string \<Rightarrow> bool \<Rightarrow> (fake_map, ip_addr) io" where
  "fake_address absolute_name r host v6 m =
     (case absolute_name host of
        Done _ \<Rightarrow>
          (case fake_get (host, v6) m of
             (Some ip, m) \<Rightarrow> (Done ip, m)
           | (None, m) \<Rightarrow>
               (let m = (if length (by_name m) \<ge> capacity m then fake_evict m else m)
                in case fake_allocate r v6 m of
                     (Done ip, m) \<Rightarrow> (Done ip, fake_insert host ip m)
                   | (e, m) \<Rightarrow> (e, m)))
      | Fail e \<Rightarrow> (Fail (''unsupported fake-IP hostname: '' @ e), m)
      | Panicked e \<Rightarrow> (Panicked e, m))"

definition original :: "fake_map \<Rightarrow> ip_addr \<Rightarrow> string option" where
  "original m ip = map_of (by_ip m) ip"

definition in_ranges_of :: "fake_ranges \<Rightarrow> ip_addr \<Rightarrow> bool" where
  "in_ranges_of r ip =
     (case ip of
        IpV4 a \<Rightarrow> net_contains (NetV4 (fst (range4 r)) (snd (range4 r))) ip
      | IpV6 a \<Rightarrow> net_contains (NetV6 (fst (range6 r)) (snd (range6 r))) ip)"

definition is_unmapped_fake :: "string \<Rightarrow> fake_ranges \<Rightarrow> fake_map \<Rightarrow> ip_addr \<Rightarrow> bool" where
  "is_unmapped_fake enhanced_mode r m ip \<longleftrightarrow>
     enhanced_mode = ''fake-ip'' \<and> in_ranges_of r ip \<and> original m ip = None"

text \<open>\<^verbatim>\<open>while by_name.len() > capacity { evict() }\<close>, which the invariant below shows to end.\<close>

fun evict_while :: "nat \<Rightarrow> fake_map \<Rightarrow> fake_map" where
  "evict_while 0 m = m"
| "evict_while (Suc n) m = (if length (by_name m) > capacity m then evict_while n (fake_evict m) else m)"

definition evict_surplus :: "fake_map \<Rightarrow> fake_map" where
  "evict_surplus m = evict_while (length (by_name m)) m"

definition set_fake_capacity :: "nat \<Rightarrow> fake_map \<Rightarrow> fake_map" where
  "set_fake_capacity cap m = evict_surplus (m\<lparr>capacity := max cap 1\<rparr>)"

definition advance_past :: "fake_ranges \<Rightarrow> ip_addr \<Rightarrow> fake_map \<Rightarrow> fake_map outcome" where
  "advance_past r ip m =
     (case ip of
        IpV4 a \<Rightarrow>
          (let n = unat a - unat (prefix_low (fst (range4 r)) (snd (range4 r)))
           in out_ensure (n \<ge> 2) ''reserved fake-IP'' (Done (m\<lparr>next4 := max (next4 m) (n + 1)\<rparr>)))
      | IpV6 a \<Rightarrow>
          (let n = unat a - unat (prefix_low (fst (range6 r)) (snd (range6 r)))
           in out_ensure (n \<ge> 2) ''reserved fake-IP'' (
              out_ensure (n + 1 < 2 ^ 128) ''saved pool overflow'' (
              Done (m\<lparr>next6 := max (next6 m) (n + 1)\<rparr>)))))"

definition is_pool_address :: "fake_ranges \<Rightarrow> ip_addr \<Rightarrow> bool" where
  "is_pool_address r ip \<longleftrightarrow>
     in_ranges_of r ip \<and>
     (case ip of
        IpV4 a \<Rightarrow> a \<noteq> prefix_high (fst (range4 r)) (snd (range4 r))
      | IpV6 _ \<Rightarrow> True)"

fun import_loop ::
    "(string \<Rightarrow> unit outcome) \<Rightarrow> fake_ranges \<Rightarrow> (string \<times> ip_addr) list \<Rightarrow> fake_map \<Rightarrow> fake_map outcome" where
  "import_loop absolute_name r [] m = Done m"
| "import_loop absolute_name r ((raw, ip) # rest) m =
     (let name = to_ascii_lowercase (trim_end_matches CHR ''.'' raw)
      in if \<not> is_pool_address r ip then import_loop absolute_name r rest m
         else
           out_then (advance_past r ip m) (\<lambda>m.
           if absolute_name name \<noteq> Done () then import_loop absolute_name r rest m
           else
             out_ensure (map_of (by_ip m) ip = None \<and> map_of (by_name m) (name, is_ipv6 ip) = None)
               ''duplicate saved fake-IP''
               (import_loop absolute_name r rest (fake_insert name ip m))))"

definition import_fake ::
    "(string \<Rightarrow> unit outcome) \<Rightarrow> fake_ranges \<Rightarrow> (string \<times> ip_addr) list \<Rightarrow> (fake_map, unit) io" where
  "import_fake absolute_name r saved m =
     (if length saved > FAKE_CAPACITY then (Fail ''saved fake-IP capacity exceeded'', m)
      else
        (case import_loop absolute_name r saved (FakeMap_new (capacity m)) of
           Done m' \<Rightarrow> (Done (), (evict_surplus m')\<lparr>generation := 0\<rparr>)
         | Fail e \<Rightarrow> (Fail e, m)
         | Panicked e \<Rightarrow> (Panicked e, m)))"

subsection \<open>Consistency\<close>

definition fake_ok :: "fake_map \<Rightarrow> bool" where
  "fake_ok m \<longleftrightarrow>
     distinct (map fst (by_name m)) \<and> distinct (map fst (by_ip m)) \<and>
     (\<forall>n v ip st. map_of (by_name m) (n, v) = Some (ip, st) \<longrightarrow>
        is_ipv6 ip = v \<and> map_of (by_ip m) ip = Some n \<and> (ip, st) \<in> set (order m)) \<and>
     (\<forall>ip n. map_of (by_ip m) ip = Some n \<longrightarrow> (\<exists>st. map_of (by_name m) (n, is_ipv6 ip) = Some (ip, st))) \<and>
     sorted_wrt (<) (map snd (order m)) \<and> (\<forall>e\<in>set (order m). snd e \<le> stamp m)"

lemma fake_okD:
  assumes "fake_ok m"
  shows "distinct (map fst (by_name m))" "distinct (map fst (by_ip m))"
    "map_of (by_name m) (n, v) = Some (ip, st) \<Longrightarrow> is_ipv6 ip = v"
    "map_of (by_name m) (n, v) = Some (ip, st) \<Longrightarrow> map_of (by_ip m) ip = Some n"
    "map_of (by_name m) (n, v) = Some (ip, st) \<Longrightarrow> (ip, st) \<in> set (order m)"
    "map_of (by_ip m) ip = Some n \<Longrightarrow> \<exists>st. map_of (by_name m) (n, is_ipv6 ip) = Some (ip, st)"
    "sorted_wrt (<) (map snd (order m))" "(ip, st) \<in> set (order m) \<Longrightarrow> st \<le> stamp m"
  using assms unfolding fake_ok_def by (blast | fastforce)+

lemma fake_okI:
  assumes "distinct (map fst (by_name m))" "distinct (map fst (by_ip m))"
    and "\<And>n v ip st. map_of (by_name m) (n, v) = Some (ip, st) \<Longrightarrow>
      is_ipv6 ip = v \<and> map_of (by_ip m) ip = Some n \<and> (ip, st) \<in> set (order m)"
    and "\<And>ip n. map_of (by_ip m) ip = Some n \<Longrightarrow> \<exists>st. map_of (by_name m) (n, is_ipv6 ip) = Some (ip, st)"
    and "sorted_wrt (<) (map snd (order m))" "\<And>e. e \<in> set (order m) \<Longrightarrow> snd e \<le> stamp m"
  shows "fake_ok m"
  unfolding fake_ok_def using assms by blast

lemma FakeMap_new_ok: "fake_ok (FakeMap_new cap)"
  by (simp add: fake_ok_def FakeMap_new_def)

text \<open>The entries, least recently used first.\<close>

definition lru :: "fake_map \<Rightarrow> ((string \<times> bool) \<times> ip_addr \<times> nat) list" where
  "lru m = sort_key (snd \<circ> snd) (by_name m)"

lemma fake_export_lru: "fake_export m = map (\<lambda>(key, ip, _). (fst key, ip)) (lru m)"
  by (simp add: fake_export_def lru_def)

lemma set_lru [simp]: "set (lru m) = set (by_name m)"
  by (simp add: lru_def)

lemma stamp_unique:
  "sorted_wrt (<) (map snd es) \<Longrightarrow> (a, st) \<in> set es \<Longrightarrow> (b, st) \<in> set es \<Longrightarrow> a = (b::ip_addr)"
  for es :: "(ip_addr \<times> nat) list"
proof (induction es)
  case (Cons e es)
  then have "(c, st) \<in> set es \<Longrightarrow> snd e < st" for c by (force simp: less_le)
  with Cons show ?case by auto
qed simp

lemma stamps_inj:
  assumes "fake_ok m"
  shows "inj_on (snd \<circ> snd) (set (by_name m))"
proof (rule inj_onI)
  fix e f assume ef: "e \<in> set (by_name m)" "f \<in> set (by_name m)" "(snd \<circ> snd) e = (snd \<circ> snd) f"
  obtain n v ip st where e: "e = ((n, v), ip, st)" by (metis prod.collapse)
  obtain n' v' ip' where f: "f = ((n', v'), ip', st)" using ef(3) e by (metis comp_apply prod.collapse snd_conv)
  have m: "map_of (by_name m) (n, v) = Some (ip, st)" "map_of (by_name m) (n', v') = Some (ip', st)"
    using ef(1,2) fake_okD(1) [OF assms] by (auto simp: e f)
  then have "ip = ip'" using fake_okD(5,7) [OF assms] stamp_unique by metis
  moreover have "is_ipv6 ip = v" "is_ipv6 ip' = v'" "map_of (by_ip m) ip = Some n" "map_of (by_ip m) ip' = Some n'"
    using m by (simp_all add: fake_okD(3,4) [OF assms])
  ultimately show "e = f" by (simp add: e f)
qed

text \<open>The only list of the entries in the order of their stamps.\<close>

lemma lru_unique:
  assumes "inj_on (snd \<circ> snd) (set (by_name m))" "distinct (by_name m)"
    and "set es = set (by_name m)" "sorted_wrt (<) (map (snd \<circ> snd) es)"
  shows "lru m = es"
proof -
  have "sorted (map (snd \<circ> snd) (lru m))" by (simp add: lru_def)
  moreover have "distinct (map (snd \<circ> snd) (lru m))"
    using assms(1,2) by (simp add: distinct_map lru_def)
  moreover have "sorted (map (snd \<circ> snd) es)" "distinct (map (snd \<circ> snd) es)"
    using assms(4) strict_sorted_iff by blast+
  moreover have "set (map (snd \<circ> snd) (lru m)) = set (map (snd \<circ> snd) es)" using assms(3) by simp
  ultimately have "map (snd \<circ> snd) (lru m) = map (snd \<circ> snd) es"
    by (intro sorted_distinct_set_unique)
  then show ?thesis
    using assms(1,3) by (intro map_inj_on [of "snd \<circ> snd"]) simp_all
qed

lemma lru_sorted:
  assumes "fake_ok m"
  shows "sorted_wrt (<) (map (snd \<circ> snd) (lru m))"
proof -
  have "distinct (by_name m)" using fake_okD(1) [OF assms] by (simp add: distinct_map)
  then have "distinct (map (snd \<circ> snd) (lru m))"
    using stamps_inj [OF assms] by (simp add: distinct_map lru_def)
  moreover have "sorted (map (snd \<circ> snd) (lru m))" by (simp add: lru_def)
  ultimately show ?thesis by (simp add: strict_sorted_iff)
qed

lemma lru_eqI:
  assumes "fake_ok m" "set es = set (by_name m)" "sorted_wrt (<) (map (snd \<circ> snd) es)"
  shows "lru m = es"
  using lru_unique [OF stamps_inj [OF assms(1)] _ assms(2,3)] fake_okD(1) [OF assms(1)]
  by (simp add: distinct_map)

subsection \<open>The operations keep it, and move names as the least recently used order asks\<close>

lemma set_alist: "distinct (map fst al) \<Longrightarrow> set al = {(k, v). map_of al k = Some v}"
  by auto

lemma entry_stamps:
  assumes "fake_ok m"
  shows "\<forall>e\<in>set (by_name m). snd (snd e) \<le> stamp m"
proof
  fix e assume "e \<in> set (by_name m)"
  moreover obtain n v ip st where e: "e = ((n, v), ip, st)" by (metis prod.collapse)
  ultimately have "map_of (by_name m) (n, v) = Some (ip, st)" using fake_okD(1) [OF assms] by simp
  from fake_okD(8) [OF assms fake_okD(5) [OF assms this]] e show "snd (snd e) \<le> stamp m" by simp
qed

lemma append_stamp:
  "sorted_wrt (<) (map snd es) \<Longrightarrow> (\<forall>e\<in>set es. snd e \<le> st) \<Longrightarrow>
    sorted_wrt (<) (map snd (es @ [(ip, Suc st)])) \<and> (\<forall>e\<in>set (es @ [(ip, Suc st)]). snd e \<le> Suc st)"
  for es :: "(ip_addr \<times> nat) list"
  by (auto simp: sorted_wrt_append)

lemma fake_compact_ok:
  assumes "fake_ok m"
  shows "fake_ok (fake_compact m) \<and> lru (fake_compact m) = lru m"
proof -
  note D = fake_okD [OF assms]
  let ?o = "sort_key snd (map snd (by_name m))"
  have "distinct (map (snd \<circ> snd) (by_name m))"
    using stamps_inj [OF assms] D(1) by (simp add: distinct_map)
  then have "distinct (map snd ?o)"
    by (auto simp: distinct_map inj_on_def)
  moreover have "sorted (map snd ?o)" by simp
  ultimately have "sorted_wrt (<) (map snd ?o)" by (simp add: strict_sorted_iff)
  then have "fake_ok (fake_compact m)"
    using D(1-4,6) entry_stamps [OF assms]
    by (intro fake_okI) (auto simp: fake_compact_def intro: rev_image_eqI)
  then show ?thesis by (simp add: fake_compact_def lru_def)
qed

lemma fake_touch:
  assumes ok: "fake_ok m" and key: "map_of (by_name m) (n, v) = Some (ip, old)"
  defines "m' \<equiv> m\<lparr>stamp := stamp m + 1, by_name := AList.update (n, v) (ip, stamp m + 1) (by_name m),
      order := order m @ [(ip, stamp m + 1)]\<rparr>"
  shows "fake_ok m'" "lru m' = filter (\<lambda>e. fst e \<noteq> (n, v)) (lru m) @ [((n, v), ip, stamp m + 1)]"
proof -
  note D = fake_okD [OF ok]
  have names: "map_of (by_name m') = (map_of (by_name m))((n, v) \<mapsto> (ip, stamp m + 1))"
    "distinct (map fst (by_name m'))"
    using D(1) by (simp_all add: m'_def update_conv' distinct_update)
  have fields: "by_ip m' = by_ip m" "order m' = order m @ [(ip, stamp m + 1)]" "stamp m' = stamp m + 1"
    by (simp_all add: m'_def)
  have stamped: "sorted_wrt (<) (map snd (order m @ [(ip, stamp m + 1)]))"
    "\<forall>e\<in>set (order m @ [(ip, stamp m + 1)]). snd e \<le> stamp m + 1"
    using append_stamp [OF D(7), of "stamp m" ip] D(8) by force+
  show ok': "fake_ok m'"
  proof (rule fake_okI, unfold names(1) fields)
    fix a n'
    assume "map_of (by_ip m) a = Some n'"
    then show "\<exists>st. ((map_of (by_name m))((n, v) \<mapsto> (ip, stamp m + 1))) (n', is_ipv6 a) = Some (a, st)"
      using D(6) key by fastforce
  qed (use D key names(2) stamped in \<open>auto split: if_splits\<close>)
  show "lru m' = filter (\<lambda>e. fst e \<noteq> (n, v)) (lru m) @ [((n, v), ip, stamp m + 1)]"
  proof (rule lru_eqI [OF ok'])
    show "set (filter (\<lambda>e. fst e \<noteq> (n, v)) (lru m) @ [((n, v), ip, stamp m + 1)]) = set (by_name m')"
      using set_alist [OF names(2)] set_alist [OF D(1)] by (auto simp: names(1) split: if_splits)
    have "sorted_wrt (<) (map (snd \<circ> snd) (filter (\<lambda>e. fst e \<noteq> (n, v)) (lru m)))"
      using lru_sorted [OF ok] by (simp add: sorted_wrt_map sorted_wrt_filter)
    moreover have "\<forall>e\<in>set (by_name m). snd (snd e) \<le> stamp m" by (rule entry_stamps [OF ok])
    ultimately show "sorted_wrt (<) (map (snd \<circ> snd) (filter (\<lambda>e. fst e \<noteq> (n, v)) (lru m) @ [((n, v), ip, stamp m + 1)]))"
      by (fastforce simp: sorted_wrt_append less_Suc_eq_le)
  qed
qed

lemma fake_get_spec:
  assumes ok: "fake_ok m"
  shows "fake_ok (snd (fake_get (n, v) m)) \<and> by_ip (snd (fake_get (n, v) m)) = by_ip m \<and>
    capacity (snd (fake_get (n, v) m)) = capacity m \<and>
    (case map_of (by_name m) (n, v) of
       None \<Rightarrow> fake_get (n, v) m = (None, m)
     | Some (ip, _) \<Rightarrow> fst (fake_get (n, v) m) = Some ip \<and>
         lru (snd (fake_get (n, v) m)) = filter (\<lambda>e. fst e \<noteq> (n, v)) (lru m) @ [((n, v), ip, stamp m + 1)])"
proof (cases "map_of (by_name m) (n, v)")
  case None
  then show ?thesis using ok by (simp add: fake_get_def)
next
  case (Some e)
  obtain ip old where e: "e = (ip, old)" by fastforce
  note touch = fake_touch [OF ok Some [unfolded e]]
  show ?thesis
    using touch fake_compact_ok [OF touch(1)] Some e
    by (simp add: fake_get_def Let_def) (simp add: fake_compact_def)
qed

lemma fake_insert_spec:
  assumes ok: "fake_ok m" and new: "map_of (by_ip m) ip = None" "map_of (by_name m) (n, is_ipv6 ip) = None"
  shows "fake_ok (fake_insert n ip m)" "lru (fake_insert n ip m) = lru m @ [((n, is_ipv6 ip), ip, stamp m + 1)]"
    "map_of (by_ip (fake_insert n ip m)) = (map_of (by_ip m))(ip \<mapsto> n)"
proof -
  note D = fake_okD [OF ok]
  let ?m = "fake_insert n ip m"
  have names: "map_of (by_name ?m) = (map_of (by_name m))((n, is_ipv6 ip) \<mapsto> (ip, stamp m + 1))"
    "distinct (map fst (by_name ?m))" "distinct (map fst (by_ip ?m))"
    using D(1,2) by (simp_all add: fake_insert_def Let_def update_conv' distinct_update)
  show ips: "map_of (by_ip ?m) = (map_of (by_ip m))(ip \<mapsto> n)"
    by (simp add: fake_insert_def Let_def update_conv')
  have fields: "order ?m = order m @ [(ip, stamp m + 1)]" "stamp ?m = stamp m + 1"
    by (simp_all add: fake_insert_def Let_def)
  have stamped: "sorted_wrt (<) (map snd (order m @ [(ip, stamp m + 1)]))"
    "\<forall>e\<in>set (order m @ [(ip, stamp m + 1)]). snd e \<le> stamp m + 1"
    using append_stamp [OF D(7), of "stamp m" ip] D(8) by force+
  show ok': "fake_ok ?m"
  proof (rule fake_okI, unfold names(1) ips fields)
    fix n' v a st
    assume a: "((map_of (by_name m))((n, is_ipv6 ip) \<mapsto> (ip, stamp m + 1))) (n', v) = Some (a, st)"
    show "is_ipv6 a = v \<and> ((map_of (by_ip m))(ip \<mapsto> n)) a = Some n' \<and> (a, st) \<in> set (order m @ [(ip, stamp m + 1)])"
    proof (cases "(n', v) = (n, is_ipv6 ip)")
      case True
      with a have "a = ip" "st = stamp m + 1" by (simp_all only: fun_upd_same option.inject prod.inject)
      with True show ?thesis by simp
    next
      case False
      with a have old: "map_of (by_name m) (n', v) = Some (a, st)" by (simp only: fun_upd_other not_False_eq_True)
      from D(4) [OF old] new(1) have "a \<noteq> ip" by auto
      with D(3-5) [OF old] show ?thesis by simp
    qed
  next
    fix a n'
    assume "((map_of (by_ip m))(ip \<mapsto> n)) a = Some n'"
    then consider "a = ip" "n' = n" | "a \<noteq> ip" "map_of (by_ip m) a = Some n'" by (auto split: if_splits)
    then show "\<exists>st. ((map_of (by_name m))((n, is_ipv6 ip) \<mapsto> (ip, stamp m + 1))) (n', is_ipv6 a) = Some (a, st)"
    proof cases
      case 2
      then obtain st where st: "map_of (by_name m) (n', is_ipv6 a) = Some (a, st)" using D(6) by blast
      with new(2) have "(n', is_ipv6 a) \<noteq> (n, is_ipv6 ip)" by (metis option.distinct(1))
      with st show ?thesis by auto
    qed simp
  next
    fix e assume "e \<in> set (order m @ [(ip, stamp m + 1)])"
    with stamped(2) show "snd e \<le> stamp m + 1" by blast
  qed (rule names(2), rule names(3), rule stamped(1))
  show "lru ?m = lru m @ [((n, is_ipv6 ip), ip, stamp m + 1)]"
  proof (rule lru_eqI [OF ok'])
    show "set (lru m @ [((n, is_ipv6 ip), ip, stamp m + 1)]) = set (by_name ?m)"
      using set_alist [OF names(2)] set_alist [OF D(1)] new(2) by (auto simp: names(1) split: if_splits)
    show "sorted_wrt (<) (map (snd \<circ> snd) (lru m @ [((n, is_ipv6 ip), ip, stamp m + 1)]))"
      using lru_sorted [OF ok] entry_stamps [OF ok]
      by (fastforce simp: sorted_wrt_append less_Suc_eq_le)
  qed
qed

lemma least_first:
  assumes "sorted_wrt (<) (map f xs)" "e \<in> set xs" "\<And>x. x \<in> set xs \<Longrightarrow> f e \<le> (f x :: nat)"
  shows "xs = e # tl xs"
proof (cases xs)
  case (Cons x ys)
  with assms have "e = x \<or> f x < f e" by auto
  with assms(3) [of x] Cons show ?thesis by auto
qed (use assms in simp)

text \<open>
  The loop finds the entry used longest ago: what it drops from the queue \<open>es\<close> is stale.
\<close>

definition evicted :: "fake_map \<Rightarrow> (ip_addr \<times> nat) list \<Rightarrow> fake_map \<Rightarrow> bool" where
  "evicted m es m' \<longleftrightarrow>
     by_name m = [] \<and> m' = m\<lparr>order := []\<rparr> \<or>
     (\<exists>key ip st rest. lru m = (key, ip, st) # tl (lru m) \<and>
        m' = m\<lparr>order := rest, by_name := AList.delete key (by_name m),
          by_ip := AList.delete ip (by_ip m), generation := generation m + 1\<rparr> \<and>
        sorted_wrt (<) (map snd rest) \<and> set rest \<subseteq> set (order m) \<and>
        set es \<subseteq> insert (ip, st) (set rest \<union> {e. snd e < st}))"

lemma evicted_first:
  assumes ok: "fake_ok m" and es: "sorted_wrt (<) (map snd ((ip, st) # es))" "set es \<subseteq> set (order m)"
    and live: "\<And>n v ip' st'. map_of (by_name m) (n, v) = Some (ip', st') \<Longrightarrow> (ip', st') \<in> set ((ip, st) # es)"
    and n: "map_of (by_ip m) ip = Some n" "map_of (by_name m) (n, is_ipv6 ip) = Some (ip, st)"
  shows "evicted m ((ip, st) # es) (evict_loop ((ip, st) # es) m)"
proof -
  have first: "lru m = ((n, is_ipv6 ip), ip, st) # tl (lru m)"
  proof (rule least_first [OF lru_sorted [OF ok]])
    show "((n, is_ipv6 ip), ip, st) \<in> set (lru m)" using n(2) by (simp add: map_of_SomeD)
    fix x assume "x \<in> set (lru m)"
    moreover obtain k a t where x: "x = (k, a, t)" by (metis prod.collapse)
    ultimately have "map_of (by_name m) (fst k, snd k) = Some (a, t)" using fake_okD(1) [OF ok] by simp
    from live [OF this] es(1) show "(snd \<circ> snd) ((n, is_ipv6 ip), ip, st) \<le> (snd \<circ> snd) x"
      by (auto simp: x intro: less_imp_le)
  qed
  have loop: "evict_loop ((ip, st) # es) m = m\<lparr>order := es, by_name := AList.delete (n, is_ipv6 ip) (by_name m),
         by_ip := AList.delete ip (by_ip m), generation := generation m + 1\<rparr>"
    using n by simp
  show ?thesis unfolding evicted_def loop
    by (rule disjI2, rule exI [of _ "(n, is_ipv6 ip)"], rule exI [of _ ip], rule exI [of _ st], rule exI [of _ es])
      (use first es in auto)
qed

lemma evicted_stale:
  assumes "evicted m es m'" and "\<And>k a t. lru m = (k, a, t) # tl (lru m) \<Longrightarrow> snd e < t"
  shows "evicted m (e # es) m'"
  using assms unfolding evicted_def
proof (elim disjE exE conjE, goal_cases)
  case (2 key ip st rest)
  then show ?case
    by (intro disjI2 exI [of _ key] exI [of _ ip] exI [of _ st] exI [of _ rest]) auto
qed simp

lemma evict_loop_spec:
  assumes ok: "fake_ok m"
    and "sorted_wrt (<) (map snd es)" "set es \<subseteq> set (order m)"
    and "\<And>n v ip st. map_of (by_name m) (n, v) = Some (ip, st) \<Longrightarrow> (ip, st) \<in> set es"
  shows "evicted m es (evict_loop es m)"
  using assms(2-4)
proof (induction es)
  case Nil
  have "map_of (by_name m) k = None" for k using Nil(3) by (cases k; cases "map_of (by_name m) k") auto
  from this [of "fst (hd (by_name m))"] have "by_name m = []" by (cases "by_name m") auto
  then show ?case by (simp add: evicted_def)
next
  case (Cons e es)
  obtain ip st where e: "e = (ip, st)" by fastforce
  show ?case
  proof (cases "\<exists>n. map_of (by_ip m) ip = Some n \<and> map_of (by_name m) (n, is_ipv6 ip) = Some (ip, st)")
    case True
    then show ?thesis
      unfolding e using Cons.prems by (elim exE conjE) (rule evicted_first [OF ok], auto simp: e)
  next
    case False
    have skip: "evict_loop (e # es) m = evict_loop es m"
      using False fake_okD(6) [OF ok, of ip] by (fastforce simp: e split: option.splits)
    have live: "(a, t) \<in> set es" if "map_of (by_name m) (n, v) = Some (a, t)" for n v a t
    proof -
      have "(a, t) \<noteq> e" using False that fake_okD(3,4) [OF ok that] by (auto simp: e)
      with Cons.prems(3) [OF that] show ?thesis by auto
    qed
    have "snd e < t" if "lru m = (k, a, t) # tl (lru m)" for k a t
    proof -
      from that have "(k, a, t) \<in> set (by_name m)" by (metis list.set_intros(1) set_lru)
      then have "map_of (by_name m) (fst k, snd k) = Some (a, t)" using fake_okD(1) [OF ok] by simp
      from live [OF this] Cons.prems(1) show ?thesis by (auto simp: e)
    qed
    moreover have "evicted m es (evict_loop es m)" using Cons.IH Cons.prems(1,2) live by simp
    ultimately show ?thesis unfolding skip by (rule evicted_stale [rotated])
  qed
qed

lemma map_of_delete: "map_of (AList.delete k al) = (map_of al)(k := None)"
  by (rule AList.delete_conv')

lemma fake_remove:
  assumes ok: "fake_ok m" and first: "lru m = ((n, v), ip, st) # es"
    and rest: "sorted_wrt (<) (map snd rest)" "set rest \<subseteq> set (order m)"
      "set (order m) \<subseteq> insert (ip, st) (set rest \<union> {e. snd e < st})"
    and m': "m' = m\<lparr>order := rest, by_name := AList.delete (n, v) (by_name m),
        by_ip := AList.delete ip (by_ip m), generation := generation m + 1\<rparr>"
  shows "fake_ok m'" "lru m' = es"
proof -
  note D = fake_okD [OF ok]
  have set_names: "set (by_name m) = insert ((n, v), ip, st) (set es)" using first set_lru [of m] by simp
  then have key: "map_of (by_name m) (n, v) = Some (ip, st)" using D(1) by simp
  have later: "st < t" if "((n', v'), a, t) \<in> set es" for n' v' a t
    using lru_sorted [OF ok] that by (fastforce simp: first)
  have others: "a \<noteq> ip \<and> (a, t) \<in> set rest"
    if at: "map_of (by_name m) (n', v') = Some (a, t)" "(n', v') \<noteq> (n, v)" for n' v' a t
  proof -
    have "a \<noteq> ip" using D(3,4) [OF at(1)] D(3,4) [OF key] at(2) by auto
    moreover have "st < t" using later map_of_SomeD [OF at(1)] at(2) by (auto simp: set_names)
    ultimately show ?thesis using D(5) [OF at(1)] rest(3) by auto
  qed
  have fields: "map_of (by_name m') = (map_of (by_name m))((n, v) := None)"
    "map_of (by_ip m') = (map_of (by_ip m))(ip := None)" "order m' = rest" "stamp m' = stamp m"
    by (simp_all add: m' map_of_delete)
  have distinct: "distinct (map fst (by_name m'))" "distinct (map fst (by_ip m'))"
    using D(1,2) by (simp_all add: m' distinct_delete)
  show ok': "fake_ok m'"
  proof (rule fake_okI, unfold fields)
    fix n' v' a t assume "((map_of (by_name m))((n, v) := None)) (n', v') = Some (a, t)"
    then have "map_of (by_name m) (n', v') = Some (a, t)" "(n', v') \<noteq> (n, v)" by (auto split: if_splits)
    from others [OF this] D(3,4) [OF this(1)]
    show "is_ipv6 a = v' \<and> ((map_of (by_ip m))(ip := None)) a = Some n' \<and> (a, t) \<in> set rest" by simp
  next
    fix a n' assume "((map_of (by_ip m))(ip := None)) a = Some n'"
    then have a: "a \<noteq> ip" "map_of (by_ip m) a = Some n'" by (auto split: if_splits)
    then obtain t where t: "map_of (by_name m) (n', is_ipv6 a) = Some (a, t)" using D(6) by blast
    with key a have "(n', is_ipv6 a) \<noteq> (n, v)" by (metis fst_conv option.inject)
    with t show "\<exists>t. ((map_of (by_name m))((n, v) := None)) (n', is_ipv6 a) = Some (a, t)" by auto
  next
    fix e assume "e \<in> set rest"
    with rest(2) D(8) show "snd e \<le> stamp m" by (cases e) auto
  qed (rule distinct(1), rule distinct(2), rule rest(1))
  show "lru m' = es"
  proof (rule lru_eqI [OF ok'])
    have "fst e \<noteq> (n, v)" if "e \<in> set es" for e
    proof
      assume e: "fst e = (n, v)"
      with that have "map_of (by_name m) (n, v) = Some (snd e)"
        using D(1) by (metis insertCI map_of_eq_Some_iff prod.collapse set_names)
      with key e that later [of n v ip st] show False by (metis less_irrefl option.inject prod.collapse)
    qed
    then show "set es = set (by_name m')" by (fastforce simp: m' AList.delete_eq set_names)
    show "sorted_wrt (<) (map (snd \<circ> snd) es)" using lru_sorted [OF ok] by (simp add: first)
  qed
qed

lemma fake_evict_spec:
  assumes ok: "fake_ok m"
  shows "fake_ok (fake_evict m)" "lru (fake_evict m) = tl (lru m)" "capacity (fake_evict m) = capacity m"
    "stamp (fake_evict m) = stamp m" "next4 (fake_evict m) = next4 m" "next6 (fake_evict m) = next6 m"
proof -
  have "evicted m (order m) (fake_evict m)"
    unfolding fake_evict_def using fake_okD(5,7) [OF ok] by (intro evict_loop_spec [OF ok]) auto
  then show "fake_ok (fake_evict m)" "lru (fake_evict m) = tl (lru m)" "capacity (fake_evict m) = capacity m"
    "stamp (fake_evict m) = stamp m" "next4 (fake_evict m) = next4 m" "next6 (fake_evict m) = next6 m"
    unfolding evicted_def
  proof (atomize (full), elim disjE exE conjE, goal_cases)
    case 1
    then show ?case using ok by (simp add: fake_ok_def lru_def)
  next
    case (2 key ip st rest)
    from fake_remove [OF ok, of "fst key" "snd key" ip st "tl (lru m)" rest "fake_evict m"] 2
    show ?case by simp
  qed
qed

end
