(* ===== verification/Fake_Pool.thy ===== *)
theory Fake_Pool
  imports Fake_Map
begin

text \<open>
  The pool of \<^verbatim>\<open>FakeMap::allocate\<close>: its addresses are distinct and stay inside the configured
  ranges, and the scan of one more address than there are mappings finds a free one whenever
  the pool has one.
\<close>

subsection \<open>Addresses of a range\<close>

lemma unat_prefix_low:
  "unat (prefix_low a p) = unat a div 2 ^ (LENGTH('a) - p) * 2 ^ (LENGTH('a) - p)" for a :: "'a::len word"
proof -
  let ?h = "LENGTH('a) - p"
  have "unat a div 2 ^ ?h * 2 ^ ?h \<le> unat a" by simp
  also have "\<dots> < 2 ^ LENGTH('a)" by simp
  finally have "take_bit LENGTH('a) (unat a div 2 ^ ?h * 2 ^ ?h) = unat a div 2 ^ ?h * 2 ^ ?h"
    by (rule take_bit_nat_eq_self)
  then show ?thesis
    by (simp add: prefix_low_def unsigned_push_bit_eq unsigned_drop_bit_eq take_bit_nat_eq_self)
      (simp add: push_bit_eq_mult drop_bit_eq_div)
qed

lemma prefix_room:
  fixes a :: "'a::len word"
  assumes "p \<le> LENGTH('a)"
  shows "unat (prefix_low a p) + 2 ^ (LENGTH('a) - p) \<le> 2 ^ LENGTH('a)"
proof -
  let ?h = "LENGTH('a) - p"
  have "unat a < 2 ^ p * 2 ^ ?h" using assms by (simp flip: power_add)
  then have "unat a div 2 ^ ?h < 2 ^ p" by (simp add: less_mult_imp_div_less)
  then have "(unat a div 2 ^ ?h + 1) * 2 ^ ?h \<le> 2 ^ p * 2 ^ ?h" by (intro mult_right_mono) simp_all
  also have "2 ^ p * 2 ^ ?h = (2::nat) ^ LENGTH('a)" using assms by (simp flip: power_add)
  finally show ?thesis by (simp add: unat_prefix_low)
qed

lemma unat_prefix_high:
  fixes a :: "'a::len word"
  assumes "p \<le> LENGTH('a)"
  shows "unat (prefix_high a p) = unat (prefix_low a p) + (2 ^ (LENGTH('a) - p) - 1)"
proof -
  let ?h = "LENGTH('a) - p"
  have "prefix_high a p = prefix_low a p + mask ?h"
    unfolding prefix_high_def
    by (rule disjunctive_add_eq_or [symmetric])
      (auto simp: prefix_low_def bit_simps intro!: bit_eqI)
  moreover have "unat (mask ?h :: 'a word) = 2 ^ ?h - 1"
  proof -
    have "(2::nat) ^ ?h - 1 < 2 ^ ?h" by simp
    also have "\<dots> \<le> 2 ^ LENGTH('a)" by (rule power_increasing) simp_all
    finally have "mask ?h < (2::nat) ^ LENGTH('a)" by (simp add: mask_eq_exp_minus_1)
    then have "unat (of_nat (mask ?h) :: 'a word) = mask ?h" by (simp add: unat_of_nat)
    then show ?thesis by (simp add: of_nat_mask_eq mask_eq_exp_minus_1)
  qed
  moreover have "unat (prefix_low a p) + (2 ^ ?h - 1) < 2 ^ LENGTH('a)"
  proof -
    have "(0::nat) < 2 ^ ?h" by simp
    with prefix_room [OF assms, of a] show ?thesis by linarith
  qed
  ultimately show ?thesis by (simp add: unat_word_ariths)
qed

lemma between_offset: "0 < c \<Longrightarrow> b \<le> x \<and> x \<le> b + (c - 1) \<longleftrightarrow> (\<exists>k<c. x = b + k)" for b c x :: nat
  by (auto intro!: exI [of _ "x - b"])

lemma word_between:
  fixes a x :: "'a::len word"
  assumes "p \<le> LENGTH('a)"
  shows "prefix_low a p \<le> x \<and> x \<le> prefix_high a p \<longleftrightarrow>
    (\<exists>k<2 ^ (LENGTH('a) - p). x = prefix_low a p + of_nat k)"
proof -
  let ?b = "unat (prefix_low a p)" and ?h = "LENGTH('a) - p"
  have pos: "(0::nat) < 2 ^ ?h" by simp
  have "?b \<le> unat x \<and> unat x \<le> ?b + (2 ^ ?h - 1) \<longleftrightarrow> (\<exists>k<2 ^ ?h. unat x = ?b + k)"
    by (rule between_offset [OF pos])
  moreover have "unat x = ?b + k \<longleftrightarrow> x = prefix_low a p + of_nat k" if "k < 2 ^ ?h" for k
  proof -
    have "?b + k < 2 ^ LENGTH('a)" using prefix_room [OF assms, of a] that by simp
    then have "unat (prefix_low a p + of_nat k) = ?b + k" by (simp add: unat_word_ariths unat_of_nat mod_simps)
    then show ?thesis by (metis word_unat_eq_iff)
  qed
  ultimately show ?thesis by (auto simp: word_le_nat_alt unat_prefix_high [OF assms])
qed

subsection \<open>The pool\<close>

text \<open>A range has a prefix of its width; the IPv6 range is not the whole address space.\<close>

definition ranges_ok :: "fake_ranges \<Rightarrow> bool" where
  "ranges_ok r \<longleftrightarrow> snd (range4 r) \<le> 32 \<and> 0 < snd (range6 r) \<and> snd (range6 r) \<le> 128"

definition pool_last :: "fake_ranges \<Rightarrow> bool \<Rightarrow> nat" where
  "pool_last r v6 = (if v6 then last6 (snd (range6 r)) else last4 (snd (range4 r)))"

definition pool_address :: "fake_ranges \<Rightarrow> bool \<Rightarrow> nat \<Rightarrow> ip_addr" where
  "pool_address r v6 k =
     (if v6 then IpV6 (prefix_low (fst (range6 r)) (snd (range6 r)) + of_nat k)
      else IpV4 (prefix_low (fst (range4 r)) (snd (range4 r)) + of_nat k))"

definition pool :: "fake_ranges \<Rightarrow> bool \<Rightarrow> ip_addr set" where
  "pool r v6 = pool_address r v6 ` {2..pool_last r v6}"

lemma is_ipv6_pool [simp]: "is_ipv6 (pool_address r v6 k) = v6"
  by (simp add: pool_address_def)

lemma pool_is_ipv6: "ip \<in> pool r v6 \<Longrightarrow> is_ipv6 ip = v6"
  by (auto simp: pool_def)

lemma last_less:
  assumes "ranges_ok r"
  shows "pool_last r False + 1 \<le> 2 ^ (32 - snd (range4 r))" "pool_last r True + 1 = 2 ^ (128 - snd (range6 r))"
proof -
  have "(1::nat) \<le> 2 ^ (32 - snd (range4 r))" by simp
  then show "pool_last r False + 1 \<le> 2 ^ (32 - snd (range4 r))"
    unfolding pool_last_def last4_def by (simp only: if_False)
  show "pool_last r True + 1 = 2 ^ (128 - snd (range6 r))"
    using assms by (simp add: pool_last_def last6_def ranges_ok_def)
qed

lemma prefix_offset_inj:
  fixes a :: "'a::len word"
  assumes "p \<le> LENGTH('a)" "k < 2 ^ (LENGTH('a) - p)"
  shows "unat (prefix_low a p + of_nat k) = unat (prefix_low a p) + k"
proof -
  have "unat (prefix_low a p) + k < 2 ^ LENGTH('a)" using prefix_room [OF assms(1), of a] assms(2) by simp
  then show ?thesis by (simp add: unat_word_ariths unat_of_nat mod_simps)
qed

lemma pool_address_unat:
  assumes "ranges_ok r" "k \<le> pool_last r v6"
  shows "case pool_address r v6 k of
      IpV4 a \<Rightarrow> unat a = unat (prefix_low (fst (range4 r)) (snd (range4 r))) + k
    | IpV6 a \<Rightarrow> unat a = unat (prefix_low (fst (range6 r)) (snd (range6 r))) + k"
proof (cases v6)
  case True
  with assms last_less(2) [OF assms(1)] have "k < 2 ^ (LENGTH(128) - snd (range6 r))" "snd (range6 r) \<le> LENGTH(128)"
    by (simp_all add: ranges_ok_def)
  from prefix_offset_inj [OF this(2,1)] True show ?thesis by (simp add: pool_address_def)
next
  case False
  with assms last_less(1) [OF assms(1)] have "k < 2 ^ (LENGTH(32) - snd (range4 r))" "snd (range4 r) \<le> LENGTH(32)"
    by (simp_all add: ranges_ok_def)
  from prefix_offset_inj [OF this(2,1)] False show ?thesis by (simp add: pool_address_def)
qed

lemma pool_address_inj:
  assumes "ranges_ok r"
  shows "inj_on (pool_address r v6) {2..pool_last r v6}"
proof (rule inj_onI)
  fix k j assume "k \<in> {2..pool_last r v6}" "j \<in> {2..pool_last r v6}" "pool_address r v6 k = pool_address r v6 j"
  with pool_address_unat [OF assms, of k v6] pool_address_unat [OF assms, of j v6] show "k = j"
    by (auto split: ip_addr.splits)
qed

lemma pool_is_pool_address:
  assumes r: "ranges_ok r" and ip: "ip \<in> pool r v6"
  shows "is_pool_address r ip"
proof -
  obtain k where k: "2 \<le> k" "k \<le> pool_last r v6" "ip = pool_address r v6 k" using ip by (auto simp: pool_def)
  note u = pool_address_unat [OF r k(2), folded k(3)]
  note L = last_less [OF r]
  show ?thesis
  proof (cases v6)
    case True
    then obtain a where a: "ip = IpV6 a" using k(3) by (simp add: pool_address_def)
    have "snd (range6 r) \<le> LENGTH(128)" using r by (simp add: ranges_ok_def)
    note high = unat_prefix_high [OF this, of "fst (range6 r)"]
    show ?thesis using u k(2) L(2) True
      by (simp add: a is_pool_address_def in_ranges_of_def word_le_nat_alt high)
  next
    case False
    then obtain a where a: "ip = IpV4 a" using k(3) by (simp add: pool_address_def)
    have "snd (range4 r) \<le> LENGTH(32)" using r by (simp add: ranges_ok_def)
    note high = unat_prefix_high [OF this, of "fst (range4 r)"]
    have "k < 2 ^ (32 - snd (range4 r)) - 1"
      using k(1,2) False by (simp add: pool_last_def last4_def)
    then show ?thesis using u False
      by (auto simp: a is_pool_address_def in_ranges_of_def word_le_nat_alt high)
  qed
qed

subsection \<open>The scan\<close>

definition pool_next :: "bool \<Rightarrow> fake_map \<Rightarrow> nat" where
  "pool_next v6 m = (if v6 then next6 m else next4 m)"

definition set_next :: "bool \<Rightarrow> nat \<Rightarrow> fake_map \<Rightarrow> fake_map" where
  "set_next v6 k m = (if v6 then m\<lparr>next6 := k\<rparr> else m\<lparr>next4 := k\<rparr>)"

lemma set_next_fields [simp]:
  "by_ip (set_next v6 k m) = by_ip m" "by_name (set_next v6 k m) = by_name m"
  "order (set_next v6 k m) = order m" "stamp (set_next v6 k m) = stamp m"
  "capacity (set_next v6 k m) = capacity m" "generation (set_next v6 k m) = generation m"
  "pool_next v6 (set_next v6 k m) = k" "set_next v6 k (set_next v6 j m) = set_next v6 k m"
  by (simp_all add: set_next_def pool_next_def)

lemma pool_next_other [simp]: "v \<noteq> v6 \<Longrightarrow> pool_next v (set_next v6 k m) = pool_next v m"
  by (auto simp: set_next_def pool_next_def)

definition wrapped :: "nat \<Rightarrow> nat \<Rightarrow> nat" where
  "wrapped lst k = (if k > lst then 2 else k)"

lemma fake_next_pool:
  assumes r: "ranges_ok r" and two: "2 \<le> pool_last r v6"
  shows "fake_next r v6 m =
    (Done (pool_address r v6 (wrapped (pool_last r v6) (pool_next v6 m))),
     set_next v6 (wrapped (pool_last r v6) (pool_next v6 m) + 1) m)"
proof -
  let ?k = "wrapped (pool_last r v6) (pool_next v6 m)"
  have k: "?k \<le> pool_last r v6" using two by (simp add: wrapped_def)
  note L = last_less [OF r]
  show ?thesis
  proof (cases v6)
    case True
    have "(2::nat) ^ (128 - snd (range6 r)) < 2 ^ 128"
      using r by (intro power_strict_increasing) (auto simp: ranges_ok_def)
    with L(2) k True have "?k + 1 < 2 ^ 128" by simp
    with two True show ?thesis
      by (simp add: fake_next_def Let_def pool_last_def pool_next_def pool_address_def set_next_def wrapped_def)
  next
    case False
    have "snd (range4 r) \<le> LENGTH(32)" using r by (simp add: ranges_ok_def)
    from prefix_room [OF this, of "fst (range4 r)"] L(1) k False
    have "unat (prefix_low (fst (range4 r)) (snd (range4 r))) + ?k < 2 ^ 32" by simp
    with two False show ?thesis
      by (simp add: fake_next_def Let_def pool_last_def pool_next_def pool_address_def set_next_def wrapped_def)
  qed
qed

text \<open>The place the scan looks at in its round \<open>i\<close>, from the place \<open>s\<close>.\<close>

definition scan_place :: "nat \<Rightarrow> nat \<Rightarrow> nat \<Rightarrow> nat" where
  "scan_place lst s i = (wrapped lst s - 2 + i) mod (lst - 1) + 2"

lemma scan_place_0: "2 \<le> lst \<Longrightarrow> 2 \<le> s \<Longrightarrow> scan_place lst s 0 = wrapped lst s"
  by (auto simp: scan_place_def wrapped_def)

lemma scan_place_Suc:
  assumes "2 \<le> lst" "2 \<le> s"
  shows "scan_place lst (wrapped lst s + 1) i = scan_place lst s (Suc i)"
proof (cases "wrapped lst s = lst")
  case True
  have "lst - 2 + Suc i = i + (lst - 1)" using assms by linarith
  with True have "scan_place lst s (Suc i) = (i + (lst - 1)) mod (lst - 1) + 2"
    by (simp only: scan_place_def)
  also have "\<dots> = i mod (lst - 1) + 2" by (simp only: mod_add_self2)
  finally show ?thesis using True by (simp add: scan_place_def wrapped_def [of lst "Suc lst"])
next
  case False
  with assms have "wrapped lst s + 1 \<le> lst" "2 \<le> wrapped lst s" by (auto simp: wrapped_def split: if_splits)
  then have "wrapped lst (wrapped lst s + 1) - 2 + i = wrapped lst s - 2 + Suc i"
    by (simp add: wrapped_def [of lst "Suc _"])
  then show ?thesis by (simp only: scan_place_def)
qed

lemma scan_place_in: "2 \<le> lst \<Longrightarrow> scan_place lst s i \<in> {2..lst}"
  using mod_less_divisor [of "lst - 1" "wrapped lst s - 2 + i"]
  unfolding scan_place_def atLeastAtMost_iff by linarith

lemma allocate_loop_scan:
  assumes r: "ranges_ok r" and two: "2 \<le> pool_last r v6" and "2 \<le> pool_next v6 m"
  defines "place \<equiv> \<lambda>m. scan_place (pool_last r v6) (pool_next v6 m)"
  shows "(\<exists>k\<in>{2..pool_last r v6}. map_of (by_ip m) (pool_address r v6 k) = None \<and>
      allocate_loop n r v6 m = (Done (pool_address r v6 k), set_next v6 (k + 1) m)) \<or>
    (\<exists>j\<ge>2. allocate_loop n r v6 m = (Fail ''fake-IP pool exhausted'', set_next v6 j m)) \<and>
    (\<forall>i<n. map_of (by_ip m) (pool_address r v6 (place m i)) \<noteq> None)"
  using assms(3)
proof (induction n arbitrary: m)
  case 0
  have "m = set_next v6 (pool_next v6 m) m" by (simp add: set_next_def pool_next_def)
  with 0 show ?case by auto
next
  case (Suc n)
  let ?k = "wrapped (pool_last r v6) (pool_next v6 m)"
  let ?m = "set_next v6 (?k + 1) m"
  have first: "place m 0 = ?k" using scan_place_0 [OF two Suc.prems] by (simp add: place_def)
  have k: "?k \<in> {2..pool_last r v6}" using two Suc.prems by (auto simp: wrapped_def)
  show ?case
  proof (cases "map_of (by_ip m) (pool_address r v6 ?k) = None")
    case True
    with k show ?thesis by (auto simp: fake_next_pool [OF r two])
  next
    case False
    have loop: "allocate_loop (Suc n) r v6 m = allocate_loop n r v6 ?m"
      using False by (simp add: fake_next_pool [OF r two] del: not_None_eq)
    have next_place: "place ?m i = place m (Suc i)" for i
      using scan_place_Suc [OF two Suc.prems] by (simp add: place_def)
    have "2 \<le> pool_next v6 ?m" using k by simp
    from Suc.IH [OF this] False first show ?thesis
      unfolding loop next_place by (auto simp: less_Suc_eq_0_disj)
  qed
qed

lemma scan_covers:
  assumes lst: "2 \<le> lst" and "finite D" "card D < n" "inj_on f {2..lst}"
    and seen: "\<forall>i<n. f (scan_place lst s i) \<in> D"
  shows "f ` {2..lst} \<subseteq> D"
proof -
  let ?g = "scan_place lst s" and ?P = "lst - 1"
  have inj: "inj_on ?g {..<min n ?P}"
  proof (rule inj_onI)
    fix i j assume ij: "i \<in> {..<min n ?P}" "j \<in> {..<min n ?P}" "?g i = ?g j"
    then have "(wrapped lst s - 2 + i) mod ?P = (wrapped lst s - 2 + j) mod ?P" by (simp add: scan_place_def)
    then have "i mod ?P = j mod ?P" unfolding nat_mod_eq_iff by auto
    with ij show "i = j" by simp
  qed
  have sub: "?g ` {..<min n ?P} \<subseteq> {2..lst}" using scan_place_in [OF lst] by blast
  have "card (f ` ?g ` {..<min n ?P}) = min n ?P"
    using inj inj_on_subset [OF assms(4) sub] by (simp add: card_image)
  moreover have "f ` ?g ` {..<min n ?P} \<subseteq> D" using seen by auto
  ultimately have "min n ?P \<le> card D" using card_mono [OF assms(2)] by metis
  with assms(3) have P: "min n ?P = ?P" by simp
  have "?g ` {..<?P} = {2..lst}"
    using sub [unfolded P] inj [unfolded P] lst by (intro card_subset_eq) (simp_all add: card_image)
  with seen P show ?thesis by (metis (no_types, lifting) image_image image_subsetI lessThan_iff min.strict_boundedE image_eqI imageE)
qed

lemma fake_allocate_spec:
  assumes r: "ranges_ok r" and m: "2 \<le> pool_next v6 m"
  shows "(\<exists>ip\<in>pool r v6. \<exists>j\<ge>2. map_of (by_ip m) ip = None \<and> fake_allocate r v6 m = (Done ip, set_next v6 j m)) \<or>
    (\<exists>e. \<exists>j\<ge>2. pool r v6 \<subseteq> dom (map_of (by_ip m)) \<and> fake_allocate r v6 m = (Fail e, set_next v6 j m))"
proof (cases "2 \<le> pool_last r v6")
  case True
  from allocate_loop_scan [OF r True m, of "Suc (length (by_ip m))"]
  show ?thesis
  proof (elim disjE bexE exE conjE, goal_cases)
    case (1 k)
    then show ?thesis unfolding fake_allocate_def pool_def
      by (intro disjI1 bexI [of _ "pool_address r v6 k"] exI [of _ "k + 1"]) auto
  next
    case (2 j)
    have "card (dom (map_of (by_ip m))) < Suc (length (by_ip m))"
      by (metis card_length dom_map_of_conv_image_fst le_imp_less_Suc length_map list.set_map)
    with 2 have "pool r v6 \<subseteq> dom (map_of (by_ip m))" unfolding pool_def
      by (intro scan_covers [OF True finite_dom_map_of _ pool_address_inj [OF r]]) auto
    with 2 show ?thesis unfolding fake_allocate_def by blast
  qed
next
  case False
  have same: "m = set_next v6 (pool_next v6 m) m" by (simp add: set_next_def pool_next_def)
  have "\<exists>e. fake_allocate r v6 m = (Fail e, m)"
    using False by (auto simp: fake_allocate_def fake_next_def pool_last_def split: if_splits)
  moreover have "pool r v6 = {}" using False by (simp add: pool_def)
  ultimately show ?thesis using m same by (metis empty_subsetI)
qed

end
