(* ===== verification/Fake_Runs.thy ===== *)
theory Fake_Runs
  imports Fake_Pool
begin

text \<open>
  The fake addresses over any run of the resolver: queries, saved mappings and changes of the
  capacity. The entries form a queue whose head is the mapping queried longest ago.
\<close>

subsection \<open>Runs\<close>

text \<open>\<^verbatim>\<open>Resolver::answer\<close> and \<^verbatim>\<open>import_fake\<close> name a host without final dots, in lower case.\<close>

definition query_name :: "string \<Rightarrow> string" where
  "query_name raw = to_ascii_lowercase (trim_end_matches CHR ''.'' raw)"

datatype fake_op = Query string bool | Restore "(string \<times> ip_addr) list" | Capacity nat

fun fake_step :: "(string \<Rightarrow> unit outcome) \<Rightarrow> fake_ranges \<Rightarrow> fake_op \<Rightarrow> fake_map \<Rightarrow> fake_map" where
  "fake_step absolute_name r (Query raw v6) m = snd (fake_address absolute_name r (query_name raw) v6 m)"
| "fake_step absolute_name r (Restore saved) m = snd (import_fake absolute_name r saved m)"
| "fake_step absolute_name r (Capacity cap) m = set_fake_capacity cap m"

definition fake_run :: "(string \<Rightarrow> unit outcome) \<Rightarrow> fake_ranges \<Rightarrow> fake_op list \<Rightarrow> fake_map" where
  "fake_run absolute_name r ops = fold (fake_step absolute_name r) ops (FakeMap_new FAKE_CAPACITY)"

text \<open>The mappings, queried longest ago first, and what a query makes of them.\<close>

definition fake_queue :: "fake_map \<Rightarrow> ((string \<times> bool) \<times> ip_addr) list" where
  "fake_queue m = map (\<lambda>(key, ip, _). (key, ip)) (lru m)"

definition queue_query ::
    "nat \<Rightarrow> string \<times> bool \<Rightarrow> ip_addr \<Rightarrow> ((string \<times> bool) \<times> ip_addr) list \<Rightarrow> ((string \<times> bool) \<times> ip_addr) list" where
  "queue_query cap key ip q =
     (if map_of q key \<noteq> None then filter (\<lambda>e. fst e \<noteq> key) q @ [(key, ip)]
      else (if cap \<le> length q then tl q else q) @ [(key, ip)])"

subsection \<open>The invariant\<close>

definition entry_ok :: "(string \<Rightarrow> unit outcome) \<Rightarrow> fake_ranges \<Rightarrow> (string \<times> bool) \<times> ip_addr \<times> nat \<Rightarrow> bool" where
  "entry_ok absolute_name r e =
     (case e of ((n, v6), ip, _) \<Rightarrow> ip \<in> pool r v6 \<and> absolute_name n = Done () \<and> query_name n = n)"

definition fake_inv :: "(string \<Rightarrow> unit outcome) \<Rightarrow> fake_ranges \<Rightarrow> fake_map \<Rightarrow> bool" where
  "fake_inv absolute_name r m \<longleftrightarrow>
     fake_ok m \<and> (\<forall>e\<in>set (lru m). entry_ok absolute_name r e) \<and>
     (\<forall>v6. 2 \<le> pool_next v6 m) \<and> 1 \<le> capacity m"

lemma by_name_lru: "fake_ok m \<Longrightarrow> map_of (by_name m) key = Some e \<longleftrightarrow> (key, e) \<in> set (lru m)"
  using fake_okD(1) [of m] by simp

lemma by_name_None:
  assumes "fake_ok m" "\<And>ip st. (key, ip, st) \<notin> set (lru m)"
  shows "map_of (by_name m) key = None"
  using by_name_lru [OF assms(1), of key] assms(2) by (cases "map_of (by_name m) key") auto

lemma by_ip_lru:
  assumes "fake_ok m"
  shows "map_of (by_ip m) ip = Some n \<longleftrightarrow> (\<exists>st. ((n, is_ipv6 ip), ip, st) \<in> set (lru m))"
  using fake_okD(4,6) [OF assms] by_name_lru [OF assms] by blast

lemma length_lru [simp]: "length (lru m) = length (by_name m)"
  by (simp add: lru_def)

lemma set_next_ok:
  "fake_ok (set_next v6 k m) = fake_ok m" "lru (set_next v6 k m) = lru m"
  by (simp_all add: fake_ok_def lru_def)

lemma pool_next_evict [simp]: "fake_ok m \<Longrightarrow> pool_next v6 (fake_evict m) = pool_next v6 m"
  by (simp add: pool_next_def fake_evict_spec)

lemma fake_get_next:
  "pool_next v6 (snd (fake_get key m)) = pool_next v6 m" "capacity (snd (fake_get key m)) = capacity m"
  by (simp_all add: fake_get_def fake_compact_def pool_next_def Let_def split: option.splits prod.splits)

lemma fake_insert_next:
  "pool_next v6 (fake_insert n ip m) = pool_next v6 m" "capacity (fake_insert n ip m) = capacity m"
  by (simp_all add: fake_insert_def pool_next_def Let_def)

text \<open>What an operation does to the queue of entries.\<close>

lemma fake_inv_lru:
  assumes "fake_inv absolute_name r m" "fake_ok m'" "capacity m' = capacity m"
    and "\<And>v6. 2 \<le> pool_next v6 m'"
    and "\<And>e. e \<in> set (lru m') \<Longrightarrow> e \<in> set (lru m) \<or> entry_ok absolute_name r e"
  shows "fake_inv absolute_name r m'"
  using assms unfolding fake_inv_def by metis

subsection \<open>A query\<close>

text \<open>The three ways a query goes: a known name, a new name, and a pool without a free address.\<close>

lemma fake_address_known:
  assumes inv: "fake_inv absolute_name r m" and n: "absolute_name n = Done ()"
    and known: "((n, v6), ip, st) \<in> set (lru m)"
  obtains m' where "fake_address absolute_name r n v6 m = (Done ip, m')" "fake_inv absolute_name r m'"
    "capacity m' = capacity m" "by_ip m' = by_ip m"
    "lru m' = filter (\<lambda>e. fst e \<noteq> (n, v6)) (lru m) @ [((n, v6), ip, stamp m + 1)]"
proof -
  have ok: "fake_ok m" using inv by (simp add: fake_inv_def)
  have key: "map_of (by_name m) (n, v6) = Some (ip, st)" using known by_name_lru [OF ok] by simp
  let ?m = "snd (fake_get (n, v6) m)"
  note g = fake_get_spec [OF ok, of n v6]
  have lru: "lru ?m = filter (\<lambda>e. fst e \<noteq> (n, v6)) (lru m) @ [((n, v6), ip, stamp m + 1)]"
    and ip: "fst (fake_get (n, v6) m) = Some ip" using g key by simp_all
  have "fake_address absolute_name r n v6 m = (Done ip, ?m)"
    using n ip by (cases "fake_get (n, v6) m") (simp add: fake_address_def)
  moreover have "entry_ok absolute_name r ((n, v6), ip, stamp m + 1)"
    using inv known unfolding fake_inv_def entry_ok_def by fastforce
  then have "fake_inv absolute_name r ?m"
    using g inv lru by (intro fake_inv_lru [OF inv]) (auto simp: fake_get_next fake_inv_def)
  ultimately show ?thesis using that g lru by simp
qed

definition make_room :: "fake_map \<Rightarrow> fake_map" where
  "make_room m = (if capacity m \<le> length (by_name m) then fake_evict m else m)"

lemma make_room_spec:
  assumes "fake_ok m"
  shows "fake_ok (make_room m)" "capacity (make_room m) = capacity m" "stamp (make_room m) = stamp m"
    "pool_next v6 (make_room m) = pool_next v6 m"
    "lru (make_room m) = (if capacity m \<le> length (lru m) then tl (lru m) else lru m)"
  using assms fake_evict_spec [OF assms] by (simp_all add: make_room_def)

lemma make_room_subset: "fake_ok m \<Longrightarrow> set (lru (make_room m)) \<subseteq> set (lru m)"
  using list.set_sel(2) [of "lru m"] by (cases "lru m") (auto simp: make_room_spec simp del: set_lru)

lemma fake_address_new:
  assumes inv: "fake_inv absolute_name r m" and r: "ranges_ok r"
    and n: "absolute_name n = Done ()" "query_name n = n"
    and new: "\<And>ip st. ((n, v6), ip, st) \<notin> set (lru m)"
  obtains (fresh) ip m' where "fake_address absolute_name r n v6 m = (Done ip, m')" "fake_inv absolute_name r m'"
      "capacity m' = capacity m" "ip \<in> pool r v6" "map_of (by_ip (make_room m)) ip = None"
      "lru m' = lru (make_room m) @ [((n, v6), ip, stamp m + 1)]"
    | (exhausted) e m' where "fake_address absolute_name r n v6 m = (Fail e, m')" "fake_inv absolute_name r m'"
      "capacity m' = capacity m" "lru m' = lru (make_room m)" "pool r v6 \<subseteq> dom (map_of (by_ip (make_room m)))"
proof -
  have ok: "fake_ok m" and nxt: "\<And>v. 2 \<le> pool_next v m" using inv by (simp_all add: fake_inv_def)
  note R = make_room_spec [OF ok] and sub = make_room_subset [OF ok]
  have key: "map_of (by_name m) (n, v6) = None" "map_of (by_name (make_room m)) (n, v6) = None"
    using new sub by (auto intro!: by_name_None [OF ok] by_name_None [OF R(1)] simp del: set_lru)
  then have get: "fake_get (n, v6) m = (None, m)" by (simp add: fake_get_def)
  have nxt': "2 \<le> pool_next v (set_next v6 j (make_room m))" if "2 \<le> j" for v j
    using nxt R(4) that by (cases "v = v6") simp_all
  have "2 \<le> pool_next v6 (make_room m)" using nxt R(4) by simp
  from fake_allocate_spec [OF r this] show ?thesis
  proof (elim disjE bexE exE conjE, goal_cases)
    case (1 ip j)
    let ?m = "set_next v6 j (make_room m)"
    have ip: "is_ipv6 ip = v6" using 1 pool_is_ipv6 by blast
    note I = fake_insert_spec [of ?m ip n, unfolded ip]
    have "fake_address absolute_name r n v6 m = (Done ip, fake_insert n ip ?m)"
      using n get 1 by (simp add: fake_address_def make_room_def Let_def)
    moreover have "entry_ok absolute_name r ((n, v6), ip, stamp m + 1)" using 1 n by (simp add: entry_ok_def)
    then have "fake_inv absolute_name r (fake_insert n ip ?m)"
      using I key 1 R nxt' sub
      by (intro fake_inv_lru [OF inv]) (auto simp: set_next_ok fake_insert_next)
    ultimately show ?thesis using 1 I key R by (intro fresh) (auto simp: set_next_ok fake_insert_next)
  next
    case (2 e j)
    let ?m = "set_next v6 j (make_room m)"
    have "fake_address absolute_name r n v6 m = (Fail e, ?m)"
      using n get 2 by (simp add: fake_address_def make_room_def Let_def)
    moreover have "fake_inv absolute_name r ?m"
      using 2 R nxt' sub by (intro fake_inv_lru [OF inv]) (auto simp: set_next_ok)
    ultimately show ?thesis using 2 R by (intro exhausted [of e ?m]) (auto simp: set_next_ok)
  qed
qed

subsection \<open>Saved mappings and the capacity\<close>

lemma evict_while_spec:
  assumes "fake_ok m" "length (by_name m) \<le> k + capacity m"
  shows "fake_ok (evict_while k m) \<and> capacity (evict_while k m) = capacity m \<and>
    pool_next v6 (evict_while k m) = pool_next v6 m \<and>
    lru (evict_while k m) = drop (length (lru m) - capacity m) (lru m)"
  using assms
proof (induction k arbitrary: m)
  case (Suc k)
  note E = fake_evict_spec [OF Suc.prems(1)]
  have len: "length (by_name (fake_evict m)) = length (by_name m) - 1"
    using arg_cong [OF E(2), of length] by simp
  show ?case
  proof (cases "capacity m < length (by_name m)")
    case True
    have "length (lru (fake_evict m)) - capacity (fake_evict m) = length (lru m) - capacity m - 1"
      using len E(3) by simp
    moreover have "drop (length (lru m) - capacity m) (lru m) = drop (length (lru m) - capacity m - 1) (tl (lru m))"
      using True by (simp add: drop_Suc [symmetric] Suc_diff_Suc)
    ultimately show ?thesis
      using Suc.IH [OF E(1)] Suc.prems E(2,3) len True by (simp add: Suc.prems(1))
  qed (use Suc.prems in simp)
qed simp

lemma evict_surplus_spec:
  assumes "fake_ok m"
  shows "fake_ok (evict_surplus m)" "capacity (evict_surplus m) = capacity m"
    "pool_next v6 (evict_surplus m) = pool_next v6 m"
    "lru (evict_surplus m) = drop (length (lru m) - capacity m) (lru m)"
  using evict_while_spec [OF assms, of "length (by_name m)"] by (simp_all add: evict_surplus_def)

lemma query_name_idem [simp]: "query_name (query_name n) = query_name n"
  by (simp add: query_name_def)

lemma advance_past_pool:
  assumes r: "ranges_ok r" and ip: "is_pool_address r ip" and m: "advance_past r ip m = Done m'"
  shows "ip \<in> pool r (is_ipv6 ip) \<and> (\<exists>j\<ge>2. m' = set_next (is_ipv6 ip) j m)"
proof (cases ip)
  case (IpV4 a)
  have p: "snd (range4 r) \<le> LENGTH(32)" using r by (simp add: ranges_ok_def)
  let ?b = "prefix_low (fst (range4 r)) (snd (range4 r))"
  obtain k where k: "k < 2 ^ (32 - snd (range4 r))" "a = ?b + of_nat k"
    using ip word_between [OF p, of "fst (range4 r)" a] by (auto simp: IpV4 is_pool_address_def in_ranges_of_def)
  have u: "unat a = unat ?b + k" using prefix_offset_inj [OF p, of k] k by simp
  then have "k \<noteq> 2 ^ (32 - snd (range4 r)) - 1"
    using ip unat_prefix_high [OF p, of "fst (range4 r)"]
    by (auto simp: IpV4 is_pool_address_def word_unat_eq_iff)
  moreover have two: "2 \<le> k" "m' = m\<lparr>next4 := max (next4 m) (k + 1)\<rparr>"
    using m u by (auto simp: IpV4 advance_past_def Let_def out_ensure_def split: if_splits)
  ultimately have "k \<in> {2..pool_last r False}" using k(1) by (simp add: pool_last_def last4_def)
  then show ?thesis using k(2) two
    by (auto simp: IpV4 pool_def pool_address_def set_next_def intro!: exI [of _ "max (next4 m) (k + 1)"])
next
  case (IpV6 a)
  have p: "snd (range6 r) \<le> LENGTH(128)" using r by (simp add: ranges_ok_def)
  let ?b = "prefix_low (fst (range6 r)) (snd (range6 r))"
  obtain k where k: "k < 2 ^ (128 - snd (range6 r))" "a = ?b + of_nat k"
    using ip word_between [OF p, of "fst (range6 r)" a] by (auto simp: IpV6 is_pool_address_def in_ranges_of_def)
  have u: "unat a = unat ?b + k" using prefix_offset_inj [OF p, of k] k by simp
  moreover have two: "2 \<le> k" "m' = m\<lparr>next6 := max (next6 m) (k + 1)\<rparr>"
    using m u by (auto simp: IpV6 advance_past_def Let_def out_ensure_def split: if_splits)
  ultimately have "k \<in> {2..pool_last r True}" using k(1) last_less(2) [OF r] by simp
  then show ?thesis using k(2) two
    by (auto simp: IpV6 pool_def pool_address_def set_next_def intro!: exI [of _ "max (next6 m) (k + 1)"])
qed

lemma import_loop_inv:
  assumes r: "ranges_ok r"
  shows "fake_inv absolute_name r m \<Longrightarrow> import_loop absolute_name r saved m = Done m' \<Longrightarrow>
    fake_inv absolute_name r m' \<and> capacity m' = capacity m"
proof (induction saved arbitrary: m)
  case (Cons e saved)
  obtain raw ip where e: "e = (raw, ip)" by fastforce
  let ?n = "query_name raw"
  show ?case
  proof (cases "is_pool_address r ip")
    case True
    then obtain m1 where m1: "advance_past r ip m = Done m1"
      using Cons.prems(2) by (auto simp: e Let_def out_then_def split: outcome.splits)
    from advance_past_pool [OF r True m1] obtain j
      where j: "ip \<in> pool r (is_ipv6 ip)" "2 \<le> j" "m1 = set_next (is_ipv6 ip) j m" by blast
    have nxt: "2 \<le> pool_next v m1" for v
      using Cons.prems(1) j by (cases "v = is_ipv6 ip") (auto simp: fake_inv_def)
    have inv1: "fake_inv absolute_name r m1"
      using Cons.prems(1) nxt j by (auto simp: fake_inv_def set_next_ok)
    show ?thesis
    proof (cases "absolute_name ?n = Done ()")
      case named: True
      then have "map_of (by_ip m1) ip = None" "map_of (by_name m1) (?n, is_ipv6 ip) = None"
        and rest: "import_loop absolute_name r saved (fake_insert ?n ip m1) = Done m'"
        using Cons.prems(2) True m1
        by (auto simp: e out_then_def out_ensure_def Let_def query_name_def split: if_splits)
      note I = fake_insert_spec [OF _ this(1,2)]
      have "fake_inv absolute_name r (fake_insert ?n ip m1)"
        using inv1 I nxt j named by (intro fake_inv_lru [OF inv1]) (auto simp: fake_insert_next fake_inv_def entry_ok_def)
      from Cons.IH [OF this rest] j show ?thesis by (simp add: fake_insert_next)
    next
      case False
      with Cons.prems(2) True m1 have "import_loop absolute_name r saved m1 = Done m'"
        by (simp add: e out_then_def Let_def query_name_def)
      from Cons.IH [OF inv1 this] j show ?thesis by simp
    qed
  next
    case False
    with Cons.prems have "import_loop absolute_name r saved m = Done m'" by (simp add: e Let_def)
    with Cons.IH [OF Cons.prems(1)] show ?thesis by blast
  qed
qed simp

lemma FakeMap_new_inv: "1 \<le> cap \<Longrightarrow> fake_inv absolute_name r (FakeMap_new cap)"
  using FakeMap_new_ok by (simp add: fake_inv_def) (simp add: FakeMap_new_def pool_next_def)

lemma evict_surplus_inv:
  assumes "fake_inv absolute_name r m"
  shows "fake_inv absolute_name r (evict_surplus m)" "length (by_name (evict_surplus m)) \<le> capacity (evict_surplus m)"
proof -
  have ok: "fake_ok m" using assms by (simp add: fake_inv_def)
  note E = evict_surplus_spec [OF ok]
  show "fake_inv absolute_name r (evict_surplus m)"
    using assms E
    by (intro fake_inv_lru [OF assms]) (auto simp: fake_inv_def simp del: set_lru dest: in_set_dropD)
  show "length (by_name (evict_surplus m)) \<le> capacity (evict_surplus m)"
    using arg_cong [OF E(4), of length] E(2) by simp
qed

definition fake_good :: "(string \<Rightarrow> unit outcome) \<Rightarrow> fake_ranges \<Rightarrow> fake_map \<Rightarrow> bool" where
  "fake_good absolute_name r m \<longleftrightarrow> fake_inv absolute_name r m \<and> length (lru m) \<le> capacity m"

lemma generation_good: "fake_good absolute_name r (m\<lparr>generation := g\<rparr>) = fake_good absolute_name r m"
  by (simp add: fake_good_def fake_inv_def fake_ok_def lru_def pool_next_def)

lemma import_fake_good:
  assumes r: "ranges_ok r" and m: "fake_good absolute_name r m"
  shows "fake_good absolute_name r (snd (import_fake absolute_name r saved m))"
proof (cases "length saved \<le> FAKE_CAPACITY \<and> (\<exists>m'. import_loop absolute_name r saved (FakeMap_new (capacity m)) = Done m')")
  case True
  then obtain m' where loop: "import_loop absolute_name r saved (FakeMap_new (capacity m)) = Done m'" by blast
  have "fake_inv absolute_name r (FakeMap_new (capacity m))"
    using m by (intro FakeMap_new_inv) (simp add: fake_good_def fake_inv_def)
  from import_loop_inv [OF r this loop] evict_surplus_inv [of absolute_name r m'] loop True show ?thesis
    by (simp add: import_fake_def generation_good) (simp add: fake_good_def)
next
  case False
  then show ?thesis using m by (auto simp: import_fake_def split: outcome.splits)
qed

lemma capacity_fields: "fake_ok (m\<lparr>capacity := c\<rparr>) = fake_ok m" "lru (m\<lparr>capacity := c\<rparr>) = lru m"
  by (simp_all add: fake_ok_def lru_def)

lemma set_fake_capacity_good:
  assumes "fake_good absolute_name r m"
  shows "fake_good absolute_name r (set_fake_capacity cap m)"
proof -
  have "fake_inv absolute_name r (m\<lparr>capacity := max cap 1\<rparr>)"
    using assms by (auto simp: fake_good_def fake_inv_def capacity_fields pool_next_def split: if_splits)
  from evict_surplus_inv [OF this] show ?thesis by (simp add: set_fake_capacity_def fake_good_def)
qed

lemma make_room_length: "fake_good absolute_name r m \<Longrightarrow> length (lru (make_room m)) < capacity m"
  by (auto simp: fake_good_def fake_inv_def make_room_spec)

lemma fake_address_good:
  assumes r: "ranges_ok r" and m: "fake_good absolute_name r m" and n: "query_name n = n"
  shows "fake_good absolute_name r (snd (fake_address absolute_name r n v6 m))"
proof (cases "absolute_name n = Done ()")
  case named: True
  have inv: "fake_inv absolute_name r m" using m by (simp add: fake_good_def)
  show ?thesis
  proof (cases "\<exists>ip st. ((n, v6), ip, st) \<in> set (lru m)")
    case True
    then obtain ip st where known: "((n, v6), ip, st) \<in> set (lru m)" by blast
    then have "length (filter (\<lambda>e. fst e \<noteq> (n, v6)) (lru m)) < length (lru m)"
      by (intro length_filter_less) auto
    with m show ?thesis
      by - (rule fake_address_known [OF inv named known], simp add: fake_good_def)
  next
    case False
    then have new: "((n, v6), ip, st) \<notin> set (lru m)" for ip st by blast
    from make_room_length [OF m] show ?thesis
      by - (rule fake_address_new [OF inv r named n new], simp_all add: fake_good_def)
  qed
next
  case False
  with m show ?thesis by (cases "absolute_name n") (simp_all add: fake_address_def)
qed

lemma fake_run_good:
  assumes r: "ranges_ok r"
  shows "fake_good absolute_name r (fake_run absolute_name r ops)"
proof -
  have "fake_good absolute_name r (fake_step absolute_name r op m)" if "fake_good absolute_name r m" for op m
    using that fake_address_good [OF r] import_fake_good [OF r] set_fake_capacity_good by (cases op) simp_all
  moreover have "fake_good absolute_name r (FakeMap_new FAKE_CAPACITY)"
    using FakeMap_new_inv [of FAKE_CAPACITY]
    by (simp add: fake_good_def FAKE_CAPACITY_def) (simp add: FakeMap_new_def)
  ultimately show ?thesis unfolding fake_run_def by (rule fold_invariant [where Q = "\<lambda>_. True", simplified, rotated])
qed

subsection \<open>The saved mappings come back\<close>

lemma advance_past_Done:
  assumes r: "ranges_ok r" and ip: "ip \<in> pool r (is_ipv6 ip)"
  shows "\<exists>j\<ge>2. advance_past r ip m = Done (set_next (is_ipv6 ip) j m)"
proof -
  obtain k where k: "2 \<le> k" "k \<le> pool_last r (is_ipv6 ip)" "ip = pool_address r (is_ipv6 ip) k"
    using ip by (auto simp: pool_def)
  note u = pool_address_unat [OF r k(2), folded k(3)]
  show ?thesis
  proof (cases ip)
    case (IpV4 a)
    with u k(1) show ?thesis
      by (auto simp: advance_past_def out_ensure_def set_next_def intro!: exI [of _ "max (next4 m) (k + 1)"])
  next
    case (IpV6 a)
    have "(2::nat) ^ (128 - snd (range6 r)) < 2 ^ 128"
      using r by (intro power_strict_increasing) (auto simp: ranges_ok_def)
    with last_less(2) [OF r] k(2) IpV6 have "k + 1 < 2 ^ 128" by simp
    with u k(1) IpV6 show ?thesis
      by (auto simp: advance_past_def out_ensure_def set_next_def intro!: exI [of _ "max (next6 m) (k + 1)"])
  qed
qed

definition saved_key :: "string \<times> ip_addr \<Rightarrow> (string \<times> bool) \<times> ip_addr" where
  "saved_key e = ((fst e, is_ipv6 (snd e)), snd e)"

lemma fake_queue_insert:
  assumes "fake_ok m" "map_of (by_ip m) ip = None" "map_of (by_name m) (n, is_ipv6 ip) = None"
  shows "fake_queue (fake_insert n ip m) = fake_queue m @ [saved_key (n, ip)]"
  using fake_insert_spec(2) [OF assms] by (simp add: fake_queue_def saved_key_def)

lemma import_loop_queue:
  assumes r: "ranges_ok r"
  shows "fake_inv absolute_name r m \<Longrightarrow>
    \<forall>e\<in>set saved. entry_ok absolute_name r ((fst e, is_ipv6 (snd e)), snd e, 0) \<Longrightarrow>
    distinct (map fst (map saved_key saved)) \<Longrightarrow> distinct (map snd (map saved_key saved)) \<Longrightarrow>
    \<forall>e\<in>set saved. map_of (by_ip m) (snd e) = None \<and> map_of (by_name m) (fst (saved_key e)) = None \<Longrightarrow>
    \<exists>m'. import_loop absolute_name r saved m = Done m' \<and> fake_queue m' = fake_queue m @ map saved_key saved"
proof (induction saved arbitrary: m)
  case (Cons e saved)
  obtain n ip where e: "e = (n, ip)" by fastforce
  have en: "ip \<in> pool r (is_ipv6 ip)" "absolute_name n = Done ()" "query_name n = n"
    and free: "map_of (by_ip m) ip = None" "map_of (by_name m) (n, is_ipv6 ip) = None"
    using Cons.prems(2,5) by (simp_all add: e entry_ok_def saved_key_def)
  obtain j where j: "2 \<le> j" "advance_past r ip m = Done (set_next (is_ipv6 ip) j m)"
    using advance_past_Done [OF r en(1)] by blast
  let ?m1 = "set_next (is_ipv6 ip) j m"
  let ?m2 = "fake_insert n ip ?m1"
  have pool: "is_pool_address r ip" by (rule pool_is_pool_address [OF r en(1)])
  have nm: "to_ascii_lowercase (trim_end_matches CHR ''.'' n) = n" using en(3) by (simp add: query_name_def)
  have step: "import_loop absolute_name r [e] m = Done ?m2"
    "import_loop absolute_name r (e # saved) m = import_loop absolute_name r saved ?m2"
    using pool j en(2) nm free by (simp_all add: e Let_def out_then_def out_ensure_def)
  have ok: "fake_ok ?m1" using Cons.prems(1) by (simp add: fake_inv_def set_next_ok)
  have inv: "fake_inv absolute_name r ?m2" using import_loop_inv [OF r Cons.prems(1) step(1)] by blast
  have queue: "fake_queue ?m2 = fake_queue m @ [saved_key e]"
    using fake_queue_insert [OF ok] free by (simp add: e) (simp add: fake_queue_def set_next_ok)
  have maps: "map_of (by_ip ?m2) = (map_of (by_ip m))(ip \<mapsto> n)"
    "map_of (by_name ?m2) = (map_of (by_name m))((n, is_ipv6 ip) \<mapsto> (ip, stamp m + 1))"
    by (simp_all add: fake_insert_def Let_def update_conv')
  have "\<forall>f\<in>set saved. map_of (by_ip ?m2) (snd f) = None \<and> map_of (by_name ?m2) (fst (saved_key f)) = None"
  proof
    fix f assume f: "f \<in> set saved"
    then have "snd f \<noteq> ip" "fst (saved_key f) \<noteq> (n, is_ipv6 ip)"
      using Cons.prems(3,4) by (auto simp: e saved_key_def)
    with f Cons.prems(5) show "map_of (by_ip ?m2) (snd f) = None \<and> map_of (by_name ?m2) (fst (saved_key f)) = None"
      by (simp add: maps)
  qed
  with Cons.IH [OF inv] Cons.prems(2-4) have "\<exists>m'. import_loop absolute_name r saved ?m2 = Done m' \<and>
      fake_queue m' = fake_queue ?m2 @ map saved_key saved" by simp
  then show ?case unfolding step queue by simp
qed simp

end
