(* ===== verification/Fake_Props.thy ===== *)
theory Fake_Props
  imports Fake_Runs
begin

text \<open>What the fake addresses promise, over every run of the resolver.\<close>

lemma fake_run_facts:
  assumes "ranges_ok r"
  shows "fake_inv absolute_name r (fake_run absolute_name r ops)" "fake_ok (fake_run absolute_name r ops)"
    "fake_good absolute_name r (fake_run absolute_name r ops)" "2 \<le> pool_next v6 (fake_run absolute_name r ops)"
  using fake_run_good [OF assms, of absolute_name ops] by (simp_all add: fake_good_def fake_inv_def)

lemma original_lru:
  "fake_ok m \<Longrightarrow> original m ip = Some n \<longleftrightarrow> (\<exists>st. ((n, is_ipv6 ip), ip, st) \<in> set (lru m))"
  by (simp only: original_def by_ip_lru)

lemma fake_name_accepted: "fake_address absolute_name r n v6 m = (Done ip, m') \<Longrightarrow> absolute_name n = Done ()"
  by (cases "absolute_name n") (simp_all add: fake_address_def)

lemma queue_key: "map_of (fake_queue m) key \<noteq> None \<longleftrightarrow> (\<exists>ip st. (key, ip, st) \<in> set (lru m))"
  by (force simp: map_of_eq_None_iff fake_queue_def image_iff simp del: not_None_eq set_lru)

lemma length_queue [simp]: "length (fake_queue m) = length (by_name m)"
  by (simp add: fake_queue_def)

lemma queue_distinct:
  assumes "fake_ok m"
  shows "distinct (map fst (fake_queue m))"
proof -
  have "distinct (by_name m)" "inj_on fst (set (by_name m))" using fake_okD(1) [OF assms] by (simp_all add: distinct_map)
  then have "distinct (map fst (lru m))" by (simp add: distinct_map) (simp add: lru_def)
  then show ?thesis by (simp add: fake_queue_def comp_def split_beta)
qed

lemma queue_distinct_ips:
  assumes "fake_ok m"
  shows "distinct (map snd (fake_queue m))"
proof -
  have "inj_on (\<lambda>e. fst (snd e)) (set (lru m))"
  proof (rule inj_onI)
    fix e f assume ef: "e \<in> set (lru m)" "f \<in> set (lru m)" "fst (snd e) = fst (snd f)"
    obtain n v ip st where e: "e = ((n, v), ip, st)" by (metis prod.collapse)
    obtain n' v' st' where f: "f = ((n', v'), ip, st')" using ef(3) e by (metis fst_conv prod.collapse snd_conv)
    have at: "map_of (by_name m) (n, v) = Some (ip, st)" "map_of (by_name m) (n', v') = Some (ip, st')"
      using ef(1,2) by (simp_all only: by_name_lru [OF assms] e f)
    with fake_okD(3,4) [OF assms at(1)] fake_okD(3,4) [OF assms at(2)] show "e = f" by (simp add: e f)
  qed
  moreover have "distinct (lru m)" using fake_okD(1) [OF assms] by (simp add: lru_def distinct_map)
  ultimately have "distinct (map (\<lambda>e. fst (snd e)) (lru m))" by (simp only: distinct_map)
  then show ?thesis by (simp add: fake_queue_def comp_def split_beta)
qed

lemma export_of_queue: "fake_export m = map (\<lambda>(key, ip). (fst key, ip)) (fake_queue m)"
  by (simp add: fake_export_lru fake_queue_def split_beta)

lemma export_entries:
  assumes "fake_inv absolute_name r m"
  shows "\<forall>e\<in>set (fake_export m). entry_ok absolute_name r ((fst e, is_ipv6 (snd e)), snd e, 0)"
  using assms pool_is_ipv6 by (fastforce simp: fake_inv_def entry_ok_def fake_export_lru simp del: set_lru)

lemma export_queue:
  assumes "fake_inv absolute_name r m"
  shows "map saved_key (fake_export m) = fake_queue m"
  using assms pool_is_ipv6
  by (fastforce simp: fake_inv_def entry_ok_def fake_export_lru fake_queue_def saved_key_def simp del: set_lru)

text \<open>A successful query, in one statement: what it does to the entries.\<close>

lemma fake_address_Done:
  assumes inv: "fake_inv absolute_name r m" and r: "ranges_ok r" and n: "query_name n = n"
    and q: "fake_address absolute_name r n v6 m = (Done ip, m')"
  obtains st where "fake_inv absolute_name r m'" "ip \<in> pool r v6" "absolute_name n = Done ()"
    "((n, v6), ip, st) \<in> set (lru m')"
    "\<forall>e\<in>set (lru m'). e \<in> set (lru m) \<or> e = ((n, v6), ip, st)"
    "fake_queue m' = queue_query (capacity m) (n, v6) ip (fake_queue m)"
    "map_of (fake_queue m) (n, v6) \<noteq> None \<longrightarrow> ((n, v6), ip) \<in> set (fake_queue m)"
proof -
  note named = fake_name_accepted [OF q]
  have ok: "fake_ok m" using inv by (simp add: fake_inv_def)
  show ?thesis
  proof (cases "\<exists>ip st. ((n, v6), ip, st) \<in> set (lru m)")
    case True
    then obtain ip' st where known: "((n, v6), ip', st) \<in> set (lru m)" by blast
    from fake_address_known [OF inv named known] q
    have m': "ip' = ip" "fake_inv absolute_name r m'"
      "lru m' = filter (\<lambda>e. fst e \<noteq> (n, v6)) (lru m) @ [((n, v6), ip, stamp m + 1)]" by fastforce+
    have "ip \<in> pool r v6" using inv known m'(1) by (fastforce simp: fake_inv_def entry_ok_def)
    moreover have "fake_queue m' = queue_query (capacity m) (n, v6) ip (fake_queue m)"
      using True by (auto simp: queue_query_def queue_key simp del: set_lru not_None_eq)
        (simp add: fake_queue_def m'(3) filter_map comp_def split_beta)
    moreover have "((n, v6), ip) \<in> set (fake_queue m)"
      using known m'(1) by (force simp: fake_queue_def simp del: set_lru)
    ultimately show ?thesis using that [of "stamp m + 1"] m' named by (auto simp del: set_lru)
  next
    case False
    then have new: "((n, v6), ip, st) \<notin> set (lru m)" for ip st by blast
    from fake_address_new [OF inv r named n new] q
    have m': "fake_inv absolute_name r m'" "ip \<in> pool r v6"
      "lru m' = lru (make_room m) @ [((n, v6), ip, stamp m + 1)]" by fastforce+
    have "fake_queue m' = queue_query (capacity m) (n, v6) ip (fake_queue m)"
      using False by (auto simp: queue_query_def queue_key simp del: set_lru not_None_eq)
        (auto simp: fake_queue_def m'(3) make_room_spec [OF ok] map_tl)
    with False m' make_room_subset [OF ok] show ?thesis
      by (intro that [of "stamp m + 1"]) (auto simp: named queue_key simp del: set_lru not_None_eq)
  qed
qed

definition sample_ranges :: fake_ranges where
  "sample_ranges = \<lparr>range4 = (0xC6120000, 29), range6 = (0xFDFEDCBA987600000000000000000000, 64)\<rparr>"

lemma sample_ranges_ok: "ranges_ok sample_ranges"
  by (simp add: sample_ranges_def ranges_ok_def)

text \<open>
  C9. After any run of queries, restores and changes of the capacity, the two maps of
  \<^verbatim>\<open>FakeMap\<close> are inverse to each other: an address leads back to a name exactly when that name is
  answered with it. There are never more mappings than the capacity, and every mapped address
  lies in the configured pool and is of the family it was asked for.
\<close>

theorem fake_map_consistent:
  assumes "ranges_ok r" and m_def: "m = fake_run absolute_name r ops"
  shows "length (by_name m) \<le> capacity m \<and>
    (\<forall>ip n. original m ip = Some n \<longleftrightarrow> (\<exists>st. map_of (by_name m) (n, is_ipv6 ip) = Some (ip, st))) \<and>
    (\<forall>n v6 ip st. map_of (by_name m) (n, v6) = Some (ip, st) \<longrightarrow>
       ip \<in> pool r v6 \<and> is_pool_address r ip \<and> is_ipv6 ip = v6)"
proof (intro conjI allI impI)
  note F = fake_run_facts [OF assms(1), where absolute_name = absolute_name and ops = ops, folded m_def]
  show "length (by_name m) \<le> capacity m" using F(3) by (simp add: fake_good_def)
  show "original m ip = Some n \<longleftrightarrow> (\<exists>st. map_of (by_name m) (n, is_ipv6 ip) = Some (ip, st))" for ip n
    by (simp only: original_lru [OF F(2)] by_name_lru [OF F(2)])
  fix n v6 ip st assume "map_of (by_name m) (n, v6) = Some (ip, st)"
  then show ip: "ip \<in> pool r v6" using F(1) by (fastforce simp: by_name_lru [OF F(2)] fake_inv_def entry_ok_def)
  show "is_pool_address r ip" by (rule pool_is_pool_address [OF assms(1) ip])
  show "is_ipv6 ip = v6" by (rule pool_is_ipv6 [OF ip])
qed

theorem fake_map_consistent_witness:
  "length (by_name (fake_run (\<lambda>_. Done ()) sample_ranges [Query ''w.test.'' False, Capacity 1, Query ''b.test'' True]))
     \<le> capacity (fake_run (\<lambda>_. Done ()) sample_ranges [Query ''w.test.'' False, Capacity 1, Query ''b.test'' True])"
  by (rule conjunct1 [OF fake_map_consistent [OF sample_ranges_ok refl]])

text \<open>
  C8. A fake answer restores to its name: when a query is answered with an address, that
  address leads back to the queried name, it lies in the pool, asking again gives the same
  address, and every other address that leads to a name led to the same name before.
\<close>

theorem fake_answer_restores:
  assumes "ranges_ok r"
    and "fake_address absolute_name r (query_name raw) v6 (fake_run absolute_name r ops) = (Done ip, m')"
  shows "original m' ip = Some (query_name raw) \<and> ip \<in> pool r v6 \<and> is_ipv6 ip = v6 \<and>
    fst (fake_address absolute_name r (query_name raw) v6 m') = Done ip \<and>
    (\<forall>a n. a \<noteq> ip \<and> original m' a = Some n \<longrightarrow> original (fake_run absolute_name r ops) a = Some n)"
proof -
  note F = fake_run_facts [OF assms(1), where absolute_name = absolute_name and ops = ops]
  obtain st where D: "fake_inv absolute_name r m'" "ip \<in> pool r v6" "absolute_name (query_name raw) = Done ()"
    "((query_name raw, v6), ip, st) \<in> set (lru m')"
    "\<forall>e\<in>set (lru m'). e \<in> set (lru (fake_run absolute_name r ops)) \<or> e = ((query_name raw, v6), ip, st)"
    by (rule fake_address_Done [OF F(1) assms(1) query_name_idem assms(2)]) (rule that)
  have ok: "fake_ok m'" using D(1) by (simp add: fake_inv_def)
  have v: "is_ipv6 ip = v6" by (rule pool_is_ipv6 [OF D(2)])
  have "original m' ip = Some (query_name raw)" using D(4) by (auto simp: original_lru [OF ok] v simp del: set_lru)
  moreover have "fst (fake_address absolute_name r (query_name raw) v6 m') = Done ip"
    by (rule fake_address_known [OF D(1,3,4)]) simp
  moreover have "original (fake_run absolute_name r ops) a = Some n" if a: "a \<noteq> ip" "original m' a = Some n" for a n
  proof -
    obtain t where "((n, is_ipv6 a), a, t) \<in> set (lru m')" using a(2) original_lru [OF ok] by blast
    from bspec [OF D(5) this] a(1) show ?thesis by (auto simp: original_lru [OF F(2)] simp del: set_lru)
  qed
  ultimately show ?thesis using D(2) v by blast
qed

definition sample_map :: fake_map where
  "sample_map = \<lparr>by_name = [((''w.test'', False), IpV4 0xC6120002, 1)], by_ip = [(IpV4 0xC6120002, ''w.test'')],
     order = [(IpV4 0xC6120002, 1)], stamp = 1, next4 = 3, next6 = 2, capacity = 32768, generation = 1\<rparr>"

lemma sample_query:
  "fake_address (\<lambda>_. Done ()) sample_ranges (query_name ''w.test.'') False (fake_run (\<lambda>_. Done ()) sample_ranges []) =
    (Done (IpV4 0xC6120002), sample_map)"
proof -
  have "query_name ''w.test.'' = ''w.test''"
    by (simp add: query_name_def trim_end_matches_def to_ascii_lowercase_def ascii_lower_def)
  then show ?thesis
    by (simp add: fake_run_def fake_address_def fake_get_def FakeMap_new_def FAKE_CAPACITY_def fake_allocate_def
        fake_next_def last4_def sample_ranges_def prefix_low_def fake_insert_def sample_map_def)
qed

theorem fake_answer_restores_witness:
  "original sample_map (IpV4 0xC6120002) = Some (query_name ''w.test.'')"
  using fake_answer_restores [OF sample_ranges_ok sample_query] by blast

text \<open>
  C10. The mappings are a least-recently-queried queue: a successful query moves a known name
  to the end with its address, and puts a new one at the end after dropping the first when the
  queue is as long as the capacity. Lowering the capacity drops from the front. What is saved
  is this queue.
\<close>

theorem fake_queue_refines:
  assumes "ranges_ok r" and m: "m = fake_run absolute_name r ops"
  shows "fake_export m = map (\<lambda>(key, ip). (fst key, ip)) (fake_queue m) \<and>
    (\<forall>raw v6 ip m'. fake_address absolute_name r (query_name raw) v6 m = (Done ip, m') \<longrightarrow>
       fake_queue m' = queue_query (capacity m) (query_name raw, v6) ip (fake_queue m) \<and>
       (map_of (fake_queue m) (query_name raw, v6) \<noteq> None \<longrightarrow>
          map_of (fake_queue m) (query_name raw, v6) = Some ip)) \<and>
    (\<forall>cap. fake_queue (set_fake_capacity cap m) = drop (length (fake_queue m) - max cap 1) (fake_queue m))"
proof (intro conjI allI impI)
  note F = fake_run_facts [OF assms(1), where absolute_name = absolute_name and ops = ops, folded m]
  show "fake_export m = map (\<lambda>(key, ip). (fst key, ip)) (fake_queue m)"
    by (rule export_of_queue)
  fix raw v6 ip m' assume q: "fake_address absolute_name r (query_name raw) v6 m = (Done ip, m')"
  obtain st where D: "fake_queue m' = queue_query (capacity m) (query_name raw, v6) ip (fake_queue m)"
    "map_of (fake_queue m) (query_name raw, v6) \<noteq> None \<longrightarrow> ((query_name raw, v6), ip) \<in> set (fake_queue m)"
    by (rule fake_address_Done [OF F(1) assms(1) query_name_idem q]) (rule that)
  show "fake_queue m' = queue_query (capacity m) (query_name raw, v6) ip (fake_queue m)" by (rule D(1))
  assume "map_of (fake_queue m) (query_name raw, v6) \<noteq> None"
  from mp [OF D(2) this] show "map_of (fake_queue m) (query_name raw, v6) = Some ip"
    by (intro map_of_is_SomeI) (simp_all add: queue_distinct [OF F(2)])
next
  note F = fake_run_facts [OF assms(1), where absolute_name = absolute_name and ops = ops, folded m]
  fix cap
  have ok: "fake_ok (m\<lparr>capacity := max cap 1\<rparr>)" using F(2) by (simp add: capacity_fields)
  show "fake_queue (set_fake_capacity cap m) = drop (length (fake_queue m) - max cap 1) (fake_queue m)"
    unfolding set_fake_capacity_def fake_queue_def evict_surplus_spec(4) [OF ok] capacity_fields
    by (simp add: drop_map)
qed

theorem fake_queue_refines_witness:
  "fake_queue sample_map = queue_query 32768 (query_name ''w.test.'', False) (IpV4 0xC6120002) []"
proof -
  note all = fake_queue_refines [OF sample_ranges_ok refl, of "\<lambda>_. Done ()" "[]"]
  note q = conjunct1 [OF conjunct2 [OF all], rule_format, OF sample_query, THEN conjunct1]
  have new: "fake_queue (fake_run (\<lambda>_. Done ()) sample_ranges []) = []"
    "capacity (fake_run (\<lambda>_. Done ()) sample_ranges []) = 32768"
    by (simp_all add: fake_queue_def lru_def fake_run_def FakeMap_new_def FAKE_CAPACITY_def)
  show ?thesis using q by (simp only: new)
qed

text \<open>
  C11. The scan of \<^verbatim>\<open>allocate\<close>, which looks at one more address than there are mappings, is
  enough: it returns an address exactly when the pool of the family has one without a name, and
  what it returns is such an address.
\<close>

theorem allocate_finds_free:
  assumes "ranges_ok r" and m: "m = fake_run absolute_name r ops"
  shows "((\<exists>ip m'. fake_allocate r v6 m = (Done ip, m')) \<longleftrightarrow> (\<exists>ip\<in>pool r v6. original m ip = None)) \<and>
    (\<forall>ip m'. fake_allocate r v6 m = (Done ip, m') \<longrightarrow> ip \<in> pool r v6 \<and> original m ip = None)"
  using fake_allocate_spec [OF assms(1) fake_run_facts(4) [OF assms(1), of v6 absolute_name ops, folded m]]
  by (elim disjE bexE exE conjE) (auto simp: original_def)

theorem allocate_finds_free_witness:
  "\<exists>ip m'. fake_allocate sample_ranges False (fake_run (\<lambda>_. Done ()) sample_ranges []) = (Done ip, m')"
proof -
  have "IpV4 0xC6120002 \<in> pool sample_ranges False"
    by (auto simp: pool_def pool_last_def last4_def pool_address_def sample_ranges_def prefix_low_def image_iff
        intro!: bexI [of _ 2])
  moreover have "original (fake_run (\<lambda>_. Done ()) sample_ranges []) ip = None" for ip
    by (simp add: original_def fake_run_def FakeMap_new_def)
  ultimately show ?thesis
    using conjunct1 [OF allocate_finds_free [OF sample_ranges_ok refl, of False "\<lambda>_. Done ()" "[]"]] by blast
qed

text \<open>
  C12. Saved mappings come back: importing what was exported succeeds, and the restored map
  holds the mappings in the same order, of which it keeps the most recently queried ones up to
  its own capacity.
\<close>

theorem saved_mappings_restored:
  assumes "ranges_ok r" and m: "m = fake_run absolute_name r ops" and m0: "m0 = fake_run absolute_name r ops0"
    and len: "length (fake_export m) \<le> FAKE_CAPACITY"
  shows "\<exists>m'. import_fake absolute_name r (fake_export m) m0 = (Done (), m') \<and>
    fake_export m' = drop (length (fake_export m) - capacity m0) (fake_export m)"
proof -
  note F = fake_run_facts [OF assms(1), where absolute_name = absolute_name and ops = ops, folded m]
  note G = fake_run_facts [OF assms(1), where absolute_name = absolute_name and ops = ops0, folded m0]
  let ?new = "FakeMap_new (capacity m0)"
  have queue: "map saved_key (fake_export m) = fake_queue m" by (rule export_queue [OF F(1)])
  have new: "fake_inv absolute_name r ?new" using G(1) by (intro FakeMap_new_inv) (simp add: fake_inv_def)
  have "\<exists>m1. import_loop absolute_name r (fake_export m) ?new = Done m1 \<and>
      fake_queue m1 = fake_queue ?new @ map saved_key (fake_export m)"
  proof (rule import_loop_queue [OF assms(1) new])
    show "\<forall>e\<in>set (fake_export m). entry_ok absolute_name r ((fst e, is_ipv6 (snd e)), snd e, 0)"
      by (rule export_entries [OF F(1)])
  qed (simp_all add: queue queue_distinct [OF F(2)] queue_distinct_ips [OF F(2)] FakeMap_new_def)
  then obtain m1 where m1: "import_loop absolute_name r (fake_export m) ?new = Done m1" "fake_queue m1 = fake_queue m"
    by (auto simp: queue) (simp add: fake_queue_def FakeMap_new_def lru_def)
  have inv1: "fake_inv absolute_name r m1" "capacity m1 = capacity m0"
    using import_loop_inv [OF assms(1) new m1(1)] by (simp_all add: FakeMap_new_def)
  have ok1: "fake_ok m1" using inv1(1) by (simp add: fake_inv_def)
  let ?m' = "(evict_surplus m1)\<lparr>generation := 0\<rparr>"
  have "import_fake absolute_name r (fake_export m) m0 = (Done (), ?m')"
    using len m1(1) by (simp add: import_fake_def)
  moreover have "fake_queue ?m' = drop (length (fake_queue m1) - capacity m0) (fake_queue m1)"
    using evict_surplus_spec(4) [OF ok1] by (simp add: fake_queue_def lru_def drop_map inv1(2))
  then have "fake_export ?m' = drop (length (fake_export m) - capacity m0) (fake_export m)"
    by (simp only: export_of_queue m1(2) length_map drop_map)
  ultimately show ?thesis by blast
qed

theorem saved_mappings_restored_witness:
  "\<exists>m'. import_fake (\<lambda>_. Done ()) sample_ranges [(''w.test'', IpV4 0xC6120002)] (fake_run (\<lambda>_. Done ()) sample_ranges []) =
      (Done (), m') \<and> fake_export m' = [(''w.test'', IpV4 0xC6120002)]"
proof -
  have run: "fake_run (\<lambda>_. Done ()) sample_ranges [Query ''w.test.'' False] = sample_map"
    using sample_query by (simp add: fake_run_def)
  have saved: "fake_export sample_map = [(''w.test'', IpV4 0xC6120002)]"
    by (simp add: fake_export_def sample_map_def)
  have "length (fake_export sample_map) \<le> FAKE_CAPACITY" by (simp add: saved FAKE_CAPACITY_def)
  from saved_mappings_restored [OF sample_ranges_ok run [symmetric] refl this, of "[]"]
  show ?thesis by (simp add: saved) (simp add: fake_run_def FakeMap_new_def FAKE_CAPACITY_def)
qed

text \<open>
  The comment on \<^verbatim>\<open>FakeMap\<close> says that addresses advance through the whole pool before any is
  reused. A restore starts again after the highest saved address instead: here the mapping of
  \<open>b.test\<close> is evicted, the map is saved and restored, and the next new name gets its address,
  with three addresses of the pool never used.
\<close>

definition reuse_ops :: "fake_op list" where
  "reuse_ops = [Capacity 3, Query ''a.test'' False, Query ''b.test'' False, Query ''x.test'' True]"

lemma names_stay:
  "query_name ''a.test'' = ''a.test''" "query_name ''b.test'' = ''b.test''"
  "query_name ''x.test'' = ''x.test''" "query_name ''y.test'' = ''y.test''"
  by (simp_all add: query_name_def trim_end_matches_def to_ascii_lowercase_def ascii_lower_def)

lemmas fake_eval = fake_run_def fake_address_def fake_get_def FakeMap_new_def FAKE_CAPACITY_def fake_allocate_def
  fake_next_def last4_def last6_def sample_ranges_def prefix_low_def prefix_high_def fake_insert_def
  set_fake_capacity_def evict_surplus_def fake_evict_def original_def fake_export_def import_fake_def
  advance_past_def is_pool_address_def in_ranges_of_def out_then_def out_ensure_def

lemma restored_pool_reuses:
  defines "run \<equiv> fake_run (\<lambda>_. Done ()) sample_ranges"
    and "ops \<equiv> reuse_ops @ [Query ''a.test'' False, Query ''y.test'' True]"
    and "query_c \<equiv> fake_address (\<lambda>_. Done ()) sample_ranges ''c.test'' False"
  shows "original (run reuse_ops) (IpV4 0xC6120003) = Some ''b.test''"
    "original (run ops) (IpV4 0xC6120003) = None"
    "fst (query_c (run ops)) = Done (IpV4 0xC6120004)"
    "fst (query_c (run (ops @ [Restore (fake_export (run ops))]))) = Done (IpV4 0xC6120003)"
  unfolding assms reuse_ops_def by (simp_all add: names_stay names_stay [unfolded query_name_def] fake_eval mask_eq_exp_minus_1 Let_def)

end
