(* ===== verification/Fake_Route.thy ===== *)
theory Fake_Route
  imports Fake_Props Route_Trace
begin

text \<open>
  How a connection to a fake address is routed: \<^verbatim>\<open>restore_target\<close>, \<^verbatim>\<open>stale_fake\<close>,
  \<^verbatim>\<open>refuse_stale_fake\<close> and the part of \<^verbatim>\<open>dial_inner\<close> that decides the node, from
  \<^verbatim>\<open>crates/core/src/lib.rs\<close> and \<^verbatim>\<open>sniff.rs\<close>. The addresses the tailnet serves on this device
  are the argument \<open>served\<close>; the connection itself is not modelled.
\<close>

definition restore_target :: "fake_map \<Rightarrow> route_target \<Rightarrow> route_target" where
  "restore_target m t =
     (case Option.bind (target_ip t) (original m) of
        Some name \<Rightarrow> \<lparr>tg_host = name, tg_port = tg_port t\<rparr>
      | None \<Rightarrow> t)"

definition stale_fake :: "string \<Rightarrow> fake_ranges \<Rightarrow> fake_map \<Rightarrow> route_target \<Rightarrow> bool" where
  "stale_fake enhanced_mode r m t =
     (case target_ip t of Some ip \<Rightarrow> is_unmapped_fake enhanced_mode r m ip | None \<Rightarrow> False)"

definition refuse_stale_fake :: "string \<Rightarrow> fake_ranges \<Rightarrow> fake_map \<Rightarrow> route_target \<Rightarrow> unit outcome" where
  "refuse_stale_fake enhanced_mode r m t =
     (if stale_fake enhanced_mode r m t
      then Fail (''fake-IP '' @ tg_host t @
        '' has no domain (cached by the client across a restart); refusing it so the client re-resolves'')
      else Done ())"

text \<open>The decision of \<^verbatim>\<open>dial_inner\<close>; \<open>selected\<close> is the name a caller asks for.\<close>

definition chosen_decision ::
    "'r regex_api \<Rightarrow> domain_hash \<Rightarrow> route_config \<Rightarrow> uint64 \<Rightarrow> ip_addr option \<Rightarrow> 'r policy \<Rightarrow> 'r ad_filter option \<Rightarrow>
     stats \<Rightarrow> route_target \<Rightarrow> string option \<Rightarrow> string \<Rightarrow> route_decision outcome \<times> stats" where
  "chosen_decision api hash c now answer p flt stats t selected network =
     (case selected of
        Some n \<Rightarrow>
          (out_then (leaf c p n) (\<lambda>node. Done \<lparr>d_node = node, d_group = n, d_rule = ''Selected''\<rparr>), stats)
      | None \<Rightarrow> route_decision_of api hash c now answer p flt stats t network)"

definition dial_decision ::
    "'r regex_api \<Rightarrow> domain_hash \<Rightarrow> route_config \<Rightarrow> uint64 \<Rightarrow> ip_addr option \<Rightarrow> 'r policy \<Rightarrow> 'r ad_filter option \<Rightarrow>
     string \<Rightarrow> fake_ranges \<Rightarrow> fake_map \<Rightarrow> 32 word list \<Rightarrow> stats \<Rightarrow> route_target \<Rightarrow> string option \<Rightarrow> string \<Rightarrow>
     route_decision outcome \<times> stats" where
  "dial_decision api hash c now answer p flt enhanced_mode r m served stats target selected network =
     (let t = restore_target m target
      in case refuse_stale_fake enhanced_mode r m t of
           Done _ \<Rightarrow>
             (case target_ip t of
                Some (IpV4 a) \<Rightarrow>
                  if a \<in> set served
                  then (Done \<lparr>d_node = ''DIRECT'', d_group = ''DIRECT'', d_rule = ''TailnetSelf''\<rparr>, stats)
                  else chosen_decision api hash c now answer p flt stats t selected network
              | _ \<Rightarrow> chosen_decision api hash c now answer p flt stats t selected network)
         | Fail e \<Rightarrow> (Fail e, stats)
         | Panicked e \<Rightarrow> (Panicked e, stats))"

text \<open>The text of an IPv4 address, as \<^verbatim>\<open>Ipv4Addr\<close> prints it.\<close>

definition show_ipv4 :: "32 word \<Rightarrow> string" where
  "show_ipv4 a =
     (let n = unat a
      in show_nat (n div 2 ^ 24) @ ''.'' @ show_nat (n div 2 ^ 16 mod 256) @ ''.'' @
         show_nat (n div 2 ^ 8 mod 256) @ ''.'' @ show_nat (n mod 256))"

lemma parse_show_ipv4 [simp]: "parse_ip (show_ipv4 a) = Some (IpV4 a)"
proof -
  let ?n = "unat a"
  have n: "?n < 2 ^ 32" using unsigned_less [of a] by simp
  have "?n div 2 ^ 8 = ?n div 256" "?n div 2 ^ 16 = ?n div 256 div 256" "?n div 2 ^ 24 = ?n div 256 div 256 div 256"
    by (simp_all flip: div_mult2_eq)
  then have "((?n div 2 ^ 24 * 256 + ?n div 2 ^ 16 mod 256) * 256 + ?n div 2 ^ 8 mod 256) * 256 + ?n mod 256 = ?n"
    by (simp only: div_mult_mod_eq)
  moreover have "?n div 2 ^ 24 < 256" using n by (simp add: less_mult_imp_div_less)
  ultimately show ?thesis
    unfolding show_ipv4_def Let_def by (subst parse_ip_dotted) simp_all
qed



end
