(* ===== verification/Spec2Isabelle.thy ===== *)
theory Spec2Isabelle
  imports Endian Mem Bytestring Ffi_Wake Ffi_Create Rule_Grouping Route_Runs Fake_Route
begin

text \<open>
  A verification of parts of Clyntis, a rule-based proxy core written in Rust with a C
  interface for its hosts: that interface, the rules, the routing decisions, the fake addresses
  of its resolver, and the byte-string library of the BoringSSL copy that it vendors. The sources are the repository's \<^verbatim>\<open>src/\<close>.

  \<^bold>\<open>The C interface.\<close> A host (an iOS Network Extension, an Android service) drives the core
  through the functions of \<^verbatim>\<open>crates/ffi/include/clyntis.h\<close>, implemented in
  \<^verbatim>\<open>crates/ffi/src/lib.rs\<close> on top of \<^verbatim>\<open>host.rs\<close> (handles, worker threads, packet queues) and
  \<^verbatim>\<open>logs.rs\<close> (the log ring). The theories follow these files:

  \<^item> \<^verbatim>\<open>Rust_Io\<close>, \<^verbatim>\<open>Utf8\<close>, \<^verbatim>\<open>Json\<close>, \<^verbatim>\<open>Net_Types\<close>: outcomes (value, error, panic), computations on a
    state with their outcome, UTF-8 validation, JSON values, addresses.
  \<^item> \<^verbatim>\<open>Clyntis_H\<close>: the header. The memory of the host is one store per C type; the calls are the
    datatype \<open>meta_call\<close>, one constructor per prototype.
  \<^item> \<^verbatim>\<open>Ffi_Logs\<close>, \<^verbatim>\<open>Ffi_Packets\<close>, \<^verbatim>\<open>Ffi_Handle\<close>: \<^verbatim>\<open>logs.rs\<close> and \<^verbatim>\<open>host.rs\<close>; \<^verbatim>\<open>Config_Crypto\<close>:
    \<^verbatim>\<open>crates/config/src/crypto.rs\<close>.
  \<^item> \<^verbatim>\<open>Ffi_Abi\<close>: \<^verbatim>\<open>lib.rs\<close>, one definition per exported function with the source's name, on the
    state \<open>ffi\<close> of the process: memory, error text and callback flag per thread, registry of
    handles, next identifier, logs. \<open>boundary\<close> turns errors and panics into \<^verbatim>\<open>META_ERROR\<close>.
  \<^item> \<^verbatim>\<open>Ffi_Calls\<close>: all calls at once. The locale \<open>abi_relation\<close> states what a relation on states
    must allow to be kept by every call; it is interpreted for memory footprints, for thread
    locality and for the registry.
  \<^item> \<^verbatim>\<open>Ffi_Wake\<close>: the packet path with its steps interleaved, as a transition system.
  \<^item> \<^verbatim>\<open>Ffi_Buffers\<close>, \<^verbatim>\<open>Ffi_Packet_Calls\<close>, \<^verbatim>\<open>Ffi_Config_Calls\<close>, \<^verbatim>\<open>Ffi_Lifecycle\<close>,
    \<^verbatim>\<open>Ffi_Create\<close>: the contract the header states, proved of these definitions. \<^verbatim>\<open>Ffi_Ops\<close> holds
    the equations they share and
    \<^verbatim>\<open>Ffi_Example\<close> a concrete environment for the witnesses.

  What these show: calls write only their outputs; a buffer that is too small loses nothing
  and tells the length that is enough; errors are readable and local to the thread; handles
  are checked, never reused, at most sixteen; a core starts at most once and never after a
  stop, and its phases only go forward; creation registers a fresh core or nothing, and a
  packet tunnel forces its settings; lifecycle calls are refused in callbacks; decryption exposes only valid
  configurations and inverts encryption; packets arrive in order, none is lost and
  notifications are coalesced; the log ring keeps the latest 2000 lines and drains all or
  nothing.

  \<^bold>\<open>The rules.\<close> A rule is a condition on the host name, address, port and network of a
  connection, and a target. \<^verbatim>\<open>Rust_Str\<close> and \<^verbatim>\<open>Rust_Slices\<close> model what \<^verbatim>\<open>crates/config/src/rule.rs\<close>
  uses of strings and of sorted slices. The theories follow the types of that file:

  \<^item> \<^verbatim>\<open>Rule_Ips\<close>: \<^verbatim>\<open>IpSet\<close>, sorted and merged ranges of addresses searched by bisection.
  \<^item> \<^verbatim>\<open>Rule_Globs\<close>: patterns with stars; the loop of \<^verbatim>\<open>label_matches\<close> is a partial function of
    which termination is proved.
  \<^item> \<^verbatim>\<open>Rule_Domains\<close>: \<^verbatim>\<open>DomainSet\<close>, lists of hashes and the index of patterns.
  \<^item> \<^verbatim>\<open>Rule_Matcher\<close>, \<^verbatim>\<open>Rule_Parse\<close>: \<^verbatim>\<open>Matcher\<close> and \<^verbatim>\<open>Rule\<close>, their evaluation in three values and
    their parsers; \<^verbatim>\<open>PortRange\<close> of \<^verbatim>\<open>crates/config/src/compat.rs\<close>.
  \<^item> \<^verbatim>\<open>Rule_Builder\<close>: \<^verbatim>\<open>DomainSetBuilder\<close>, and \<^verbatim>\<open>provider_matcher\<close> of
    \<^verbatim>\<open>crates/core/src/resources.rs\<close>, which packs the entries of a rule provider.
  \<^item> \<^verbatim>\<open>Rule_Grouping\<close>: packing keeps the result, entry by entry, and one kind of entry for which it
    does not.

  The hypotheses are that no two of the names involved share a hash (\<open>no_collision\<close>) and what the
  regex crate documents of alternations, escaping and stars (\<open>regex_ok\<close>).

  \<^bold>\<open>Routing.\<close> The core decides for each connection which proxy it uses: ad blocking first, then
  the mode, then the rules in order, then the groups, each of which has one of its members
  selected. \<^verbatim>\<open>Rust_Ip\<close> models the parser of addresses of the Rust library. The theories are:

  \<^item> \<^verbatim>\<open>Networks\<close>: \<^verbatim>\<open>crates/config/src/network.rs\<close>, conditions on the network the device is on.
  \<^item> \<^verbatim>\<open>Policy_Config\<close>: the part of \<^verbatim>\<open>Config\<close> and \<^verbatim>\<open>Config::validate\<close> (\<^verbatim>\<open>crates/config/src/lib.rs\<close>)
    that routing depends on: names, members of groups, rules. The other checks are the argument
    \<open>others\<close>. Error texts keep their fixed part.
  \<^item> \<^verbatim>\<open>Ad_Filter\<close>: \<^verbatim>\<open>adblock.rs\<close> of \<^verbatim>\<open>crates/config\<close> and \<^verbatim>\<open>crates/core\<close>: settings, filter, counters.
  \<^item> \<^verbatim>\<open>Route_Trace\<close>: \<^verbatim>\<open>trace_route\<close>, \<^verbatim>\<open>leaf\<close>, \<^verbatim>\<open>chain\<close> and \<^verbatim>\<open>describe_rule\<close> of
    \<^verbatim>\<open>crates/core/src/lib.rs\<close>. What the resolver answers is an argument.
  \<^item> \<^verbatim>\<open>Route_Core\<close>: the operations that change the state routing reads (\<^verbatim>\<open>select\<close>, \<^verbatim>\<open>update_policy\<close>,
    \<^verbatim>\<open>set_network\<close>, \<^verbatim>\<open>prepare_resources\<close>, \<^verbatim>\<open>set_adblock_allow\<close>, the url-test round, restored
    selections) as steps of the relation \<open>core_step\<close>, and the invariant of all runs.
  \<^item> \<^verbatim>\<open>Route_Runs\<close>: what holds along every run: each connection gets a decision with an existing
    node, and the flags of named networks follow the network reported last.

  Rules decide by the first match, and resolving a name only when a rule needs its address does
  not change the route. Operations are atomic: the code holds a lock over each of them.

  \<^bold>\<open>Fake addresses.\<close> In the mode \<^verbatim>\<open>fake-ip\<close> the resolver (\<^verbatim>\<open>crates/core/src/dns.rs\<close>) answers names
  with addresses of a reserved pool, and connections to them are routed by name.

  \<^item> \<^verbatim>\<open>Fake_Map\<close>: \<^verbatim>\<open>FakeMap\<close> and the functions of \<^verbatim>\<open>Resolver\<close> on it, its consistency, and that
    eviction drops the mapping queried longest ago.
  \<^item> \<^verbatim>\<open>Fake_Pool\<close>: the addresses of the pool and the scan for a free one.
  \<^item> \<^verbatim>\<open>Fake_Runs\<close>, \<^verbatim>\<open>Fake_Props\<close>: runs of queries, restores and changes of the capacity, and what
    they keep: inverse maps within the capacity, round trips, the queue of mappings, saving.
  \<^item> \<^verbatim>\<open>Fake_Route\<close>: \<^verbatim>\<open>restore_target\<close>, \<^verbatim>\<open>refuse_stale_fake\<close> and the decision of \<^verbatim>\<open>dial_inner\<close>, which
    join the map with the routing decisions.

  The ranges are assumed to have prefixes of their width, and the IPv6 range not to be the whole
  address space (\<open>ranges_ok\<close>). The check of names by the DNS library is an argument.

  \<^bold>\<open>The byte strings of BoringSSL\<close>, under
  \<^verbatim>\<open>third-party/boring-sys/deps/boringssl/\<close>: \<^verbatim>\<open>Constant_Time\<close> and \<^verbatim>\<open>Endian\<close> model
  \<^verbatim>\<open>crypto/internal.h\<close>, \<^verbatim>\<open>Mem\<close> models \<^verbatim>\<open>crypto/mem.cc\<close>; \<^verbatim>\<open>Cbs\<close>, \<^verbatim>\<open>Base128\<close>, \<^verbatim>\<open>Cbs_Asn1\<close> and
  \<^verbatim>\<open>Asn1_Integer\<close> the reader \<^verbatim>\<open>crypto/bytestring/cbs.cc\<close>; \<^verbatim>\<open>Cbb\<close>, \<^verbatim>\<open>Cbb_Correct\<close>, \<^verbatim>\<open>Cbb_Wire\<close>
  and \<^verbatim>\<open>Cbb_Asn1\<close> the writer \<^verbatim>\<open>cbb.cc\<close>. The locale \<open>codec\<close> relates readers and encodings,
  \<open>appender\<close> the writer's operations and the same encodings, and \<open>wire_format\<close> joins the two.
  \<^verbatim>\<open>Cbb_Errors\<close> shows that the error flag of a builder sticks, and \<^verbatim>\<open>Bytestring\<close> collects what
  the library promises to its callers: round trips, canonical encodings, nested frames.

  \<^bold>\<open>Bounds.\<close> Loops are structural recursions; the UTF-8 scan takes the length of its input as
  fuel, of which every step uses at least one byte, and \<open>from_utf8_iff\<close> shows that this is
  enough; trimming takes the length of the string likewise. The loop that evicts down to the
  capacity takes the number of mappings as fuel, of which each round removes one, and
  \<open>evict_while_spec\<close> shows that it ends at the capacity. The visit of groups is a function with a
  termination proof on the groups that are not yet on the path. Machine integers are words where
  they may wrap; lengths of host buffers are natural numbers, since the interface only
  compares them.

  \<^bold>\<open>Parameters.\<close> Code outside the model is an argument: the core, the configuration and JSON
  crates, ciphers, the file system, and what other threads decide in a call (\<open>env\<close>). The
  hypotheses \<open>ciphers_ok\<close> state that decryption inverts encryption, the length of Base64 and
  its alphabet, and are met by a concrete instance with the standard Base64.

  \<^bold>\<open>Not modelled.\<close> The asynchronous networking of the core, the DNS messages and the cache of the
  resolver, the parsers of downloaded lists, the proxy protocols, platform code and
  applications (they work on sockets and operating-system services); the rest of BoringSSL; in the modelled files, code for tests and the formatting of backtraces. The
  memory model of the packet flag is sequential consistency, which its acquire-release
  exchanges on a single flag provide for the accesses that are used.
\<close>

end
